(* ===== verification/Prelude.thy ===== *)
theory Prelude
  imports Main "HOL-Library.Word" "HOL-Library.List_Lexorder" "HOL-Library.Char_ord"
begin

text \<open>
  Shared vocabulary of the development: machine integers, byte strings, Rust's
  \<open>Result\<close> with a third constructor for a panic, the \<open>?\<close> operator for pure and for
  state-passing code, and the lemma collections the component theories fill.

  A Rust \<open>String\<close> is the list of its UTF-8 bytes, a HOL \<^typ>\<open>string\<close>
  (a \<^typ>\<open>char\<close> of HOL is one byte), so that \<open>len\<close>, byte indices and \<open>Ord\<close>
  (lexicographic by byte, instance of \<^theory_text>\<open>List_Lexorder\<close>) are Rust's.
\<close>

section \<open>Types\<close>

type_synonym u8 = "8 word"
type_synonym u16 = "16 word"
type_synonym u32 = "32 word"
type_synonym u64 = "64 word"
type_synonym bytes = "u8 list"

text \<open>
  Rust's \<open>Result<T, E>\<close>. \<open>Panic\<close> is a value of its own: \<open>?\<close>, \<open>map_err\<close> and the
  callers pass it on, and only a caller that catches an \<open>Err\<close> does not catch it.
\<close>

datatype ('a, 'e) result = Ok 'a | Err 'e | Panic

text \<open>A state-passing operation: what a \<open>&mut self\<close> method returns and leaves behind.\<close>

type_synonym ('s, 'a, 'e) op = "'s \<Rightarrow> ('a, 'e) result \<times> 's"

section \<open>Collections of facts\<close>

named_theorems result_simps \<open>unfolding rules of the result combinators\<close>
named_theorems store_simps \<open>effect of the storage operations on the abstract view\<close>
named_theorems frame_simps \<open>fields an operation leaves alone\<close>

section \<open>Pure results\<close>

fun map_err :: "('e \<Rightarrow> 'f) \<Rightarrow> ('a, 'e) result \<Rightarrow> ('a, 'f) result" where
  "map_err f (Ok a) = Ok a"
| "map_err f (Err e) = Err (f e)"
| "map_err f Panic = Panic"

fun bindR :: "('a, 'e) result \<Rightarrow> ('a \<Rightarrow> ('b, 'e) result) \<Rightarrow> ('b, 'e) result" where
  "bindR (Ok a) f = f a"
| "bindR (Err e) f = Err e"
| "bindR Panic f = Panic"

fun ok_or :: "'a option \<Rightarrow> 'e \<Rightarrow> ('a, 'e) result" where
  "ok_or (Some a) e = Ok a"
| "ok_or None e = Err e"

fun is_ok :: "('a, 'e) result \<Rightarrow> bool" where
  "is_ok (Ok a) = True"
| "is_ok (Err e) = False"
| "is_ok Panic = False"

text \<open>\<open>expect\<close>: an error is a panic.\<close>

fun expect :: "('a, 'e) result \<Rightarrow> ('a, 'f) result" where
  "expect (Ok a) = Ok a"
| "expect (Err e) = Panic"
| "expect Panic = Panic"

lemma map_err_eq_Ok [simp]: "map_err f r = Ok a \<longleftrightarrow> r = Ok a"
  by (cases r) auto

lemma map_err_eq_Panic [simp]: "map_err f r = Panic \<longleftrightarrow> r = Panic"
  by (cases r) auto

lemma map_err_eq_Err: "map_err f r = Err e \<longleftrightarrow> (\<exists>e'. r = Err e' \<and> e = f e')"
  by (cases r) auto

lemma bindR_eq_Ok [simp]: "bindR r f = Ok b \<longleftrightarrow> (\<exists>a. r = Ok a \<and> f a = Ok b)"
  by (cases r) auto

lemma bindR_eq_Panic: "bindR r f = Panic \<longleftrightarrow> r = Panic \<or> (\<exists>a. r = Ok a \<and> f a = Panic)"
  by (cases r) auto

lemma is_ok_iff: "is_ok r \<longleftrightarrow> (\<exists>a. r = Ok a)"
  by (cases r) auto

section \<open>State-passing results\<close>

text \<open>The \<open>?\<close> operator: go on with the value, or return the error with the state reached.\<close>

definition bindO :: "('s, 'a, 'e) op \<Rightarrow> ('a \<Rightarrow> ('s, 'b, 'e) op) \<Rightarrow> ('s, 'b, 'e) op" where
  "bindO m f = (\<lambda>s. case m s of
       (Ok a, s') \<Rightarrow> f a s'
     | (Err e, s') \<Rightarrow> (Err e, s')
     | (Panic, s') \<Rightarrow> (Panic, s'))"

definition retO :: "'a \<Rightarrow> ('s, 'a, 'e) op" where
  "retO a = (\<lambda>s. (Ok a, s))"

text \<open>A pure fallible computation inside an operation.\<close>

definition liftR :: "('a, 'e) result \<Rightarrow> ('s, 'a, 'e) op" where
  "liftR r = (\<lambda>s. (r, s))"

lemma retO_apply [simp]: "retO a s = (Ok a, s)"
  by (simp add: retO_def)

lemma liftR_apply [simp]: "liftR r s = (r, s)"
  by (simp add: liftR_def)

lemma bindO_Ok [simp]: "m s = (Ok a, s') \<Longrightarrow> bindO m f s = f a s'"
  by (simp add: bindO_def)

lemma bindO_Err [simp]: "m s = (Err e, s') \<Longrightarrow> bindO m f s = (Err e, s')"
  by (simp add: bindO_def)

lemma bindO_Panic [simp]: "m s = (Panic, s') \<Longrightarrow> bindO m f s = (Panic, s')"
  by (simp add: bindO_def)

lemma bindO_eq_Ok:
  "bindO m f s = (Ok b, s'') \<longleftrightarrow> (\<exists>a s'. m s = (Ok a, s') \<and> f a s' = (Ok b, s''))"
  by (auto simp: bindO_def split: prod.splits result.splits)

lemma bindO_eq_Panic:
  "bindO m f s = (Panic, s'') \<longleftrightarrow>
     m s = (Panic, s'') \<or> (\<exists>a s'. m s = (Ok a, s') \<and> f a s' = (Panic, s''))"
  by (auto simp: bindO_def split: prod.splits result.splits)

lemma bindO_eq_Err:
  "bindO m f s = (Err e, s'') \<longleftrightarrow>
     m s = (Err e, s'') \<or> (\<exists>a s'. m s = (Ok a, s') \<and> f a s' = (Err e, s''))"
  by (auto simp: bindO_def split: prod.splits result.splits)

lemma bindO_ret [simp]: "bindO (retO a) f = f a"
  by (rule ext) (simp add: bindO_def)

lemma bindO_assoc: "bindO (bindO m f) g = bindO m (\<lambda>a. bindO (f a) g)"
  by (rule ext) (auto simp: bindO_def split: prod.splits result.splits)

lemmas op_results = bindO_eq_Ok bindO_eq_Err bindO_eq_Panic

text \<open>
  A predicate on states that every operation of a chain keeps, whatever it returns.
\<close>

definition keeps :: "('s \<Rightarrow> bool) \<Rightarrow> ('s, 'a, 'e) op \<Rightarrow> bool" where
  "keeps P m \<longleftrightarrow> (\<forall>s r s'. P s \<longrightarrow> m s = (r, s') \<longrightarrow> P s')"

lemma keepsI: "(\<And>s r s'. P s \<Longrightarrow> m s = (r, s') \<Longrightarrow> P s') \<Longrightarrow> keeps P m"
  by (simp add: keeps_def)

lemma keepsD: "keeps P m \<Longrightarrow> P s \<Longrightarrow> m s = (r, s') \<Longrightarrow> P s'"
  by (simp add: keeps_def)

lemma keeps_bindO [intro]:
  assumes "keeps P m" and "\<And>a. keeps P (f a)"
  shows "keeps P (bindO m f)"
proof (rule keepsI)
  fix s r s'
  assume "P s" and eq: "bindO m f s = (r, s')"
  obtain x t where m: "m s = (x, t)" by (cases "m s")
  with assms(1) \<open>P s\<close> have "P t" by (auto dest: keepsD)
  with m eq assms(2) show "P s'"
    by (cases x) (auto dest: keepsD)
qed

lemma keeps_retO [intro, simp]: "keeps P (retO a)"
  by (simp add: keeps_def)

lemma keeps_liftR [intro, simp]: "keeps P (liftR r)"
  by (simp add: keeps_def)

section \<open>Lists and maps\<close>

text \<open>Writing the elements of a list into a map, later elements over earlier ones.\<close>

fun upd_all :: "('x \<Rightarrow> 'k) \<Rightarrow> ('x \<Rightarrow> 'v) \<Rightarrow> 'x list \<Rightarrow> ('k \<rightharpoonup> 'v) \<Rightarrow> ('k \<rightharpoonup> 'v)" where
  "upd_all k v [] m = m"
| "upd_all k v (x # xs) m = upd_all k v xs (m(k x \<mapsto> v x))"

lemma upd_all_append: "upd_all k v (xs @ ys) m = upd_all k v ys (upd_all k v xs m)"
  by (induction xs arbitrary: m) simp_all

lemma upd_all_other: "i \<notin> k ` set xs \<Longrightarrow> upd_all k v xs m i = m i"
  by (induction xs arbitrary: m) simp_all

lemma upd_all_distinct:
  "distinct (map k xs) \<Longrightarrow> x \<in> set xs \<Longrightarrow> upd_all k v xs m (k x) = Some (v x)"
  by (induction xs arbitrary: m) (auto simp: upd_all_other)

lemma upd_all_hit:
  "i \<in> k ` set xs \<Longrightarrow> \<exists>x \<in> set xs. i = k x \<and> upd_all k v xs m i = Some (v x)"
proof (induction xs arbitrary: m)
  case Nil
  then show ?case by simp
next
  case (Cons x xs)
  show ?case
  proof (cases "i \<in> k ` set xs")
    case True
    from Cons.IH [OF this, of "m(k x \<mapsto> v x)"] show ?thesis by (metis list.set_intros(2) upd_all.simps(2))
  next
    case False
    with Cons.prems show ?thesis by (auto simp: upd_all_other)
  qed
qed

lemma dom_upd_all: "dom (upd_all k v xs m) = dom m \<union> k ` set xs"
  by (induction xs arbitrary: m) auto

end
