(* ===== verification/Rust_Std.thy ===== *)
theory Rust_Std
  imports Prelude
begin

text \<open>
  What the program uses of Rust's standard library, as executable functions: big-endian
  integers, decimal \<open>Display\<close> and \<open>FromStr\<close> of unsigned integers, white space and
  splitting of UTF-8 strings, \<open>Debug\<close> of strings, and \<open>BTreeMap\<close>.
\<close>

section \<open>Big-endian integers\<close>

text \<open>\<open>to_be n x\<close> is the \<open>n\<close>-byte big-endian form of \<open>x\<close> (\<open>to_be_bytes\<close> of an integer of
  \<open>8 * n\<close> bits), \<open>from_be\<close> its reading.\<close>

fun to_be :: "nat \<Rightarrow> nat \<Rightarrow> bytes" where
  "to_be 0 x = []"
| "to_be (Suc n) x = of_nat (x div 256 ^ n mod 256) # to_be n x"

fun from_be_acc :: "nat \<Rightarrow> bytes \<Rightarrow> nat" where
  "from_be_acc a [] = a"
| "from_be_acc a (b # bs) = from_be_acc (a * 256 + unat b) bs"

definition from_be :: "bytes \<Rightarrow> nat" where
  "from_be bs = from_be_acc 0 bs"

lemma length_to_be [simp]: "length (to_be n x) = n"
  by (induction n) simp_all

lemma from_be_acc_eq: "from_be_acc a bs = a * 256 ^ length bs + from_be bs"
proof (induction bs arbitrary: a)
  case Nil
  then show ?case by (simp add: from_be_def)
next
  case (Cons b bs)
  from Cons.IH [of "a * 256 + unat b"] Cons.IH [of "unat b"] show ?case
    by (simp add: from_be_def algebra_simps)
qed

lemma from_be_Nil [simp]: "from_be [] = 0"
  by (simp add: from_be_def)

lemma from_be_Cons: "from_be (b # bs) = unat b * 256 ^ length bs + from_be bs"
  using from_be_acc_eq [of "unat b" bs] by (simp add: from_be_def)

lemma unat_u8_bound: "unat (b :: u8) \<le> 255"
  using unsigned_less [where ?'a = nat, of b] by simp

lemma from_be_bound: "from_be bs < 256 ^ length bs"
proof (induction bs)
  case Nil
  then show ?case by simp
next
  case (Cons b bs)
  have "unat b * 256 ^ length bs \<le> 255 * 256 ^ length bs"
    using unat_u8_bound [of b] by (rule mult_right_mono) simp
  with Cons.IH show ?case
    unfolding from_be_Cons length_Cons power_Suc by linarith
qed

lemma unat_of_nat_u8: "unat (of_nat (x mod 256) :: u8) = x mod 256"
  by (simp add: unat_of_nat)

lemma from_be_to_be_mod: "from_be (to_be n x) = x mod 256 ^ n"
proof (induction n)
  case 0
  then show ?case by simp
next
  case (Suc n)
  have "x mod 256 ^ Suc n = 256 ^ n * (x div 256 ^ n mod 256) + x mod 256 ^ n"
    using mod_mult2_eq [of x "256 ^ n" 256] by (simp add: mult.commute)
  with Suc.IH show ?case
    by (simp add: from_be_Cons unat_of_nat_u8 mult.commute)
qed

lemma from_be_to_be: "x < 256 ^ n \<Longrightarrow> from_be (to_be n x) = x"
  by (simp add: from_be_to_be_mod)

lemma to_be_add: "to_be n (y * 256 ^ n + x) = to_be n x"
proof -
  have "to_be k (y * 256 ^ n + x) = to_be k x" if "k \<le> n" for k
    using that
  proof (induction k)
    case 0
    then show ?case by simp
  next
    case (Suc k)
    then obtain d where d: "n = Suc (k + d)" using less_iff_Suc_add by (auto simp: Suc_le_eq)
    have "(y * 256 ^ n + x) div 256 ^ k = x div 256 ^ k + y * 256 ^ Suc d"
    proof -
      have "y * 256 ^ n = 256 ^ k * (y * 256 ^ Suc d)"
        by (simp add: d power_add)
      then have "(y * 256 ^ n + x) div 256 ^ k = (x + 256 ^ k * (y * 256 ^ Suc d)) div 256 ^ k"
        by (simp only: add.commute)
      then show ?thesis by (simp only: div_mult_self2) simp
    qed
    also have "\<dots> = x div 256 ^ k + 256 * (y * 256 ^ d)"
      by (simp add: mult.left_commute)
    finally have "(y * 256 ^ n + x) div 256 ^ k mod 256 = x div 256 ^ k mod 256"
      by (simp only: mod_mult_self2)
    with Suc show ?case by simp
  qed
  then show ?thesis by simp
qed

lemma to_be_from_be: "to_be (length bs) (from_be bs) = bs"
proof (induction bs)
  case Nil
  then show ?case by simp
next
  case (Cons b bs)
  have "from_be (b # bs) div 256 ^ length bs = unat b"
    using from_be_bound [of bs] by (simp add: from_be_Cons)
  moreover have "unat b mod 256 = unat b"
    using unat_u8_bound [of b] by simp
  ultimately show ?case
    using Cons.IH by (simp add: from_be_Cons to_be_add)
qed

text \<open>Byte strings of one length are ordered as the numbers they stand for.\<close>

lemma less_iff_from_be:
  "length xs = length ys \<Longrightarrow> xs < ys \<longleftrightarrow> from_be xs < from_be ys"
proof (induction xs ys rule: list_induct2)
  case Nil
  then show ?case by simp
next
  case (Cons x xs y ys)
  let ?p = "256 ^ length ys :: nat"
  have bx: "from_be xs < ?p" and "by": "from_be ys < ?p"
    using from_be_bound [of xs] from_be_bound [of ys] Cons.hyps by simp_all
  consider "unat x < unat y" | "x = y" | "unat y < unat x"
    by (metis linorder_neqE_nat word_unat_eq_iff)
  then show ?case
  proof cases
    case 1
    then have "unat x * ?p + ?p \<le> unat y * ?p"
      by (metis Suc_leI add.commute mult_Suc mult_le_mono1)
    with 1 bx show ?thesis
      by (simp add: from_be_Cons Cons.hyps word_less_nat_alt)
  next
    case 2
    with Cons.IH show ?thesis by (simp add: from_be_Cons Cons.hyps)
  next
    case 3
    then have "unat y * ?p + ?p \<le> unat x * ?p"
      by (metis Suc_leI add.commute mult_Suc mult_le_mono1)
    with 3 "by" show ?thesis
      by (auto simp: from_be_Cons Cons.hyps word_less_nat_alt)
  qed
qed

section \<open>Bytes of a string\<close>

definition byte :: "char \<Rightarrow> nat" where
  "byte c = of_char c"

lemma byte_char_of [simp]: "byte (char_of n) = n mod 256"
  by (simp add: byte_def)

lemma byte_eq_iff: "byte c = byte d \<longleftrightarrow> c = d"
  by (simp add: byte_def)

text \<open>The bytes of a string, \<open>as_bytes\<close>.\<close>

definition u8_of :: "char \<Rightarrow> u8" where
  "u8_of c = of_nat (byte c)"

definition str_bytes :: "string \<Rightarrow> bytes" where
  "str_bytes = map u8_of"

lemma byte_less: "byte c < 256"
  by (simp add: byte_def)

lemma unat_u8_of [simp]: "unat (u8_of c) = byte c"
  using byte_less [of c] by (simp add: u8_of_def unat_of_nat)

lemma char_of_byte [simp]: "char_of (byte c) = c"
  by (simp add: byte_def)

lemma char_of_u8_of: "char_of (unat (u8_of c)) = c"
  by simp

lemma str_bytes_inject: "str_bytes s = str_bytes t \<longleftrightarrow> s = t"
proof -
  have "inj u8_of" by (rule injI) (metis char_of_u8_of)
  then show ?thesis by (simp add: str_bytes_def inj_map_eq_map)
qed

section \<open>Unsigned integers: Display and FromStr\<close>

definition digit :: "nat \<Rightarrow> char" where
  "digit d = char_of (48 + d)"

fun show_nat :: "nat \<Rightarrow> string" where
  "show_nat n = (if n < 10 then [digit n] else show_nat (n div 10) @ [digit (n mod 10)])"

declare show_nat.simps [simp del]

definition show_u64 :: "u64 \<Rightarrow> string" where
  "show_u64 w = show_nat (unat w)"

datatype int_error = IntEmpty | InvalidDigit | PosOverflow

fun show_int_error :: "int_error \<Rightarrow> string" where
  "show_int_error IntEmpty = ''cannot parse integer from empty string''"
| "show_int_error InvalidDigit = ''invalid digit found in string''"
| "show_int_error PosOverflow = ''number too large to fit in target type''"

definition is_digit :: "char \<Rightarrow> bool" where
  "is_digit c \<longleftrightarrow> 48 \<le> byte c \<and> byte c \<le> 57"

text \<open>\<open>parse_digits lim acc s\<close>: the digit loop of \<open>from_str\<close>, for a type of values below \<open>lim\<close>.\<close>

fun parse_digits :: "nat \<Rightarrow> nat \<Rightarrow> string \<Rightarrow> (nat, int_error) result" where
  "parse_digits lim acc [] = Ok acc"
| "parse_digits lim acc (c # s) =
     (if \<not> is_digit c then Err InvalidDigit
      else if lim \<le> acc * 10 + (byte c - 48) then Err PosOverflow
      else parse_digits lim (acc * 10 + (byte c - 48)) s)"

fun parse_uint :: "nat \<Rightarrow> string \<Rightarrow> (nat, int_error) result" where
  "parse_uint lim [] = Err IntEmpty"
| "parse_uint lim (c # s) =
     (if c = CHR ''+'' then (if s = [] then Err InvalidDigit else parse_digits lim 0 s)
      else parse_digits lim 0 (c # s))"

definition parse_u64 :: "string \<Rightarrow> (u64, int_error) result" where
  "parse_u64 s = bindR (parse_uint (2 ^ 64) s) (\<lambda>n. Ok (of_nat n))"

lemma byte_digit: "d < 10 \<Longrightarrow> byte (digit d) = 48 + d"
  by (simp add: digit_def)

lemma is_digit_digit: "d < 10 \<Longrightarrow> is_digit (digit d)"
  by (simp add: is_digit_def byte_digit)

lemma show_nat_digits: "c \<in> set (show_nat n) \<Longrightarrow> is_digit c"
proof (induction n rule: show_nat.induct)
  case (1 n)
  then show ?case
    by (cases "n < 10") (auto simp: show_nat.simps [of n] is_digit_digit)
qed

lemma show_nat_nonempty [simp]: "show_nat n \<noteq> []"
  by (subst show_nat.simps) simp

lemma parse_digits_append:
  "parse_digits lim acc (s @ t) = bindR (parse_digits lim acc s) (\<lambda>a. parse_digits lim a t)"
  by (induction lim acc s rule: parse_digits.induct) auto

lemma parse_digits_show_nat: "n < lim \<Longrightarrow> parse_digits lim 0 (show_nat n) = Ok n"
proof (induction n rule: show_nat.induct)
  case (1 n)
  show ?case
  proof (cases "n < 10")
    case True
    with "1.prems" show ?thesis
      by (simp add: show_nat.simps [of n] is_digit_digit byte_digit)
  next
    case False
    with 1 have "parse_digits lim 0 (show_nat (n div 10)) = Ok (n div 10)" by simp
    with False "1.prems" show ?thesis
      by (simp add: show_nat.simps [of n] parse_digits_append is_digit_digit byte_digit)
  qed
qed

lemma digit_not_sign: "is_digit c \<Longrightarrow> c \<noteq> CHR ''+''"
  by (auto simp: is_digit_def byte_def)

lemma parse_uint_show_nat:
  assumes "n < lim"
  shows "parse_uint lim (show_nat n) = Ok n"
proof -
  obtain c s where cs: "show_nat n = c # s"
    by (cases "show_nat n") simp_all
  then have "is_digit c" using show_nat_digits [of c n] by simp
  then have "c \<noteq> CHR ''+''" by (rule digit_not_sign)
  with parse_digits_show_nat [OF assms] cs show ?thesis by simp
qed

lemma parse_u64_show_u64 [simp]: "parse_u64 (show_u64 w) = Ok w"
  using unsigned_less [where ?'a = nat, of w]
  by (simp add: parse_u64_def show_u64_def parse_uint_show_nat)

lemma show_u64_inject: "show_u64 v = show_u64 w \<longleftrightarrow> v = w"
  by (metis parse_u64_show_u64 result.inject(1))

section \<open>White space\<close>

text \<open>
  \<open>char::is_whitespace\<close> on UTF-8: the number of bytes of the white-space character a
  string starts with, 0 when it starts with none. The cases are the Unicode characters
  of property White\_Space: U+0009 to U+000D and U+0020 (one byte), U+0085 and U+00A0
  (two), U+1680, U+2000 to U+200A, U+2028, U+2029, U+202F, U+205F and U+3000 (three).
\<close>

definition ascii_ws :: "char \<Rightarrow> bool" where
  "ascii_ws a \<longleftrightarrow> byte a = 32 \<or> (9 \<le> byte a \<and> byte a \<le> 13)"

definition ws2 :: "char \<Rightarrow> char \<Rightarrow> bool" where
  "ws2 a b \<longleftrightarrow> byte a = 0xC2 \<and> (byte b = 0x85 \<or> byte b = 0xA0)"

definition ws3 :: "char \<Rightarrow> char \<Rightarrow> char \<Rightarrow> bool" where
  "ws3 a b c \<longleftrightarrow>
     (byte a = 0xE1 \<and> byte b = 0x9A \<and> byte c = 0x80)
   \<or> (byte a = 0xE2 \<and> byte b = 0x80 \<and>
        ((0x80 \<le> byte c \<and> byte c \<le> 0x8A) \<or> byte c = 0xA8 \<or> byte c = 0xA9 \<or> byte c = 0xAF))
   \<or> (byte a = 0xE2 \<and> byte b = 0x81 \<and> byte c = 0x9F)
   \<or> (byte a = 0xE3 \<and> byte b = 0x80 \<and> byte c = 0x80)"

fun ws_len :: "string \<Rightarrow> nat" where
  "ws_len [] = 0"
| "ws_len [a] = (if ascii_ws a then 1 else 0)"
| "ws_len [a, b] = (if ascii_ws a then 1 else if ws2 a b then 2 else 0)"
| "ws_len (a # b # c # s) =
     (if ascii_ws a then 1 else if ws2 a b then 2 else if ws3 a b c then 3 else 0)"

lemma ws_len_le: "ws_len s \<le> length s"
  by (cases s rule: ws_len.cases) auto

text \<open>\<open>trim_start\<close>.\<close>

function skip_ws :: "string \<Rightarrow> string" where
  "skip_ws s = (if ws_len s = 0 then s else skip_ws (drop (ws_len s) s))"
  by pat_completeness auto
termination
proof (relation "measure length")
  fix s assume "ws_len s \<noteq> 0"
  with ws_len_le [of s] show "(drop (ws_len s) s, s) \<in> measure length" by auto
qed simp

declare skip_ws.simps [simp del]

text \<open>The longest prefix without white space, and the rest.\<close>

fun span_word :: "string \<Rightarrow> string \<times> string" where
  "span_word [] = ([], [])"
| "span_word (c # s) =
     (if ws_len (c # s) \<noteq> 0 then ([], c # s)
      else (case span_word s of (w, r) \<Rightarrow> (c # w, r)))"

lemma span_word_append: "span_word s = (w, r) \<Longrightarrow> s = w @ r"
  by (induction s arbitrary: w r) (auto split: if_splits prod.splits)

lemma skip_ws_head: "ws_len (skip_ws s) = 0"
proof (induction s rule: skip_ws.induct)
  case (1 s)
  then show ?case by (cases "ws_len s = 0") (simp_all add: skip_ws.simps [of s])
qed

lemma span_word_nonempty:
  "ws_len s = 0 \<Longrightarrow> s \<noteq> [] \<Longrightarrow> fst (span_word s) \<noteq> []"
  by (cases s) (auto split: prod.splits)

lemma length_skip_ws: "length (skip_ws s) \<le> length s"
proof (induction s rule: skip_ws.induct)
  case (1 s)
  then show ?case
    by (cases "ws_len s = 0") (simp_all add: skip_ws.simps [of s])
qed

lemma span_skip_shorter:
  assumes "(c # w, r) = span_word (skip_ws s)"
  shows "length r < length s"
proof -
  from assms have "skip_ws s = (c # w) @ r" by (metis span_word_append)
  then have "length r < length (skip_ws s)" by simp
  with length_skip_ws [of s] show ?thesis by simp
qed

text \<open>\<open>split_whitespace\<close>.\<close>

function split_whitespace :: "string \<Rightarrow> string list" where
  "split_whitespace s =
     (case span_word (skip_ws s) of
        ([], r) \<Rightarrow> []
      | (c # w, r) \<Rightarrow> (c # w) # split_whitespace r)"
  by pat_completeness auto
termination
  by (relation "measure length") (auto intro: span_skip_shorter)

declare split_whitespace.simps [simp del]

text \<open>A word: non-empty, and no white space starts at any of its bytes.\<close>

fun no_ws :: "string \<Rightarrow> bool" where
  "no_ws [] \<longleftrightarrow> True"
| "no_ws (c # s) \<longleftrightarrow> ws_len (c # s) = 0 \<and> no_ws s"

definition is_word :: "string \<Rightarrow> bool" where
  "is_word w \<longleftrightarrow> w \<noteq> [] \<and> no_ws w"

text \<open>\<open>[\<dots>].join(sep)\<close>.\<close>

fun join_str :: "string \<Rightarrow> string list \<Rightarrow> string" where
  "join_str sep [] = []"
| "join_str sep [w] = w"
| "join_str sep (w # v # vs) = w @ sep @ join_str sep (v # vs)"

lemma ws_len_ascii [simp]: "ascii_ws a \<Longrightarrow> ws_len (a # s) = 1"
  by (cases "a # s" rule: ws_len.cases) auto

lemma ws_len_append_ascii:
  assumes "w \<noteq> []" and "ws_len w = 0" and "ascii_ws a"
  shows "ws_len (w @ a # r) = 0"
proof -
  have a: "byte a < 0x80" using assms(3) by (auto simp: ascii_ws_def)
  show ?thesis
  proof (cases w rule: ws_len.cases)
    case (2 x)
    with assms(2) a show ?thesis
      by (cases r) (auto simp: ws2_def ws3_def split: if_splits)
  next
    case (3 x y)
    with assms(2) a show ?thesis
      by (auto simp: ws3_def split: if_splits)
  next
    case (4 x y z t)
    with assms(2) show ?thesis by simp
  qed (use assms(1) in simp)
qed

lemma ws_len_prefix: "ws_len (x @ y) = 0 \<Longrightarrow> ws_len x = 0"
  by (cases x rule: ws_len.cases; cases y rule: ws_len.cases) (auto split: if_splits)

lemma span_word_append_ascii:
  "no_ws w \<Longrightarrow> ascii_ws a \<Longrightarrow> span_word (w @ a # r) = (w, a # r)"
proof (induction w)
  case Nil
  then show ?case by simp
next
  case (Cons c w)
  then have "ws_len ((c # w) @ a # r) = 0"
    by (intro ws_len_append_ascii) simp_all
  with Cons show ?case by simp
qed

lemma span_word_no_ws: "no_ws w \<Longrightarrow> span_word w = (w, [])"
  by (induction w) simp_all

lemma span_word_is_no_ws: "span_word s = (w, r) \<Longrightarrow> no_ws w"
proof (induction s arbitrary: w r)
  case Nil
  then show ?case by simp
next
  case (Cons c s)
  show ?case
  proof (cases "ws_len (c # s) = 0")
    case True
    with Cons.prems obtain v where v: "span_word s = (v, r)" and w: "w = c # v"
      by (auto split: prod.splits)
    from v have "s = v @ r" by (rule span_word_append)
    with True have "ws_len ((c # v) @ r) = 0" by simp
    then have "ws_len (c # v) = 0" by (rule ws_len_prefix)
    with Cons.IH [OF v] w show ?thesis by simp
  next
    case False
    with Cons.prems show ?thesis by simp
  qed
qed

lemma skip_ws_word: "is_word w \<Longrightarrow> skip_ws (w @ r) = w @ r" if "r = [] \<or> (\<exists>a t. r = a # t \<and> ascii_ws a)"
proof -
  assume w: "is_word w"
  then obtain c v where cv: "w = c # v" by (auto simp: is_word_def neq_Nil_conv)
  have "ws_len (w @ r) = 0"
    using that w cv ws_len_append_ascii [of w] by (auto simp: is_word_def)
  then show ?thesis by (simp add: skip_ws.simps [of "w @ r"])
qed

lemma split_whitespace_word_ws:
  assumes "is_word w" and "ascii_ws a"
  shows "split_whitespace (w @ a # r) = w # split_whitespace r"
proof -
  obtain c v where cv: "w = c # v" using assms(1) by (auto simp: is_word_def neq_Nil_conv)
  have "span_word (skip_ws (w @ a # r)) = (w, a # r)"
    using assms by (simp add: skip_ws_word span_word_append_ascii is_word_def)
  moreover have "split_whitespace (a # r) = split_whitespace r"
    using assms(2) by (simp add: split_whitespace.simps [of "a # r"] split_whitespace.simps [of r]
        skip_ws.simps [of "a # r"])
  ultimately show ?thesis
    using split_whitespace.simps [of "w @ a # r"] by (simp add: cv)
qed

lemma split_whitespace_Nil [simp]: "split_whitespace [] = []"
  by (simp add: split_whitespace.simps [of "[]"] skip_ws.simps [of "[]"])

lemma split_whitespace_word: "is_word w \<Longrightarrow> split_whitespace w = [w]"
  using skip_ws_word [of "[]" w] split_whitespace.simps [of w]
  by (cases w) (simp_all add: span_word_no_ws is_word_def)

lemma split_whitespace_join:
  "\<forall>w \<in> set ws. is_word w \<Longrightarrow> split_whitespace (join_str '' '' ws) = ws"
proof (induction ws rule: induct_list012)
  case 1
  then show ?case by simp
next
  case (2 w)
  then show ?case by (simp add: split_whitespace_word)
next
  case (3 w v vs)
  moreover have "ascii_ws (CHR '' '')" by (simp add: ascii_ws_def byte_def)
  ultimately show ?case by (simp add: split_whitespace_word_ws)
qed

lemma split_whitespace_words: "w \<in> set (split_whitespace s) \<Longrightarrow> is_word w"
proof (induction s rule: split_whitespace.induct)
  case (1 s)
  show ?case
  proof (cases "span_word (skip_ws s)")
    case (Pair v r)
    show ?thesis
    proof (cases v)
      case Nil
      with 1 Pair show ?thesis by (simp add: split_whitespace.simps [of s])
    next
      case (Cons c u)
      with span_word_is_no_ws [OF Pair] have "is_word v" by (simp add: is_word_def)
      with 1 Pair Cons show ?thesis by (auto simp: split_whitespace.simps [of s])
    qed
  qed
qed

lemma join_str_eq_Nil: "\<forall>w \<in> set ws. w \<noteq> [] \<Longrightarrow> join_str sep ws = [] \<longleftrightarrow> ws = []"
  by (cases "(sep, ws)" rule: join_str.cases) auto

text \<open>\<open>trim\<close>: white space removed at both ends.\<close>

definition ws_suffix_len :: "string \<Rightarrow> nat" where
  "ws_suffix_len s =
     (let n = length s in
      if 1 \<le> n \<and> ws_len (drop (n - 1) s) = 1 then 1
      else if 2 \<le> n \<and> ws_len (drop (n - 2) s) = 2 then 2
      else if 3 \<le> n \<and> ws_len (drop (n - 3) s) = 3 then 3 else 0)"

lemma ws_suffix_len_le: "ws_suffix_len s \<le> length s"
  by (auto simp: ws_suffix_len_def Let_def)

function trim_end :: "string \<Rightarrow> string" where
  "trim_end s =
     (if ws_suffix_len s = 0 then s else trim_end (take (length s - ws_suffix_len s) s))"
  by pat_completeness auto
termination
proof (relation "measure length")
  fix s assume "ws_suffix_len s \<noteq> 0"
  with ws_suffix_len_le [of s]
  show "(take (length s - ws_suffix_len s) s, s) \<in> measure length" by auto
qed simp

declare trim_end.simps [simp del]

definition trim :: "string \<Rightarrow> string" where
  "trim s = trim_end (skip_ws s)"

lemma trim_no_ws:
  assumes "\<forall>c \<in> set s. 32 < byte c \<and> byte c < 128"
  shows "trim s = s"
proof -
  have ws: "ws_len t = 0" if "\<forall>c \<in> set t. 32 < byte c \<and> byte c < 128" for t
    using that by (cases t rule: ws_len.cases) (auto simp: ascii_ws_def ws2_def ws3_def)
  have "ws_len (drop k s) = 0" for k
    using assms by (intro ws) (auto dest: in_set_dropD)
  then show ?thesis
    by (simp add: trim_def skip_ws.simps [of s] trim_end.simps [of s] ws_suffix_len_def ws assms)
qed

section \<open>Splitting, prefixes, case\<close>

text \<open>\<open>split(c)\<close>: always at least one piece.\<close>

fun split_on :: "char \<Rightarrow> string \<Rightarrow> string list" where
  "split_on c [] = [[]]"
| "split_on c (x # s) =
     (if x = c then [] # split_on c s
      else (case split_on c s of [] \<Rightarrow> [[x]] | p # ps \<Rightarrow> (x # p) # ps))"

fun strip_prefix :: "string \<Rightarrow> string \<Rightarrow> string option" where
  "strip_prefix [] s = Some s"
| "strip_prefix (p # ps) [] = None"
| "strip_prefix (p # ps) (c # s) = (if p = c then strip_prefix ps s else None)"

definition starts_with :: "string \<Rightarrow> string \<Rightarrow> bool" where
  "starts_with s p \<longleftrightarrow> strip_prefix p s \<noteq> None"

definition to_ascii_lowercase :: "string \<Rightarrow> string" where
  "to_ascii_lowercase =
     map (\<lambda>c. if 65 \<le> byte c \<and> byte c \<le> 90 then char_of (byte c + 32) else c)"

lemma split_on_nonempty [simp]: "split_on c s \<noteq> []"
  by (cases s) (auto split: list.splits)

lemma split_on_none: "c \<notin> set s \<Longrightarrow> split_on c s = [s]"
  by (induction s) auto

lemma split_on_append: "c \<notin> set s \<Longrightarrow> split_on c (s @ c # t) = s # split_on c t"
  by (induction s) auto

lemma split_on_join:
  "ws \<noteq> [] \<Longrightarrow> \<forall>w \<in> set ws. c \<notin> set w \<Longrightarrow> split_on c (join_str [c] ws) = ws"
proof (induction ws rule: induct_list012)
  case (2 w)
  then show ?case by (simp add: split_on_none)
next
  case (3 w v vs)
  then show ?case by (simp add: split_on_append)
qed simp

lemma strip_prefix_append [simp]: "strip_prefix p (p @ s) = Some s"
  by (induction p) simp_all

lemma strip_prefix_Some: "strip_prefix p s = Some t \<longleftrightarrow> s = p @ t"
  by (induction p s rule: strip_prefix.induct) auto

lemma starts_with_append [simp]: "starts_with (p @ s) p"
  by (simp add: starts_with_def)

section \<open>Debug formatting\<close>

text \<open>
  \<open>format!("{:?}", s)\<close> of a string: in quotes, with the escapes of \<open>char::escape_debug\<close>.
  Exact on ASCII; a byte of a multi-byte character is printed as it is, which is what
  Rust does for every printable character (it escapes the non-printable ones too).
\<close>

definition hex_digit :: "nat \<Rightarrow> char" where
  "hex_digit d = (if d < 10 then char_of (48 + d) else char_of (87 + d))"

definition debug_char :: "char \<Rightarrow> string" where
  "debug_char c =
     (if c = CHR 0x22 then [CHR 0x5C, CHR 0x22]
      else if c = CHR 0x5C then [CHR 0x5C, CHR 0x5C]
      else if byte c = 0 then [CHR 0x5C, CHR ''0'']
      else if byte c = 9 then [CHR 0x5C, CHR ''t'']
      else if byte c = 10 then [CHR 0x5C, CHR ''n'']
      else if byte c = 13 then [CHR 0x5C, CHR ''r'']
      else if byte c < 32 \<or> byte c = 127 then
        [CHR 0x5C] @ ''u{'' @ (if byte c < 16 then [] else [hex_digit (byte c div 16)]) @
        [hex_digit (byte c mod 16)] @ ''}''
      else [c])"

definition debug_str :: "string \<Rightarrow> string" where
  "debug_str s = [CHR 0x22] @ concat (map debug_char s) @ [CHR 0x22]"

fun debug_opt_str :: "string option \<Rightarrow> string" where
  "debug_opt_str None = ''None''"
| "debug_opt_str (Some s) = ''Some('' @ debug_str s @ '')''"

definition debug_str_list :: "string list \<Rightarrow> string" where
  "debug_str_list ss = ''['' @ join_str '', '' (map debug_str ss) @ '']''"

section \<open>BTreeMap\<close>

text \<open>
  A \<open>BTreeMap<K, V>\<close> as its entries in key order. \<open>bt_get\<close> is \<open>get\<close>, \<open>bt_keys\<close>
  is \<open>keys\<close>; \<open>bt_wf\<close> is the order every map built by \<open>insert\<close> has.
\<close>

type_synonym ('k, 'v) btree_map = "('k \<times> 'v) list"

fun bt_insert :: "'k::linorder \<Rightarrow> 'v \<Rightarrow> ('k, 'v) btree_map \<Rightarrow> ('k, 'v) btree_map" where
  "bt_insert k v [] = [(k, v)]"
| "bt_insert k v (e # m) =
     (if k < fst e then (k, v) # e # m
      else if k = fst e then (k, v) # m
      else e # bt_insert k v m)"

definition bt_get :: "('k, 'v) btree_map \<Rightarrow> 'k \<Rightarrow> 'v option" where
  "bt_get m k = map_of m k"

definition bt_keys :: "('k, 'v) btree_map \<Rightarrow> 'k list" where
  "bt_keys m = map fst m"

definition bt_wf :: "('k::linorder, 'v) btree_map \<Rightarrow> bool" where
  "bt_wf m \<longleftrightarrow> sorted_wrt (<) (map fst m)"

lemma bt_wf_Nil [simp]: "bt_wf []"
  by (simp add: bt_wf_def)

lemma set_fst_bt_insert: "fst ` set (bt_insert k v m) = insert k (fst ` set m)"
  by (induction m) auto

lemma bt_wf_insert [simp]: "bt_wf m \<Longrightarrow> bt_wf (bt_insert k v m)"
proof (induction m)
  case Nil
  then show ?case by (simp add: bt_wf_def)
next
  case (Cons e m)
  then have wf: "bt_wf m" and lt: "\<forall>x \<in> fst ` set m. fst e < x"
    by (auto simp: bt_wf_def)
  show ?case
  proof (cases "k < fst e \<or> k = fst e")
    case True
    with Cons.prems lt show ?thesis by (auto simp: bt_wf_def)
  next
    case False
    then have "fst e < k" by auto
    with lt have "\<forall>x \<in> fst ` set (bt_insert k v m). fst e < x"
      by (simp add: set_fst_bt_insert)
    with False Cons.IH [OF wf] show ?thesis by (auto simp: bt_wf_def)
  qed
qed

lemma bt_get_Nil [simp]: "bt_get [] = Map.empty"
  by (simp add: bt_get_def fun_eq_iff)

lemma bt_get_insert [simp]: "bt_get (bt_insert k v m) = (bt_get m)(k \<mapsto> v)"
  by (induction m) (auto simp: bt_get_def fun_eq_iff)

lemma bt_keys_sorted: "bt_wf m \<Longrightarrow> sorted_wrt (<) (bt_keys m)"
  by (simp add: bt_wf_def bt_keys_def)

lemma bt_get_eq: "bt_get m = map_of m"
  by (simp add: bt_get_def fun_eq_iff)

lemma set_bt_keys: "set (bt_keys m) = dom (bt_get m)"
  by (simp add: bt_keys_def bt_get_eq dom_map_of_conv_image_fst)

text \<open>The entries are determined by the lookups: equal lookups, equal maps.\<close>

lemma bt_ext:
  assumes "bt_wf m" and "bt_wf n" and "bt_get m = bt_get n"
  shows "m = n"
proof -
  have dm: "distinct (map fst m)" "sorted (map fst m)"
    and dn: "distinct (map fst n)" "sorted (map fst n)"
    using assms(1,2) by (auto simp: bt_wf_def strict_sorted_iff)
  have "set m = set n"
    using assms(3) dm dn by (simp add: bt_get_eq map_of_inject_set)
  moreover from this dm have "inj_on fst (set m \<union> set n)"
    by (simp add: distinct_map)
  ultimately show ?thesis
    using dm dn map_sorted_distinct_set_unique by blast
qed

end
