(* ===== verification/Commands.thy ===== *)
theory Commands
  imports Rust_Std
begin

text \<open>
  The commands of a node (\<^verbatim>\<open>crates/raft-core/src/commands.rs\<close>): what the TUI accepts
  (\<open>UserCommand\<close>), what gRPC sends (\<open>RpcCommand\<close>, with the oneshot sender the answer
  goes to), their union, and the parser of a typed line. A oneshot sender is the number
  of its channel.
\<close>

section \<open>Data\<close>

type_synonym oneshot = nat

datatype user_command =
    UserPut string string
  | UserGet string
  | UserKeys
  | UserStatus
  | UserCampaign

datatype rpc_command =
    RpcPut string string oneshot
  | RpcGet string oneshot

datatype server_command =
    User user_command
  | Rpc rpc_command

text \<open>\<open>impl From<UserCommand> for ServerCommand\<close>.\<close>

definition server_command_from :: "user_command \<Rightarrow> server_command" where
  "server_command_from cmd = User cmd"

section \<open>The parser\<close>

definition parse_command :: "string \<Rightarrow> user_command option" where
  "parse_command input =
     (case split_whitespace input of
        [] \<Rightarrow> None
      | first # parts \<Rightarrow>
          let cmd = to_ascii_lowercase first in
          if cmd = ''put'' \<or> cmd = ''p'' then
            (case parts of
               [] \<Rightarrow> None
             | key # rest \<Rightarrow>
                 let value = join_str '' '' rest in
                 if value = [] then None else Some (UserPut key value))
          else if cmd = ''get'' \<or> cmd = ''g'' then
            (case parts of
               [] \<Rightarrow> None
             | key # rest \<Rightarrow> Some (UserGet key))
          else if cmd = ''keys'' \<or> cmd = ''k'' then Some UserKeys
          else if cmd = ''status'' \<or> cmd = ''s'' then Some UserStatus
          else if cmd = ''campaign'' \<or> cmd = ''c'' then Some UserCampaign
          else None)"

section \<open>Specification of the parser\<close>

text \<open>The spellings of a command, its arguments, and the commands a line can denote.\<close>

fun command_names :: "user_command \<Rightarrow> string list" where
  "command_names (UserPut k v) = [''put'', ''p'']"
| "command_names (UserGet k) = [''get'', ''g'']"
| "command_names UserKeys = [''keys'', ''k'']"
| "command_names UserStatus = [''status'', ''s'']"
| "command_names UserCampaign = [''campaign'', ''c'']"

fun command_args :: "user_command \<Rightarrow> string list" where
  "command_args (UserPut k v) = [k, v]"
| "command_args (UserGet k) = [k]"
| "command_args _ = []"

fun wf_command :: "user_command \<Rightarrow> bool" where
  "wf_command (UserPut k v) \<longleftrightarrow>
     is_word k \<and> v \<noteq> [] \<and> join_str '' '' (split_whitespace v) = v"
| "wf_command (UserGet k) \<longleftrightarrow> is_word k"
| "wf_command _ \<longleftrightarrow> True"

definition render_command :: "string \<Rightarrow> user_command \<Rightarrow> string" where
  "render_command name c = join_str '' '' (name # command_args c)"

text \<open>All names, as the parser knows them.\<close>

definition known_names :: "string list" where
  "known_names = [''put'', ''p'', ''get'', ''g'', ''keys'', ''k'', ''status'', ''s'',
     ''campaign'', ''c'']"

section \<open>Lemmas\<close>

lemma lowercase_byte:
  "97 \<le> byte (if 65 \<le> byte c \<and> byte c \<le> 90 then char_of (byte c + 32) else c) \<Longrightarrow>
   byte c < 128 \<or> byte (if 65 \<le> byte c \<and> byte c \<le> 90 then char_of (byte c + 32) else c) = byte c"
  by auto

lemma lowercase_ascii_letter:
  assumes "\<forall>d \<in> set (to_ascii_lowercase w). 97 \<le> byte d \<and> byte d \<le> 122"
  shows "\<forall>c \<in> set w. 32 < byte c \<and> byte c < 128"
proof
  fix c assume "c \<in> set w"
  then have "97 \<le> byte (if 65 \<le> byte c \<and> byte c \<le> 90 then char_of (byte c + 32) else c) \<and>
             byte (if 65 \<le> byte c \<and> byte c \<le> 90 then char_of (byte c + 32) else c) \<le> 122"
    using assms by (auto simp: to_ascii_lowercase_def)
  then show "32 < byte c \<and> byte c < 128" by (auto split: if_splits)
qed

lemma ascii_graphic_no_ws: "\<forall>c \<in> set w. 32 < byte c \<and> byte c < 128 \<Longrightarrow> no_ws w"
proof (induction w)
  case (Cons c w)
  have "ws_len (c # w) = 0"
    using Cons.prems by (cases "c # w" rule: ws_len.cases) (auto simp: ascii_ws_def ws2_def ws3_def)
  with Cons show ?case by simp
qed simp

lemma known_names_letters:
  "n \<in> set known_names \<Longrightarrow> n \<noteq> [] \<and> (\<forall>d \<in> set n. 97 \<le> byte d \<and> byte d \<le> 122)"
  by (auto simp: known_names_def byte_def)

lemma command_names_known: "n \<in> set (command_names c) \<Longrightarrow> n \<in> set known_names"
  by (cases c) (auto simp: known_names_def)

lemma name_is_word:
  assumes "to_ascii_lowercase n \<in> set known_names"
  shows "is_word n"
proof -
  from known_names_letters [OF assms] have "n \<noteq> []" and
    "\<forall>d \<in> set (to_ascii_lowercase n). 97 \<le> byte d \<and> byte d \<le> 122"
    by (auto simp: to_ascii_lowercase_def)
  then show ?thesis
    using ascii_graphic_no_ws lowercase_ascii_letter by (simp add: is_word_def)
qed

lemma space_ws [simp]: "ascii_ws (CHR '' '')"
  by (simp add: ascii_ws_def byte_def)

text \<open>The tokens of a rendered command.\<close>

lemma split_whitespace_render:
  assumes "to_ascii_lowercase n \<in> set (command_names c)" and "wf_command c"
  shows "split_whitespace (render_command n c) =
           n # (case c of UserPut k v \<Rightarrow> k # split_whitespace v | UserGet k \<Rightarrow> [k] | _ \<Rightarrow> [])"
proof -
  have n: "is_word n" using assms(1) command_names_known name_is_word by blast
  show ?thesis
    using assms(2) n
    by (cases c) (auto simp: render_command_def split_whitespace_word split_whitespace_word_ws)
qed

section \<open>Properties\<close>

text \<open>
  C26. Every command a line can denote is read back from its rendering, under every
  spelling of its name (long or short form, any case of the letters).
\<close>

theorem parse_render_command:
  assumes "to_ascii_lowercase n \<in> set (command_names c)" and "wf_command c"
  shows "parse_command (render_command n c) = Some c"
  using assms split_whitespace_render [OF assms]
  by (cases c) (auto simp: parse_command_def Let_def)

theorem parse_render_command_witness:
  "parse_command (render_command ''PuT'' (UserPut ''foo'' ''bar baz'')) =
     Some (UserPut ''foo'' ''bar baz'')"
  by (rule parse_render_command; code_simp)

text \<open>
  The parser accepts exactly the lines whose first token names a command (in either
  form, any case) and that hold the arguments it needs; what it returns is well-formed,
  with the surplus tokens of a value joined by single blanks and those after the key of
  a GET dropped.
\<close>

theorem parse_command_iff:
  "parse_command s = Some c \<longleftrightarrow>
     wf_command c \<and>
     (\<exists>n parts. split_whitespace s = n # parts \<and> to_ascii_lowercase n \<in> set (command_names c) \<and>
        (case c of
           UserPut k v \<Rightarrow> \<exists>ws. parts = k # ws \<and> v = join_str '' '' ws
         | UserGet k \<Rightarrow> \<exists>ws. parts = k # ws
         | _ \<Rightarrow> True))"
proof (cases "split_whitespace s")
  case Nil
  then show ?thesis by (simp add: parse_command_def)
next
  case (Cons n parts)
  have words: "\<forall>w \<in> set (n # parts). is_word w"
    using split_whitespace_words [of _ s] by (simp add: Cons)
  then have norm: "split_whitespace (join_str '' '' ws) = ws" if "parts = k # ws" for k ws
    using that by (intro split_whitespace_join) auto
  show ?thesis
  proof (cases c)
    case (UserPut k v)
    with Cons words norm show ?thesis
      by (auto simp: parse_command_def Let_def split: list.splits if_splits)
  next
    case (UserGet k)
    with Cons words show ?thesis
      by (auto simp: parse_command_def Let_def split: list.splits if_splits)
  qed (use Cons in \<open>auto simp: parse_command_def Let_def split: list.splits if_splits\<close>)
qed

end
