(* ===== verification/Sample_Codec.thy ===== *)
theory Sample_Codec
  imports Rust_Std
begin

text \<open>
  A small serializer of string lists. No code of the repository is modelled here: the
  witnesses of the other theories need concrete functions for the third-party
  serializers (prost, bincode, serde\_json), and build them from this one.
\<close>

fun flat_str :: "string \<Rightarrow> bytes" where
  "flat_str [] = [0]"
| "flat_str (c # s) = 1 # u8_of c # flat_str s"

fun flat_enc :: "string list \<Rightarrow> bytes" where
  "flat_enc [] = [2]"
| "flat_enc (s # ss) = flat_str s @ flat_enc ss"

text \<open>\<open>acc\<close> holds the string being read, last character first.\<close>

fun flat_dec :: "string \<Rightarrow> bytes \<Rightarrow> string list option" where
  "flat_dec acc [] = None"
| "flat_dec acc [x] = (if x = 2 \<and> acc = [] then Some [] else None)"
| "flat_dec acc (x # c # bs) =
     (if x = 0 then map_option (\<lambda>ss. rev acc # ss) (flat_dec [] (c # bs))
      else if x = 1 then flat_dec (char_of (unat c) # acc) bs
      else None)"

lemma flat_enc_nonempty [simp]: "flat_enc ss \<noteq> []"
  by (cases ss rule: flat_enc.cases; simp; metis flat_str.elims list.discI)

lemma flat_dec_str:
  "rest \<noteq> [] \<Longrightarrow>
   flat_dec acc (flat_str s @ rest) = map_option (\<lambda>ss. (rev acc @ s) # ss) (flat_dec [] rest)"
proof (induction s arbitrary: acc)
  case Nil
  then show ?case by (cases rest) simp_all
qed simp

lemma flat_dec_enc: "flat_dec [] (flat_enc ss) = Some ss"
  by (induction ss) (simp_all add: flat_dec_str)

end
