(* ===== verification/Kv_Node.thy ===== *)
theory Kv_Node
  imports Commands Sample_Codec
begin

text \<open>
  The replicated state machine: the protobuf command (\<^verbatim>\<open>proto/kv.proto\<close>), the codec
  functions (\<^verbatim>\<open>codec.rs\<close>), the snapshot codecs (\<^verbatim>\<open>snapshot.rs\<close>) and the key-value node
  (\<^verbatim>\<open>node.rs\<close>), all of \<^verbatim>\<open>crates/raft-core/src\<close>.

  The serializers (prost, bincode, serde\_json) are not code of the repository: they are
  the fields of \<open>kv_libs\<close>, an argument of the definitions that call them, and
  \<open>prost_ok\<close>, \<open>bincode_ok\<close>, \<open>json_ok\<close> state what the program relies on: what was encoded
  is read back, and an encoding is not empty.
\<close>

section \<open>Data\<close>

type_synonym kv_map = "(string, string) btree_map"

text \<open>\<open>kvraft.KvCommand\<close>: a \<open>oneof\<close> with one alternative.\<close>

datatype kv_cmd = CmdPut string string

record kv_command =
  cmd :: "kv_cmd option"

record kv_libs =
  prost_encode :: "kv_command \<Rightarrow> (bytes, string) result"
  prost_decode :: "bytes \<Rightarrow> (kv_command, string) result"
  bincode_encode_map :: "kv_map \<Rightarrow> (bytes, string) result"
  bincode_decode_map :: "bytes \<Rightarrow> (kv_map \<times> nat, string) result"
  json_encode_map :: "kv_map \<Rightarrow> (bytes, string) result"
  json_decode_map :: "bytes \<Rightarrow> (kv_map, string) result"

definition prost_ok :: "'z kv_libs_scheme \<Rightarrow> bool" where
  "prost_ok L \<longleftrightarrow> (\<forall>c. \<exists>b. prost_encode L c = Ok b \<and> prost_decode L b = Ok c)"

definition bincode_ok :: "'z kv_libs_scheme \<Rightarrow> bool" where
  "bincode_ok L \<longleftrightarrow>
     (\<forall>m. bt_wf m \<longrightarrow> (\<exists>b n. bincode_encode_map L m = Ok b \<and> b \<noteq> [] \<and>
                               bincode_decode_map L b = Ok (m, n))) \<and>
     (\<forall>b m n. bincode_decode_map L b = Ok (m, n) \<longrightarrow> bt_wf m)"

definition json_ok :: "'z kv_libs_scheme \<Rightarrow> bool" where
  "json_ok L \<longleftrightarrow>
     (\<forall>m. bt_wf m \<longrightarrow> (\<exists>b. json_encode_map L m = Ok b \<and> b \<noteq> [] \<and>
                             json_decode_map L b = Ok m)) \<and>
     (\<forall>b m. json_decode_map L b = Ok m \<longrightarrow> bt_wf m)"

section \<open>codec.rs\<close>

text \<open>An encoding error is a panic (\<open>expect\<close>), hence in no error type.\<close>

definition codec_encode :: "'z kv_libs_scheme \<Rightarrow> kv_command \<Rightarrow> (bytes, 'e) result" where
  "codec_encode L msg = expect (prost_encode L msg)"

definition codec_decode :: "'z kv_libs_scheme \<Rightarrow> bytes \<Rightarrow> (kv_command, string) result" where
  "codec_decode L b = prost_decode L b"

section \<open>snapshot.rs\<close>

datatype snapshot_error = EncodeError string | DecodeError string

fun show_snapshot_error :: "snapshot_error \<Rightarrow> string" where
  "show_snapshot_error (EncodeError e) = ''Failed to encode snapshot: '' @ e"
| "show_snapshot_error (DecodeError e) = ''Failed to decode snapshot: '' @ e"

text \<open>\<open>BincodeCodec\<close>.\<close>

definition bincode_codec_encode ::
    "'z kv_libs_scheme \<Rightarrow> kv_map \<Rightarrow> (bytes, snapshot_error) result" where
  "bincode_codec_encode L data = map_err EncodeError (bincode_encode_map L data)"

definition bincode_codec_decode ::
    "'z kv_libs_scheme \<Rightarrow> bytes \<Rightarrow> (kv_map, snapshot_error) result" where
  "bincode_codec_decode L b =
     (if b = [] then Ok []
      else bindR (map_err DecodeError (bincode_decode_map L b)) (\<lambda>(m, bytes_read). Ok m))"

text \<open>\<open>JsonCodec\<close>.\<close>

definition json_codec_encode ::
    "'z kv_libs_scheme \<Rightarrow> kv_map \<Rightarrow> (bytes, snapshot_error) result" where
  "json_codec_encode L data = map_err EncodeError (json_encode_map L data)"

definition json_codec_decode ::
    "'z kv_libs_scheme \<Rightarrow> bytes \<Rightarrow> (kv_map, snapshot_error) result" where
  "json_codec_decode L b =
     (if b = [] then Ok [] else map_err DecodeError (json_decode_map L b))"

section \<open>node.rs\<close>

datatype node_output = Text string | NoOutput

record node =
  kv :: kv_map

definition node_new :: node where
  "node_new = \<lparr>kv = []\<rparr>"

definition encode_put_command ::
    "'z kv_libs_scheme \<Rightarrow> string \<Rightarrow> string \<Rightarrow> (bytes, 'e) result" where
  "encode_put_command L key val = codec_encode L \<lparr>cmd = Some (CmdPut key val)\<rparr>"

fun apply_user_command :: "user_command \<Rightarrow> node \<Rightarrow> node_output \<times> node" where
  "apply_user_command (UserPut key val) n =
     (Text (''OK: set '' @ key @ '' = '' @ val), n\<lparr>kv := bt_insert key val (kv n)\<rparr>)"
| "apply_user_command (UserGet key) n =
     (Text (debug_opt_str (bt_get (kv n) key)), n)"
| "apply_user_command UserKeys n =
     (Text (debug_str_list (sort (bt_keys (kv n)))), n)"
| "apply_user_command UserStatus n = (Text ''STATUS: standalone node'', n)"
| "apply_user_command UserCampaign n = (Text ''CAMPAIGN ignored (no Raft yet)'', n)"

definition apply_kv_command :: "'z kv_libs_scheme \<Rightarrow> bytes \<Rightarrow> (node, unit, string) op" where
  "apply_kv_command L data =
     bindO (liftR (codec_decode L data)) (\<lambda>c n.
       case cmd c of
         Some (CmdPut key val) \<Rightarrow> (Ok (), n\<lparr>kv := bt_insert key val (kv n)\<rparr>)
       | None \<Rightarrow> (Ok (), n))"

definition get_internal_map :: "node \<Rightarrow> kv_map" where
  "get_internal_map n = kv n"

text \<open>The codec of a node is its type parameter \<open>C\<close>: its two methods are the argument.\<close>

definition create_snapshot ::
    "(kv_map \<Rightarrow> (bytes, snapshot_error) result) \<Rightarrow> node \<Rightarrow> (bytes, snapshot_error) result" where
  "create_snapshot enc n = enc (kv n)"

definition restore_from_snapshot ::
    "(bytes \<Rightarrow> (kv_map, snapshot_error) result) \<Rightarrow> bytes \<Rightarrow> (node, unit, snapshot_error) op" where
  "restore_from_snapshot dec data =
     bindO (liftR (dec data)) (\<lambda>restored n. (Ok (), n\<lparr>kv := restored\<rparr>))"

section \<open>The interface of a snapshot codec\<close>

text \<open>
  The trait \<open>SnapshotCodec\<close>. The laws a node relies on: no bytes are the empty map; on
  \<open>lib\<close>, the laws of the serializer behind it, the decoding of an encoding is the map
  encoded, and every map decoded is a proper one; errors are of the right kind.
\<close>

locale snapshot_codec =
  fixes enc :: "kv_map \<Rightarrow> (bytes, snapshot_error) result"
    and dec :: "bytes \<Rightarrow> (kv_map, snapshot_error) result"
    and lib :: bool
  assumes dec_empty: "dec [] = Ok []"
    and dec_enc: "lib \<Longrightarrow> bt_wf m \<Longrightarrow> \<exists>b. enc m = Ok b \<and> dec b = Ok m"
    and dec_wf: "lib \<Longrightarrow> dec b = Ok m \<Longrightarrow> bt_wf m"
    and enc_err: "enc m = Err e \<Longrightarrow> \<exists>t. e = EncodeError t"
    and dec_err: "dec b = Err e \<Longrightarrow> \<exists>t. e = DecodeError t"
begin

lemma restore_empty: "restore_from_snapshot dec [] n = (Ok (), n\<lparr>kv := []\<rparr>)"
  by (simp add: restore_from_snapshot_def dec_empty)

lemma restore_created:
  "lib \<Longrightarrow> bt_wf (kv n) \<Longrightarrow>
     \<exists>b. create_snapshot enc n = Ok b \<and> restore_from_snapshot dec b n' = (Ok (), n)"
  using dec_enc [of "kv n"] by (auto simp: create_snapshot_def restore_from_snapshot_def)

lemma restore_cases:
  "case dec b of
     Ok m \<Rightarrow> restore_from_snapshot dec b n = (Ok (), n\<lparr>kv := m\<rparr>)
   | Err e \<Rightarrow> (\<exists>t. e = DecodeError t) \<and> restore_from_snapshot dec b n = (Err e, n)
   | Panic \<Rightarrow> restore_from_snapshot dec b n = (Panic, n)"
  using dec_err [of b] by (auto simp: restore_from_snapshot_def split: result.split)

lemma restore_wf:
  "lib \<Longrightarrow> bt_wf (kv n) \<Longrightarrow> restore_from_snapshot dec b n = (r, n') \<Longrightarrow> bt_wf (kv n')"
  using restore_cases [of b n] dec_wf [of b] by (auto split: result.splits)

end

interpretation bincode_codec:
  snapshot_codec "bincode_codec_encode L" "bincode_codec_decode L" "bincode_ok L" for L
proof unfold_locales
  fix m :: kv_map
  assume "bincode_ok L" and "bt_wf m"
  then obtain b n where "bincode_encode_map L m = Ok b" and "b \<noteq> []"
    and "bincode_decode_map L b = Ok (m, n)"
    unfolding bincode_ok_def by blast
  then show "\<exists>b. bincode_codec_encode L m = Ok b \<and> bincode_codec_decode L b = Ok m"
    by (simp add: bincode_codec_encode_def bincode_codec_decode_def)
next
  fix b m
  assume "bincode_ok L" and "bincode_codec_decode L b = Ok m"
  then show "bt_wf m"
    by (auto simp: bincode_ok_def bincode_codec_decode_def split: if_splits)
next
  fix b e
  assume "bincode_codec_decode L b = Err e"
  then show "\<exists>t. e = DecodeError t"
    by (cases "bincode_decode_map L b")
      (auto simp: bincode_codec_decode_def split: if_splits)
qed (auto simp: bincode_codec_encode_def bincode_codec_decode_def map_err_eq_Err)

interpretation json_codec:
  snapshot_codec "json_codec_encode L" "json_codec_decode L" "json_ok L" for L
proof unfold_locales
  fix m :: kv_map
  assume "json_ok L" and "bt_wf m"
  then obtain b where "json_encode_map L m = Ok b" and "b \<noteq> []"
    and "json_decode_map L b = Ok m"
    unfolding json_ok_def by blast
  then show "\<exists>b. json_codec_encode L m = Ok b \<and> json_codec_decode L b = Ok m"
    by (simp add: json_codec_encode_def json_codec_decode_def)
next
  fix b m
  assume "json_ok L" and "json_codec_decode L b = Ok m"
  then show "bt_wf m"
    by (auto simp: json_ok_def json_codec_decode_def split: if_splits)
next
  fix b e
  assume "json_codec_decode L b = Err e"
  then show "\<exists>t. e = DecodeError t"
    by (auto simp: json_codec_decode_def map_err_eq_Err split: if_splits)
qed (auto simp: json_codec_encode_def json_codec_decode_def map_err_eq_Err)

section \<open>Lemmas\<close>

text \<open>The abstract state of a node: what a lookup returns.\<close>

definition kv_abs :: "node \<Rightarrow> string \<rightharpoonup> string" where
  "kv_abs n = bt_get (kv n)"

lemma kv_abs_new [simp]: "kv_abs node_new = Map.empty"
  by (simp add: kv_abs_def node_new_def)

lemma kv_abs_put [simp]: "kv_abs (n\<lparr>kv := bt_insert k v (kv n)\<rparr>) = (kv_abs n)(k \<mapsto> v)"
  by (simp add: kv_abs_def)

lemma node_ext: "bt_wf (kv n) \<Longrightarrow> bt_wf (kv n') \<Longrightarrow> kv_abs n = kv_abs n' \<Longrightarrow> n = n'"
  unfolding kv_abs_def by (cases n; cases n') (simp add: bt_ext)

lemma apply_kv_command_wf:
  "bt_wf (kv n) \<Longrightarrow> apply_kv_command L data n = (r, n') \<Longrightarrow> bt_wf (kv n')"
  by (auto simp: apply_kv_command_def bindO_def split: result.splits option.splits kv_cmd.splits)

lemma apply_kv_command_put:
  "prost_decode L data = Ok c \<Longrightarrow> cmd c = Some (CmdPut k v) \<Longrightarrow>
   apply_kv_command L data n = (Ok (), n\<lparr>kv := bt_insert k v (kv n)\<rparr>)"
  by (simp add: apply_kv_command_def codec_decode_def)

lemma apply_kv_command_none:
  "prost_decode L data = Ok c \<Longrightarrow> cmd c = None \<Longrightarrow> apply_kv_command L data n = (Ok (), n)"
  by (simp add: apply_kv_command_def codec_decode_def)

lemma apply_kv_command_err:
  "prost_decode L data = Err e \<Longrightarrow> apply_kv_command L data n = (Err e, n)"
  by (simp add: apply_kv_command_def codec_decode_def)

lemma encode_put_command_Ok:
  assumes "prost_ok L"
  obtains b where "encode_put_command L k v = Ok b"
    and "prost_decode L b = Ok \<lparr>cmd = Some (CmdPut k v)\<rparr>"
proof -
  from assms obtain b where "prost_encode L \<lparr>cmd = Some (CmdPut k v)\<rparr> = Ok b"
    and "prost_decode L b = Ok \<lparr>cmd = Some (CmdPut k v)\<rparr>"
    unfolding prost_ok_def by blast
  then show ?thesis
    by (intro that) (simp_all add: encode_put_command_def codec_encode_def)
qed

section \<open>A concrete serializer for the witnesses\<close>

fun pairs :: "string list \<Rightarrow> kv_map option" where
  "pairs [] = Some []"
| "pairs [k] = None"
| "pairs (k # v # ss) = map_option (\<lambda>m. (k, v) # m) (pairs ss)"

definition sample_map_encode :: "kv_map \<Rightarrow> (bytes, string) result" where
  "sample_map_encode m = Ok (flat_enc (concat (map (\<lambda>(k, v). [k, v]) m)))"

definition sample_map_decode :: "bytes \<Rightarrow> (kv_map, string) result" where
  "sample_map_decode b =
     (case Option.bind (flat_dec [] b) pairs of
        Some m \<Rightarrow> if bt_wf m then Ok m else Err ''keys out of order''
      | None \<Rightarrow> Err ''unexpected end'')"

definition sample_cmd_encode :: "kv_command \<Rightarrow> (bytes, string) result" where
  "sample_cmd_encode c =
     Ok (flat_enc (case cmd c of Some (CmdPut k v) \<Rightarrow> [k, v] | None \<Rightarrow> []))"

definition sample_cmd_decode :: "bytes \<Rightarrow> (kv_command, string) result" where
  "sample_cmd_decode b =
     (case flat_dec [] b of
        Some [] \<Rightarrow> Ok \<lparr>cmd = None\<rparr>
      | Some [k, v] \<Rightarrow> Ok \<lparr>cmd = Some (CmdPut k v)\<rparr>
      | _ \<Rightarrow> Err ''invalid wire type'')"

definition sample_kv_libs :: kv_libs where
  "sample_kv_libs =
     \<lparr>prost_encode = sample_cmd_encode, prost_decode = sample_cmd_decode,
      bincode_encode_map = sample_map_encode,
      bincode_decode_map = (\<lambda>b. bindR (sample_map_decode b) (\<lambda>m. Ok (m, length b))),
      json_encode_map = sample_map_encode, json_decode_map = sample_map_decode\<rparr>"

lemma pairs_concat: "pairs (concat (map (\<lambda>(k, v). [k, v]) m)) = Some m"
  by (induction m) auto

lemma sample_map_roundtrip:
  "bt_wf m \<Longrightarrow> \<exists>b. sample_map_encode m = Ok b \<and> b \<noteq> [] \<and> sample_map_decode b = Ok m"
  by (simp add: sample_map_encode_def sample_map_decode_def flat_dec_enc pairs_concat)

lemma sample_map_decode_wf: "sample_map_decode b = Ok m \<Longrightarrow> bt_wf m"
  by (auto simp: sample_map_decode_def split: option.splits if_splits)

lemma sample_prost_roundtrip:
  "\<exists>b. sample_cmd_encode c = Ok b \<and> sample_cmd_decode b = Ok c"
  by (cases c; cases "cmd c")
    (auto simp: sample_cmd_encode_def sample_cmd_decode_def flat_dec_enc split: kv_cmd.splits)

lemma sample_prost_ok: "prost_ok sample_kv_libs"
  using sample_prost_roundtrip by (simp add: prost_ok_def sample_kv_libs_def)

lemma sample_bincode_ok: "bincode_ok sample_kv_libs"
  unfolding bincode_ok_def
proof (intro conjI allI impI)
  fix m :: kv_map
  assume "bt_wf m"
  from sample_map_roundtrip [OF this]
  show "\<exists>b n. bincode_encode_map sample_kv_libs m = Ok b \<and> b \<noteq> [] \<and>
          bincode_decode_map sample_kv_libs b = Ok (m, n)"
    by (auto simp: sample_kv_libs_def)
qed (auto simp: sample_kv_libs_def dest: sample_map_decode_wf)

lemma sample_json_ok: "json_ok sample_kv_libs"
  using sample_map_roundtrip sample_map_decode_wf by (simp add: json_ok_def sample_kv_libs_def)

section \<open>Properties\<close>

text \<open>
  C17. A snapshot taken of a node and restored into any node, whatever that node held,
  makes it equal to the first one, with either codec.
\<close>

theorem snapshot_roundtrip:
  assumes "bincode_ok L" and "json_ok L" and "bt_wf (kv n)"
  shows "(\<exists>b. create_snapshot (bincode_codec_encode L) n = Ok b \<and>
              restore_from_snapshot (bincode_codec_decode L) b n' = (Ok (), n)) \<and>
         (\<exists>b. create_snapshot (json_codec_encode L) n = Ok b \<and>
              restore_from_snapshot (json_codec_decode L) b n' = (Ok (), n))"
  using bincode_codec.restore_created [OF assms(1,3)] json_codec.restore_created [OF assms(2,3)]
  by blast

theorem snapshot_roundtrip_witness:
  "\<exists>b. create_snapshot (bincode_codec_encode sample_kv_libs) \<lparr>kv = [(''a'', ''1''), (''b'', '''')]\<rparr> = Ok b \<and>
       restore_from_snapshot (bincode_codec_decode sample_kv_libs) b \<lparr>kv = [(''z'', ''9'')]\<rparr> =
         (Ok (), \<lparr>kv = [(''a'', ''1''), (''b'', '''')]\<rparr>)"
  using snapshot_roundtrip
    [OF sample_bincode_ok sample_json_ok, of "\<lparr>kv = [(''a'', ''1''), (''b'', '''')]\<rparr>"]
  by (simp add: bt_wf_def)

text \<open>
  Restoring from arbitrary bytes replaces the whole state or leaves it alone: no
  bytes at all clear it, a decoding error is reported as \<open>DecodeError\<close> and changes
  nothing, and a panic of the serializer changes nothing either.
\<close>

theorem restore_all_or_nothing:
  "restore_from_snapshot (bincode_codec_decode L) [] n = (Ok (), node_new) \<and>
   (case bincode_codec_decode L b of
      Ok m \<Rightarrow> restore_from_snapshot (bincode_codec_decode L) b n = (Ok (), \<lparr>kv = m\<rparr>)
    | Err e \<Rightarrow> (\<exists>t. e = DecodeError t) \<and>
               restore_from_snapshot (bincode_codec_decode L) b n = (Err e, n)
    | Panic \<Rightarrow> restore_from_snapshot (bincode_codec_decode L) b n = (Panic, n))"
  using bincode_codec.restore_empty [of L n] bincode_codec.restore_cases [of L b n]
  by (cases n) (auto simp: node_new_def split: result.splits)

text \<open>
  The local commands: the map stays a proper \<open>BTreeMap\<close>, only PUT changes it and
  only at its key, GET prints the value a lookup returns, KEYS prints every key once
  and in order.
\<close>

theorem apply_user_command_spec:
  assumes "bt_wf (kv n)" and "apply_user_command c n = (out, n')"
  shows "bt_wf (kv n') \<and>
    kv_abs n' = (case c of UserPut k v \<Rightarrow> (kv_abs n)(k \<mapsto> v) | _ \<Rightarrow> kv_abs n) \<and>
    (case c of
       UserGet k \<Rightarrow> out = Text (debug_opt_str (kv_abs n k))
     | UserKeys \<Rightarrow> \<exists>ks. sorted ks \<and> distinct ks \<and> set ks = dom (kv_abs n) \<and>
                       out = Text (debug_str_list ks)
     | _ \<Rightarrow> True)"
proof (cases c)
  case UserKeys
  have "sorted (sort (bt_keys (kv n)))" "set (sort (bt_keys (kv n))) = dom (kv_abs n)"
    "distinct (sort (bt_keys (kv n)))"
    using bt_keys_sorted [OF assms(1)]
    by (simp_all add: set_bt_keys kv_abs_def strict_sorted_iff)
  then have "\<exists>ks. sorted ks \<and> distinct ks \<and> set ks = dom (kv_abs n) \<and>
      Text (debug_str_list (sort (bt_keys (kv n)))) = Text (debug_str_list ks)"
    by blast
  with UserKeys assms show ?thesis by (auto simp: kv_abs_def)
qed (use assms in \<open>auto simp: kv_abs_def\<close>)

theorem apply_user_command_spec_witness:
  "apply_user_command UserKeys \<lparr>kv = [(''a'', ''1''), (''b'', ''2'')]\<rparr> =
     (Text (debug_str_list [''a'', ''b'']), \<lparr>kv = [(''a'', ''1''), (''b'', ''2'')]\<rparr>) \<and>
   bt_wf (kv \<lparr>kv = [(''a'', ''1''), (''b'', ''2'')]\<rparr>)"
  using apply_user_command_spec
    [of "\<lparr>kv = [(''a'', ''1''), (''b'', ''2'')]\<rparr>" UserKeys]
  by (simp add: bt_wf_def bt_keys_def)

text \<open>
  A replicated command: the bytes \<open>encode_put_command\<close> makes are accepted by every
  node and store the value at the key; bytes that do not decode are reported and change
  nothing, a command with no alternative set is accepted and changes nothing.
\<close>

theorem apply_kv_command_spec:
  assumes "prost_ok L"
  shows "(\<exists>b. encode_put_command L k v = (Ok b :: (bytes, string) result) \<and>
            (\<exists>n'. apply_kv_command L b n = (Ok (), n') \<and> kv_abs n' = (kv_abs n)(k \<mapsto> v))) \<and>
         (prost_decode L bad = Err e \<longrightarrow> apply_kv_command L bad n = (Err e, n)) \<and>
         (prost_decode L nop = Ok \<lparr>cmd = None\<rparr> \<longrightarrow> apply_kv_command L nop n = (Ok (), n))"
proof -
  obtain b where b: "encode_put_command L k v = (Ok b :: (bytes, string) result)"
    and d: "prost_decode L b = Ok \<lparr>cmd = Some (CmdPut k v)\<rparr>"
    using encode_put_command_Ok [OF assms] by blast
  from d have "apply_kv_command L b n = (Ok (), n\<lparr>kv := bt_insert k v (kv n)\<rparr>)"
    by (rule apply_kv_command_put) simp
  with b show ?thesis
    by (auto simp: apply_kv_command_err apply_kv_command_none)
qed

theorem apply_kv_command_spec_witness:
  "prost_ok sample_kv_libs \<and>
   (\<exists>b. encode_put_command sample_kv_libs ''k'' ''v'' = (Ok b :: (bytes, string) result) \<and>
      (\<exists>n'. apply_kv_command sample_kv_libs b node_new = (Ok (), n') \<and>
            kv_abs n' = (kv_abs node_new)(''k'' \<mapsto> ''v''))) \<and>
   apply_kv_command sample_kv_libs [7] node_new = (Err ''invalid wire type'', node_new)"
proof -
  have "prost_decode sample_kv_libs [7] = Err ''invalid wire type''" by code_simp
  then show ?thesis
    using apply_kv_command_spec [OF sample_prost_ok, of "''k''" "''v''" node_new "[7]"] sample_prost_ok
    by blast
qed

end
