(* ===== verification/Raft_Types.thy ===== *)
theory Raft_Types
  imports Kv_Node
begin

text \<open>
  The data the program exchanges with the raft crate (\<open>eraftpb\<close> messages and the crate's
  errors), field by field as far as the program reads or writes them. Only the types:
  the behaviour of the crate is always a parameter.
\<close>

section \<open>Log entries, hard state, configuration, snapshots\<close>

datatype entry_type = EntryNormal | EntryConfChange | EntryConfChangeV2

record entry =
  e_type :: entry_type
  e_term :: u64
  e_index :: u64
  e_data :: bytes
  e_context :: bytes

record hard_state =
  hs_term :: u64
  hs_vote :: u64
  hs_commit :: u64

record conf_state =
  voters :: "u64 list"
  learners :: "u64 list"
  voters_outgoing :: "u64 list"
  learners_next :: "u64 list"
  auto_leave :: bool

record snapshot_metadata =
  md_conf_state :: "conf_state option"
  md_index :: u64
  md_term :: u64

record snapshot =
  sn_data :: bytes
  sn_metadata :: "snapshot_metadata option"

definition hard_state_default :: hard_state where
  "hard_state_default = \<lparr>hs_term = 0, hs_vote = 0, hs_commit = 0\<rparr>"

definition conf_state_default :: conf_state where
  "conf_state_default =
     \<lparr>voters = [], learners = [], voters_outgoing = [], learners_next = [], auto_leave = False\<rparr>"

definition snapshot_metadata_default :: snapshot_metadata where
  "snapshot_metadata_default = \<lparr>md_conf_state = None, md_index = 0, md_term = 0\<rparr>"

definition snapshot_default :: snapshot where
  "snapshot_default = \<lparr>sn_data = [], sn_metadata = None\<rparr>"

text \<open>\<open>get_metadata\<close> and \<open>get_conf_state\<close> read a missing sub-message as its default.\<close>

definition get_metadata :: "snapshot \<Rightarrow> snapshot_metadata" where
  "get_metadata s = (case sn_metadata s of None \<Rightarrow> snapshot_metadata_default | Some m \<Rightarrow> m)"

definition get_conf_state :: "snapshot_metadata \<Rightarrow> conf_state" where
  "get_conf_state m = (case md_conf_state m of None \<Rightarrow> conf_state_default | Some c \<Rightarrow> c)"

abbreviation snap_index :: "snapshot \<Rightarrow> u64" where
  "snap_index s \<equiv> md_index (get_metadata s)"

abbreviation snap_term :: "snapshot \<Rightarrow> u64" where
  "snap_term s \<equiv> md_term (get_metadata s)"

section \<open>Messages\<close>

text \<open>The fields the program reads; the others are carried along as one opaque value.\<close>

record message =
  m_type :: u32
  m_to :: u64
  m_from :: u64
  m_term :: u64
  m_rest :: bytes

section \<open>Errors\<close>

text \<open>
  \<open>raft::StorageError\<close> and \<open>raft::Error\<close>: the variants the program builds or matches on;
  \<open>OtherRaft\<close> stands for every other one, by its message. A boxed error is its message.
\<close>

datatype storage_error = Compacted | Unavailable | StorageOther string

datatype raft_error = Store storage_error | ProposalDropped | OtherRaft string

definition store_other :: "string \<Rightarrow> raft_error" where
  "store_other e = Store (StorageOther e)"

datatype state_role = Follower | Candidate | Leader | PreCandidate

end
