(* ===== verification/Disk_Storage.thy ===== *)
theory Disk_Storage
  imports Raft_Types
begin

text \<open>
  The persistent log store, \<^verbatim>\<open>crates/raft-core/src/disk_storage.rs\<close>.

  The sled database and the protobuf and bincode serializers are third-party code: they
  are the fields of \<open>disk_libs\<close>. \<open>sled_sound\<close> states what a successful call of sled
  means (\<open>V\<close> is the content of a tree, \<open>D\<close> what a crash leaves of it), \<open>sled_up\<close> that
  no call fails, \<open>proto_ok\<close> that the serializers are inverse to each other.

  \<open>disk_abs\<close> reads the three trees as the abstract store \<open>disk_spec\<close>; every operation
  is shown to refine an operation on that store.
\<close>

section \<open>The libraries\<close>

text \<open>An opened database is the function that opens its trees by name.\<close>

record 't disk_libs = kv_libs +
  sled_open :: "string \<Rightarrow> (string \<Rightarrow> ('t, string) result, string) result"
  sled_get :: "'t \<Rightarrow> bytes \<Rightarrow> (bytes option, string) result"
  sled_insert :: "bytes \<Rightarrow> bytes \<Rightarrow> ('t, unit, string) op"
  sled_remove :: "bytes \<Rightarrow> ('t, unit, string) op"
  sled_flush :: "('t, unit, string) op"
  sled_iter :: "'t \<Rightarrow> (bytes \<times> bytes, string) result list"
  encode_u64 :: "u64 \<Rightarrow> (bytes, string) result"
  decode_u64 :: "bytes \<Rightarrow> (u64 \<times> nat, string) result"
  encode_entry :: "entry \<Rightarrow> (bytes, string) result"
  decode_entry :: "bytes \<Rightarrow> (entry, string) result"
  entry_encoded_len :: "entry \<Rightarrow> u64"
  encode_hard_state :: "hard_state \<Rightarrow> (bytes, string) result"
  decode_hard_state :: "bytes \<Rightarrow> (hard_state, string) result"
  encode_conf_state :: "conf_state \<Rightarrow> (bytes, string) result"
  decode_conf_state :: "bytes \<Rightarrow> (conf_state, string) result"
  encode_snapshot :: "snapshot \<Rightarrow> (bytes, string) result"
  decode_snapshot :: "bytes \<Rightarrow> (snapshot, string) result"

section \<open>State\<close>

text \<open>
  The handles of the three trees and the cached applied index (an \<open>Arc<Mutex<u64>>\<close>).
  The database handle \<open>db\<close> is kept by the code and never used. A clone of the storage
  shares everything, so it is the same value.
\<close>

record 't disk_storage =
  meta_tree :: 't
  entries_tree :: 't
  snapshots_tree :: 't
  ds_applied :: u64

definition on_meta ::
    "('t, unit, string) op \<Rightarrow> ('t disk_storage, unit, raft_error) op" where
  "on_meta f s = (case f (meta_tree s) of (r, t) \<Rightarrow> (map_err store_other r, s\<lparr>meta_tree := t\<rparr>))"

definition on_entries ::
    "('t, unit, string) op \<Rightarrow> ('t disk_storage, unit, raft_error) op" where
  "on_entries f s =
     (case f (entries_tree s) of (r, t) \<Rightarrow> (map_err store_other r, s\<lparr>entries_tree := t\<rparr>))"

definition on_snapshots ::
    "('t, unit, string) op \<Rightarrow> ('t disk_storage, unit, raft_error) op" where
  "on_snapshots f s =
     (case f (snapshots_tree s) of (r, t) \<Rightarrow> (map_err store_other r, s\<lparr>snapshots_tree := t\<rparr>))"

section \<open>Keys\<close>

text \<open>
  A log index as a sled key: its eight big-endian bytes. \<open>copy_from_slice\<close> panics on a
  slice of another length: \<open>None\<close>.
\<close>

definition index_to_key :: "u64 \<Rightarrow> bytes" where
  "index_to_key index = to_be 8 (unat index)"

definition key_to_index :: "bytes \<Rightarrow> u64 option" where
  "key_to_index key = (if length key = 8 then Some (of_nat (from_be key)) else None)"

definition applied_index_key :: bytes where
  "applied_index_key = str_bytes ''applied_index''"

definition hardstate_key :: bytes where
  "hardstate_key = str_bytes ''hardstate''"

definition confstate_key :: bytes where
  "confstate_key = str_bytes ''confstate''"

definition latest_key :: bytes where
  "latest_key = str_bytes ''latest''"

section \<open>Operations\<close>

definition disk_open :: "('t, 'z) disk_libs_scheme \<Rightarrow> string \<Rightarrow> ('t disk_storage, string) result" where
  "disk_open L path =
     bindR (sled_open L path) (\<lambda>open_tree.
     bindR (open_tree ''meta'') (\<lambda>meta.
     bindR (open_tree ''entries'') (\<lambda>ents.
     bindR (open_tree ''snapshots'') (\<lambda>snaps.
     bindR (sled_get L meta applied_index_key) (\<lambda>v.
     bindR (case v of
              Some b \<Rightarrow> bindR (decode_u64 L b) (\<lambda>(index, n). Ok index)
            | None \<Rightarrow> Ok 0) (\<lambda>index.
     Ok \<lparr>meta_tree = meta, entries_tree = ents, snapshots_tree = snaps, ds_applied = index\<rparr>))))))"

definition disk_applied_index :: "'t disk_storage \<Rightarrow> u64" where
  "disk_applied_index s = ds_applied s"

text \<open>The cached index is written first, before anything that can fail.\<close>

definition disk_set_applied_index ::
    "('t, 'z) disk_libs_scheme \<Rightarrow> u64 \<Rightarrow> ('t disk_storage, unit, raft_error) op" where
  "disk_set_applied_index L index s =
     bindO (liftR (map_err store_other (encode_u64 L index))) (\<lambda>b.
     bindO (on_meta (sled_insert L applied_index_key b)) (\<lambda>_.
     on_meta (sled_flush L)))
     (s\<lparr>ds_applied := index\<rparr>)"

fun append_loop ::
    "('t, 'z) disk_libs_scheme \<Rightarrow> entry list \<Rightarrow> ('t disk_storage, unit, raft_error) op" where
  "append_loop L [] = retO ()"
| "append_loop L (e # es) =
     bindO (liftR (map_err store_other (encode_entry L e))) (\<lambda>v.
     bindO (on_entries (sled_insert L (index_to_key (e_index e)) v)) (\<lambda>_.
     append_loop L es))"

definition disk_append ::
    "('t, 'z) disk_libs_scheme \<Rightarrow> entry list \<Rightarrow> ('t disk_storage, unit, raft_error) op" where
  "disk_append L es = bindO (append_loop L es) (\<lambda>_. on_entries (sled_flush L))"

text \<open>
  The loop that collects the keys at or below an index: it stops at the first error of
  the iterator and panics on a key that is no index.
\<close>

fun collect_upto ::
    "u64 \<Rightarrow> (bytes \<times> bytes, string) result list \<Rightarrow> (bytes list, raft_error) result" where
  "collect_upto limit [] = Ok []"
| "collect_upto limit (r # rs) =
     bindR (map_err store_other r) (\<lambda>(key, v).
       case key_to_index key of
         None \<Rightarrow> Panic
       | Some index \<Rightarrow>
           bindR (collect_upto limit rs) (\<lambda>ks. Ok (if index \<le> limit then key # ks else ks)))"

fun remove_keys ::
    "('t, 'z) disk_libs_scheme \<Rightarrow> bytes list \<Rightarrow> ('t disk_storage, unit, raft_error) op" where
  "remove_keys L [] = retO ()"
| "remove_keys L (k # ks) = bindO (on_entries (sled_remove L k)) (\<lambda>_. remove_keys L ks)"

text \<open>The two loops of \<open>apply_snapshot\<close> and of \<open>compact\<close>.\<close>

definition remove_upto ::
    "('t, 'z) disk_libs_scheme \<Rightarrow> u64 \<Rightarrow> ('t disk_storage, unit, raft_error) op" where
  "remove_upto L limit s =
     bindO (liftR (collect_upto limit (sled_iter L (entries_tree s)))) (remove_keys L) s"

definition disk_apply_snapshot ::
    "('t, 'z) disk_libs_scheme \<Rightarrow> snapshot \<Rightarrow> ('t disk_storage, unit, raft_error) op" where
  "disk_apply_snapshot L snap =
     bindO (liftR (map_err store_other (encode_snapshot L snap))) (\<lambda>snapshot_bytes.
     bindO (on_snapshots (sled_insert L latest_key snapshot_bytes)) (\<lambda>_.
     bindO (liftR (map_err store_other
              (encode_conf_state L (get_conf_state (get_metadata snap))))) (\<lambda>conf_bytes.
     bindO (on_meta (sled_insert L confstate_key conf_bytes)) (\<lambda>_.
     bindO (remove_upto L (snap_index snap)) (\<lambda>_.
     bindO (on_snapshots (sled_flush L)) (\<lambda>_.
     bindO (on_meta (sled_flush L)) (\<lambda>_.
     on_entries (sled_flush L))))))))"

definition disk_set_hardstate ::
    "('t, 'z) disk_libs_scheme \<Rightarrow> hard_state \<Rightarrow> ('t disk_storage, unit, raft_error) op" where
  "disk_set_hardstate L hs =
     bindO (liftR (map_err store_other (encode_hard_state L hs))) (\<lambda>b.
     bindO (on_meta (sled_insert L hardstate_key b)) (\<lambda>_.
     on_meta (sled_flush L)))"

definition disk_set_conf_state ::
    "('t, 'z) disk_libs_scheme \<Rightarrow> conf_state \<Rightarrow> ('t disk_storage, unit, raft_error) op" where
  "disk_set_conf_state L cs =
     bindO (liftR (map_err store_other (encode_conf_state L cs))) (\<lambda>b.
     bindO (on_meta (sled_insert L confstate_key b)) (\<lambda>_.
     on_meta (sled_flush L)))"

definition disk_compact ::
    "('t, 'z) disk_libs_scheme \<Rightarrow> u64 \<Rightarrow> ('t disk_storage, unit, raft_error) op" where
  "disk_compact L compact_index =
     bindO (remove_upto L compact_index) (\<lambda>_. on_entries (sled_flush L))"

section \<open>Reading (the Storage trait)\<close>

definition get_latest_snapshot ::
    "('t, 'z) disk_libs_scheme \<Rightarrow> 't disk_storage \<Rightarrow> (snapshot option, raft_error) result" where
  "get_latest_snapshot L s =
     bindR (map_err store_other (sled_get L (snapshots_tree s) latest_key)) (\<lambda>v.
       case v of
         Some b \<Rightarrow> bindR (map_err store_other (decode_snapshot L b)) (\<lambda>snap. Ok (Some snap))
       | None \<Rightarrow> Ok None)"

definition get_entry ::
    "('t, 'z) disk_libs_scheme \<Rightarrow> 't disk_storage \<Rightarrow> u64 \<Rightarrow> (entry option, raft_error) result" where
  "get_entry L s index =
     bindR (map_err store_other (sled_get L (entries_tree s) (index_to_key index))) (\<lambda>v.
       case v of
         Some b \<Rightarrow> bindR (map_err store_other (decode_entry L b)) (\<lambda>e. Ok (Some e))
       | None \<Rightarrow> Ok None)"

definition disk_initial_state ::
    "('t, 'z) disk_libs_scheme \<Rightarrow> 't disk_storage \<Rightarrow> (hard_state \<times> conf_state, raft_error) result" where
  "disk_initial_state L s =
     bindR (map_err store_other (sled_get L (meta_tree s) hardstate_key)) (\<lambda>h.
     bindR (case h of
              Some b \<Rightarrow> map_err store_other (decode_hard_state L b)
            | None \<Rightarrow> Ok hard_state_default) (\<lambda>hs.
     bindR (map_err store_other (sled_get L (meta_tree s) confstate_key)) (\<lambda>c.
     bindR (case c of
              Some b \<Rightarrow> map_err store_other (decode_conf_state L b)
            | None \<Rightarrow> Ok conf_state_default) (\<lambda>cs.
     Ok (hs, cs)))))"

text \<open>
  The loop of \<open>entries\<close> over the indices still to read; \<open>acc\<close> is the vector built so
  far and \<open>total_size\<close> its encoded size (a \<open>u64\<close> sum, which wraps in a release build).
\<close>

fun entries_loop ::
    "('t, 'z) disk_libs_scheme \<Rightarrow> 't disk_storage \<Rightarrow> u64 \<Rightarrow> u64 list \<Rightarrow> entry list \<Rightarrow> u64 \<Rightarrow>
     (entry list, raft_error) result" where
  "entries_loop L s max_size [] acc total_size = Ok acc"
| "entries_loop L s max_size (index # rest) acc total_size =
     bindR (get_entry L s index) (\<lambda>found.
       case found of
         Some e \<Rightarrow>
           let entry_size = entry_encoded_len L e in
           if max_size < total_size + entry_size \<and> acc \<noteq> [] then Ok acc
           else entries_loop L s max_size rest (acc @ [e]) (total_size + entry_size)
       | None \<Rightarrow>
           bindR (get_latest_snapshot L s) (\<lambda>snap.
             case snap of
               Some sn \<Rightarrow> if index \<le> snap_index sn then Err (Store Compacted) else Ok acc
             | None \<Rightarrow> Ok acc))"

text \<open>\<open>low..high\<close> as the list of its indices; \<open>None\<close> is no size limit.\<close>

definition index_range :: "u64 \<Rightarrow> u64 \<Rightarrow> u64 list" where
  "index_range low high = map of_nat [unat low..<unat high]"

definition disk_entries ::
    "('t, 'z) disk_libs_scheme \<Rightarrow> 't disk_storage \<Rightarrow> u64 \<Rightarrow> u64 \<Rightarrow> u64 option \<Rightarrow>
     (entry list, raft_error) result" where
  "disk_entries L s low high max_size =
     entries_loop L s (case max_size of Some m \<Rightarrow> m | None \<Rightarrow> - 1)
       (index_range low high) [] 0"

definition disk_term ::
    "('t, 'z) disk_libs_scheme \<Rightarrow> 't disk_storage \<Rightarrow> u64 \<Rightarrow> (u64, raft_error) result" where
  "disk_term L s idx =
     bindR (get_latest_snapshot L s) (\<lambda>snap.
       let lookup = bindR (get_entry L s idx) (\<lambda>e.
             case e of Some x \<Rightarrow> Ok (e_term x) | None \<Rightarrow> Err (Store Unavailable)) in
       case snap of
         Some sn \<Rightarrow>
           if idx = snap_index sn then Ok (snap_term sn)
           else if idx < snap_index sn then Err (Store Compacted)
           else lookup
       | None \<Rightarrow> lookup)"

definition key_index_result ::
    "(bytes \<times> bytes, string) result \<Rightarrow> (u64, raft_error) result" where
  "key_index_result r =
     bindR (map_err store_other r) (\<lambda>(key, v).
       case key_to_index key of None \<Rightarrow> Panic | Some i \<Rightarrow> Ok i)"

definition disk_first_index ::
    "('t, 'z) disk_libs_scheme \<Rightarrow> 't disk_storage \<Rightarrow> (u64, raft_error) result" where
  "disk_first_index L s =
     bindR (get_latest_snapshot L s) (\<lambda>snap.
       case snap of
         Some sn \<Rightarrow> Ok (snap_index sn + 1)
       | None \<Rightarrow>
           (case sled_iter L (entries_tree s) of
              r # rs \<Rightarrow> key_index_result r
            | [] \<Rightarrow> Ok 1))"

definition disk_last_index ::
    "('t, 'z) disk_libs_scheme \<Rightarrow> 't disk_storage \<Rightarrow> (u64, raft_error) result" where
  "disk_last_index L s =
     (case sled_iter L (entries_tree s) of
        [] \<Rightarrow>
          bindR (get_latest_snapshot L s) (\<lambda>snap.
            case snap of Some sn \<Rightarrow> Ok (snap_index sn) | None \<Rightarrow> Ok 0)
      | rs \<Rightarrow> key_index_result (last rs))"

definition disk_snapshot ::
    "('t, 'z) disk_libs_scheme \<Rightarrow> 't disk_storage \<Rightarrow> u64 \<Rightarrow> u64 \<Rightarrow> (snapshot, raft_error) result" where
  "disk_snapshot L s request_index to =
     bindR (get_latest_snapshot L s) (\<lambda>snap.
       case snap of Some sn \<Rightarrow> Ok sn | None \<Rightarrow> Ok snapshot_default)"

end
