(* ===== verification/Disk_Refinement.thy ===== *)
theory Disk_Refinement
  imports Disk_Storage
begin

text \<open>
  The contract of the persistent store: the laws assumed of sled and of the serializers,
  the abstract store, its invariant, and one refinement lemma per operation. Every
  writing operation flushes the trees it writes, so between operations what a crash
  leaves is what was written (\<open>disk_durable\<close>).
\<close>

section \<open>Laws of the libraries\<close>

definition sled_sound ::
    "('t, 'z) disk_libs_scheme \<Rightarrow> ('t \<Rightarrow> bytes \<rightharpoonup> bytes) \<Rightarrow> ('t \<Rightarrow> bytes \<rightharpoonup> bytes) \<Rightarrow> bool" where
  "sled_sound L V D \<longleftrightarrow>
     (\<forall>t k r. sled_get L t k = Ok r \<longrightarrow> r = V t k) \<and>
     (\<forall>k v t t'. sled_insert L k v t = (Ok (), t') \<longrightarrow> V t' = (V t)(k \<mapsto> v)) \<and>
     (\<forall>k t t'. sled_remove L k t = (Ok (), t') \<longrightarrow> V t' = (V t)(k := None)) \<and>
     (\<forall>t t'. sled_flush L t = (Ok (), t') \<longrightarrow> V t' = V t \<and> D t' = V t) \<and>
     (\<forall>t kvs. sled_iter L t = map Ok kvs \<longrightarrow>
        sorted_wrt (<) (map fst kvs) \<and> map_of kvs = V t)"

definition sled_up :: "('t, 'z) disk_libs_scheme \<Rightarrow> bool" where
  "sled_up L \<longleftrightarrow>
     (\<forall>t k. \<exists>r. sled_get L t k = Ok r) \<and>
     (\<forall>k v t. \<exists>t'. sled_insert L k v t = (Ok (), t')) \<and>
     (\<forall>k t. \<exists>t'. sled_remove L k t = (Ok (), t')) \<and>
     (\<forall>t. \<exists>t'. sled_flush L t = (Ok (), t')) \<and>
     (\<forall>t. \<exists>kvs. sled_iter L t = map Ok kvs)"

definition proto_ok :: "('t, 'z) disk_libs_scheme \<Rightarrow> bool" where
  "proto_ok L \<longleftrightarrow>
     (\<forall>i. \<exists>b n. encode_u64 L i = Ok b \<and> decode_u64 L b = Ok (i, n)) \<and>
     (\<forall>e. \<exists>b. encode_entry L e = Ok b \<and> decode_entry L b = Ok e) \<and>
     (\<forall>h. \<exists>b. encode_hard_state L h = Ok b \<and> decode_hard_state L b = Ok h) \<and>
     (\<forall>c. \<exists>b. encode_conf_state L c = Ok b \<and> decode_conf_state L b = Ok c) \<and>
     (\<forall>s. \<exists>b. encode_snapshot L s = Ok b \<and> decode_snapshot L b = Ok s)"

definition disk_ok ::
    "('t, 'z) disk_libs_scheme \<Rightarrow> ('t \<Rightarrow> bytes \<rightharpoonup> bytes) \<Rightarrow> ('t \<Rightarrow> bytes \<rightharpoonup> bytes) \<Rightarrow> bool" where
  "disk_ok L V D \<longleftrightarrow> sled_sound L V D \<and> sled_up L \<and> proto_ok L"

section \<open>Keys are ordered as indices\<close>

lemma key_to_index_to_key [simp]: "key_to_index (index_to_key i) = Some i"
  using unsigned_less [where ?'a = nat, of i]
  by (simp add: key_to_index_def index_to_key_def from_be_to_be)

lemma index_to_key_inject [simp]: "index_to_key i = index_to_key j \<longleftrightarrow> i = j"
  by (metis key_to_index_to_key option.inject)

lemma index_to_key_less: "index_to_key i < index_to_key j \<longleftrightarrow> i < j"
  using unsigned_less [where ?'a = nat, of i] unsigned_less [where ?'a = nat, of j]
  by (simp add: less_iff_from_be index_to_key_def from_be_to_be word_less_nat_alt)

lemma key_to_index_Some: "key_to_index k = Some i \<Longrightarrow> k = index_to_key i"
proof -
  assume "key_to_index k = Some i"
  then have l: "length k = 8" and i: "i = of_nat (from_be k)"
    by (auto simp: key_to_index_def split: if_splits)
  have "from_be k < 2 ^ 64" using from_be_bound [of k] l by simp
  then have "unat i = from_be k" by (simp add: i unat_of_nat)
  with l show "k = index_to_key i" using to_be_from_be [of k] by (simp add: index_to_key_def)
qed

lemma keys_distinct [simp]:
  "hardstate_key \<noteq> confstate_key" "confstate_key \<noteq> hardstate_key"
  "applied_index_key \<noteq> hardstate_key" "hardstate_key \<noteq> applied_index_key"
  "applied_index_key \<noteq> confstate_key" "confstate_key \<noteq> applied_index_key"
  by (simp_all add: hardstate_key_def confstate_key_def applied_index_key_def str_bytes_inject)

section \<open>The abstract store\<close>

record disk_spec =
  sp_log :: "u64 \<rightharpoonup> entry"
  sp_snap :: "snapshot option"
  sp_hard :: hard_state
  sp_conf :: conf_state
  sp_applied :: u64

definition decoded :: "(bytes \<Rightarrow> ('a, string) result) \<Rightarrow> bytes option \<Rightarrow> 'a option" where
  "decoded d x = (case x of None \<Rightarrow> None | Some b \<Rightarrow> (case d b of Ok y \<Rightarrow> Some y | _ \<Rightarrow> None))"

definition decode_index :: "('t, 'z) disk_libs_scheme \<Rightarrow> bytes \<Rightarrow> (u64, string) result" where
  "decode_index L b = bindR (decode_u64 L b) (\<lambda>(index, n). Ok index)"

definition disk_abs ::
    "('t, 'z) disk_libs_scheme \<Rightarrow> ('t \<Rightarrow> bytes \<rightharpoonup> bytes) \<Rightarrow> 't disk_storage \<Rightarrow> disk_spec" where
  "disk_abs L V s =
     \<lparr>sp_log = (\<lambda>i. decoded (decode_entry L) (V (entries_tree s) (index_to_key i))),
      sp_snap = decoded (decode_snapshot L) (V (snapshots_tree s) latest_key),
      sp_hard = (case decoded (decode_hard_state L) (V (meta_tree s) hardstate_key) of
                   Some h \<Rightarrow> h | None \<Rightarrow> hard_state_default),
      sp_conf = (case decoded (decode_conf_state L) (V (meta_tree s) confstate_key) of
                   Some c \<Rightarrow> c | None \<Rightarrow> conf_state_default),
      sp_applied = (case decoded (decode_index L) (V (meta_tree s) applied_index_key) of
                   Some i \<Rightarrow> i | None \<Rightarrow> 0)\<rparr>"

text \<open>What is stored can be read, and every log entry lies under its own index.\<close>

definition readable :: "(bytes \<Rightarrow> ('a, string) result) \<Rightarrow> bytes option \<Rightarrow> bool" where
  "readable d x \<longleftrightarrow> (\<forall>b. x = Some b \<longrightarrow> is_ok (d b))"

definition entries_inv ::
    "('t, 'z) disk_libs_scheme \<Rightarrow> ('t \<Rightarrow> bytes \<rightharpoonup> bytes) \<Rightarrow> 't \<Rightarrow> bool" where
  "entries_inv L V t \<longleftrightarrow>
     (\<forall>k b. V t k = Some b \<longrightarrow> (\<exists>e. decode_entry L b = Ok e \<and> k = index_to_key (e_index e)))"

definition disk_inv ::
    "('t, 'z) disk_libs_scheme \<Rightarrow> ('t \<Rightarrow> bytes \<rightharpoonup> bytes) \<Rightarrow> 't disk_storage \<Rightarrow> bool" where
  "disk_inv L V s \<longleftrightarrow>
     entries_inv L V (entries_tree s) \<and>
     readable (decode_snapshot L) (V (snapshots_tree s) latest_key) \<and>
     readable (decode_hard_state L) (V (meta_tree s) hardstate_key) \<and>
     readable (decode_conf_state L) (V (meta_tree s) confstate_key) \<and>
     readable (decode_index L) (V (meta_tree s) applied_index_key) \<and>
     ds_applied s = sp_applied (disk_abs L V s)"

definition disk_durable ::
    "('t \<Rightarrow> bytes \<rightharpoonup> bytes) \<Rightarrow> ('t \<Rightarrow> bytes \<rightharpoonup> bytes) \<Rightarrow> 't disk_storage \<Rightarrow> bool" where
  "disk_durable V D s \<longleftrightarrow>
     D (meta_tree s) = V (meta_tree s) \<and>
     D (entries_tree s) = V (entries_tree s) \<and>
     D (snapshots_tree s) = V (snapshots_tree s)"

text \<open>The operations on the abstract store.\<close>

definition spec_append :: "entry list \<Rightarrow> disk_spec \<Rightarrow> disk_spec" where
  "spec_append es \<sigma> = \<sigma>\<lparr>sp_log := upd_all e_index (\<lambda>e. e) es (sp_log \<sigma>)\<rparr>"

definition spec_compact :: "u64 \<Rightarrow> disk_spec \<Rightarrow> disk_spec" where
  "spec_compact limit \<sigma> = \<sigma>\<lparr>sp_log := (\<lambda>i. if i \<le> limit then None else sp_log \<sigma> i)\<rparr>"

definition spec_apply_snapshot :: "snapshot \<Rightarrow> disk_spec \<Rightarrow> disk_spec" where
  "spec_apply_snapshot snap \<sigma> =
     (spec_compact (snap_index snap) \<sigma>)
       \<lparr>sp_snap := Some snap, sp_conf := get_conf_state (get_metadata snap)\<rparr>"

section \<open>One step on one tree\<close>

lemma decoded_simps [simp]:
  "decoded d None = None"
  "d b = Ok y \<Longrightarrow> decoded d (Some b) = Some y"
  by (simp_all add: decoded_def)

lemma readable_simps [simp]:
  "readable d None"
  "readable d (Some b) \<longleftrightarrow> is_ok (d b)"
  by (simp_all add: readable_def)

lemma sled_steps:
  assumes "disk_ok L V D"
  shows "\<exists>t'. sled_insert L k v t = (Ok (), t') \<and> V t' = (V t)(k \<mapsto> v)"
    and "\<exists>t'. sled_remove L k t = (Ok (), t') \<and> V t' = (V t)(k := None)"
    and "\<exists>t'. sled_flush L t = (Ok (), t') \<and> V t' = V t \<and> D t' = V t"
    and "sled_get L t k = Ok (V t k)"
  using assms unfolding disk_ok_def sled_sound_def sled_up_def by metis+

lemma sled_iter_ok:
  assumes "disk_ok L V D"
  obtains kvs where "sled_iter L t = map Ok kvs" and "sorted_wrt (<) (map fst kvs)"
    and "map_of kvs = V t"
  using assms unfolding disk_ok_def sled_sound_def sled_up_def by metis

lemma on_meta_insert:
  assumes "disk_ok L V D"
  shows "\<exists>t. on_meta (sled_insert L k v) s = (Ok (), s\<lparr>meta_tree := t\<rparr>) \<and>
             V t = (V (meta_tree s))(k \<mapsto> v)"
  using sled_steps(1) [OF assms, of k v "meta_tree s"] by (auto simp: on_meta_def)

lemma on_meta_flush:
  assumes "disk_ok L V D"
  shows "\<exists>t. on_meta (sled_flush L) s = (Ok (), s\<lparr>meta_tree := t\<rparr>) \<and>
             V t = V (meta_tree s) \<and> D t = V (meta_tree s)"
  using sled_steps(3) [OF assms, of "meta_tree s"] by (auto simp: on_meta_def)

lemma on_entries_insert:
  assumes "disk_ok L V D"
  shows "\<exists>t. on_entries (sled_insert L k v) s = (Ok (), s\<lparr>entries_tree := t\<rparr>) \<and>
             V t = (V (entries_tree s))(k \<mapsto> v)"
  using sled_steps(1) [OF assms, of k v "entries_tree s"] by (auto simp: on_entries_def)

lemma on_entries_remove:
  assumes "disk_ok L V D"
  shows "\<exists>t. on_entries (sled_remove L k) s = (Ok (), s\<lparr>entries_tree := t\<rparr>) \<and>
             V t = (V (entries_tree s))(k := None)"
  using sled_steps(2) [OF assms, of k "entries_tree s"] by (auto simp: on_entries_def)

lemma on_entries_flush:
  assumes "disk_ok L V D"
  shows "\<exists>t. on_entries (sled_flush L) s = (Ok (), s\<lparr>entries_tree := t\<rparr>) \<and>
             V t = V (entries_tree s) \<and> D t = V (entries_tree s)"
  using sled_steps(3) [OF assms, of "entries_tree s"] by (auto simp: on_entries_def)

lemma on_snapshots_insert:
  assumes "disk_ok L V D"
  shows "\<exists>t. on_snapshots (sled_insert L k v) s = (Ok (), s\<lparr>snapshots_tree := t\<rparr>) \<and>
             V t = (V (snapshots_tree s))(k \<mapsto> v)"
  using sled_steps(1) [OF assms, of k v "snapshots_tree s"] by (auto simp: on_snapshots_def)

lemma on_snapshots_flush:
  assumes "disk_ok L V D"
  shows "\<exists>t. on_snapshots (sled_flush L) s = (Ok (), s\<lparr>snapshots_tree := t\<rparr>) \<and>
             V t = V (snapshots_tree s) \<and> D t = V (snapshots_tree s)"
  using sled_steps(3) [OF assms, of "snapshots_tree s"] by (auto simp: on_snapshots_def)

lemma proto_steps:
  assumes "disk_ok L V D"
  shows "\<exists>b. encode_u64 L i = Ok b \<and> decode_index L b = Ok i"
    and "\<exists>b. encode_entry L e = Ok b \<and> decode_entry L b = Ok e"
    and "\<exists>b. encode_hard_state L h = Ok b \<and> decode_hard_state L b = Ok h"
    and "\<exists>b. encode_conf_state L c = Ok b \<and> decode_conf_state L b = Ok c"
    and "\<exists>b. encode_snapshot L sn = Ok b \<and> decode_snapshot L b = Ok sn"
proof -
  have p: "proto_ok L" using assms by (simp add: disk_ok_def)
  from p obtain b n where "encode_u64 L i = Ok b" and "decode_u64 L b = Ok (i, n)"
    unfolding proto_ok_def by blast
  then show "\<exists>b. encode_u64 L i = Ok b \<and> decode_index L b = Ok i"
    by (simp add: decode_index_def)
  from p show "\<exists>b. encode_entry L e = Ok b \<and> decode_entry L b = Ok e"
    and "\<exists>b. encode_hard_state L h = Ok b \<and> decode_hard_state L b = Ok h"
    and "\<exists>b. encode_conf_state L c = Ok b \<and> decode_conf_state L b = Ok c"
    and "\<exists>b. encode_snapshot L sn = Ok b \<and> decode_snapshot L b = Ok sn"
    unfolding proto_ok_def by blast+
qed

section \<open>The metadata writers\<close>

lemma meta_write:
  assumes ok: "disk_ok L V D"
  shows "\<exists>t. bindO (on_meta (sled_insert L k b)) (\<lambda>_. on_meta (sled_flush L)) s =
               (Ok (), s\<lparr>meta_tree := t\<rparr>) \<and>
             V t = (V (meta_tree s))(k \<mapsto> b) \<and> D t = V t"
proof -
  obtain t where t: "on_meta (sled_insert L k b) s = (Ok (), s\<lparr>meta_tree := t\<rparr>)"
    "V t = (V (meta_tree s))(k \<mapsto> b)"
    using on_meta_insert [OF ok] by blast
  obtain u where "on_meta (sled_flush L) (s\<lparr>meta_tree := t\<rparr>) = (Ok (), s\<lparr>meta_tree := u\<rparr>)"
    "V u = V t" "D u = V t"
    using on_meta_flush [OF ok, of "s\<lparr>meta_tree := t\<rparr>"] by auto
  with t show ?thesis by auto
qed

lemma disk_set_hardstate_refines:
  assumes ok: "disk_ok L V D" and inv: "disk_inv L V s" and dur: "disk_durable V D s"
  shows "\<exists>s'. disk_set_hardstate L hs s = (Ok (), s') \<and>
              disk_abs L V s' = (disk_abs L V s)\<lparr>sp_hard := hs\<rparr> \<and>
              disk_inv L V s' \<and> disk_durable V D s'"
proof -
  obtain b where b: "encode_hard_state L hs = Ok b" "decode_hard_state L b = Ok hs"
    using proto_steps(3) [OF ok] by blast
  obtain t where t: "bindO (on_meta (sled_insert L hardstate_key b)) (\<lambda>_. on_meta (sled_flush L)) s =
      (Ok (), s\<lparr>meta_tree := t\<rparr>)" "V t = (V (meta_tree s))(hardstate_key \<mapsto> b)" "D t = V t"
    using meta_write [OF ok] by blast
  have "disk_set_hardstate L hs s = (Ok (), s\<lparr>meta_tree := t\<rparr>)"
    using b(1) t(1) by (simp add: disk_set_hardstate_def)
  moreover have "disk_abs L V (s\<lparr>meta_tree := t\<rparr>) = (disk_abs L V s)\<lparr>sp_hard := hs\<rparr>"
    by (simp add: disk_abs_def t(2) b(2))
  ultimately show ?thesis
    using inv dur t b(2) by (auto simp: disk_inv_def disk_durable_def)
qed

lemma disk_set_conf_state_refines:
  assumes ok: "disk_ok L V D" and inv: "disk_inv L V s" and dur: "disk_durable V D s"
  shows "\<exists>s'. disk_set_conf_state L cs s = (Ok (), s') \<and>
              disk_abs L V s' = (disk_abs L V s)\<lparr>sp_conf := cs\<rparr> \<and>
              disk_inv L V s' \<and> disk_durable V D s'"
proof -
  obtain b where b: "encode_conf_state L cs = Ok b" "decode_conf_state L b = Ok cs"
    using proto_steps(4) [OF ok] by blast
  obtain t where t: "bindO (on_meta (sled_insert L confstate_key b)) (\<lambda>_. on_meta (sled_flush L)) s =
      (Ok (), s\<lparr>meta_tree := t\<rparr>)" "V t = (V (meta_tree s))(confstate_key \<mapsto> b)" "D t = V t"
    using meta_write [OF ok] by blast
  have "disk_set_conf_state L cs s = (Ok (), s\<lparr>meta_tree := t\<rparr>)"
    using b(1) t(1) by (simp add: disk_set_conf_state_def)
  moreover have "disk_abs L V (s\<lparr>meta_tree := t\<rparr>) = (disk_abs L V s)\<lparr>sp_conf := cs\<rparr>"
    by (simp add: disk_abs_def t(2) b(2))
  ultimately show ?thesis
    using inv dur t b(2) by (auto simp: disk_inv_def disk_durable_def)
qed

lemma disk_set_applied_index_refines:
  assumes ok: "disk_ok L V D" and inv: "disk_inv L V s" and dur: "disk_durable V D s"
  shows "\<exists>s'. disk_set_applied_index L i s = (Ok (), s') \<and>
              disk_abs L V s' = (disk_abs L V s)\<lparr>sp_applied := i\<rparr> \<and>
              disk_inv L V s' \<and> disk_durable V D s'"
proof -
  obtain b where b: "encode_u64 L i = Ok b" "decode_index L b = Ok i"
    using proto_steps(1) [OF ok] by blast
  let ?s = "s\<lparr>ds_applied := i\<rparr>"
  obtain t where t: "bindO (on_meta (sled_insert L applied_index_key b)) (\<lambda>_. on_meta (sled_flush L)) ?s =
      (Ok (), ?s\<lparr>meta_tree := t\<rparr>)" "V t = (V (meta_tree s))(applied_index_key \<mapsto> b)" "D t = V t"
    using meta_write [OF ok, of applied_index_key b ?s] by auto
  have "disk_set_applied_index L i s = (Ok (), ?s\<lparr>meta_tree := t\<rparr>)"
    using b(1) t(1) by (simp add: disk_set_applied_index_def)
  moreover have "disk_abs L V (?s\<lparr>meta_tree := t\<rparr>) = (disk_abs L V s)\<lparr>sp_applied := i\<rparr>"
    by (simp add: disk_abs_def t(2) b(2))
  ultimately show ?thesis
    using inv dur t b(2) by (auto simp: disk_inv_def disk_durable_def)
qed

section \<open>Appending\<close>

lemma disk_abs_entries:
  "disk_abs L V (s\<lparr>entries_tree := t\<rparr>) =
     (disk_abs L V s)\<lparr>sp_log := (\<lambda>i. decoded (decode_entry L) (V t (index_to_key i)))\<rparr>"
  by (simp add: disk_abs_def)

lemma disk_inv_entries:
  "disk_inv L V s \<Longrightarrow> entries_inv L V t \<Longrightarrow> disk_inv L V (s\<lparr>entries_tree := t\<rparr>)"
  by (simp add: disk_inv_def disk_abs_entries)

lemma append_loop_refines:
  assumes ok: "disk_ok L V D"
  shows "disk_inv L V s \<Longrightarrow>
    \<exists>t. append_loop L es s = (Ok (), s\<lparr>entries_tree := t\<rparr>) \<and>
        disk_inv L V (s\<lparr>entries_tree := t\<rparr>) \<and>
        disk_abs L V (s\<lparr>entries_tree := t\<rparr>) = spec_append es (disk_abs L V s)"
proof (induction es arbitrary: s)
  case Nil
  then show ?case by (intro exI [of _ "entries_tree s"]) (simp add: spec_append_def)
next
  case (Cons e es)
  obtain v where v: "encode_entry L e = Ok v" "decode_entry L v = Ok e"
    using proto_steps(2) [OF ok] by blast
  obtain t where t: "on_entries (sled_insert L (index_to_key (e_index e)) v) s =
      (Ok (), s\<lparr>entries_tree := t\<rparr>)"
    "V t = (V (entries_tree s))(index_to_key (e_index e) \<mapsto> v)"
    using on_entries_insert [OF ok] by blast
  have "disk_inv L V (s\<lparr>entries_tree := t\<rparr>)"
    using Cons.prems v(2) by (intro disk_inv_entries) (auto simp: disk_inv_def entries_inv_def t(2))
  from Cons.IH [OF this] obtain u where
    u: "append_loop L es (s\<lparr>entries_tree := t\<rparr>) = (Ok (), s\<lparr>entries_tree := u\<rparr>)"
      "disk_inv L V (s\<lparr>entries_tree := u\<rparr>)"
      "disk_abs L V (s\<lparr>entries_tree := u\<rparr>) = spec_append es (disk_abs L V (s\<lparr>entries_tree := t\<rparr>))"
    by auto
  have log: "(\<lambda>i. decoded (decode_entry L) (V t (index_to_key i))) =
      (sp_log (disk_abs L V s))(e_index e \<mapsto> e)"
    using v(2) by (auto simp: t(2) disk_abs_def fun_eq_iff)
  have "disk_abs L V (s\<lparr>entries_tree := u\<rparr>) = spec_append (e # es) (disk_abs L V s)"
    unfolding u(3) by (simp only: spec_append_def disk_abs_entries log) simp
  with u v(1) t(1) show ?case by auto
qed

lemma disk_append_refines:
  assumes ok: "disk_ok L V D" and inv: "disk_inv L V s" and dur: "disk_durable V D s"
  shows "\<exists>s'. disk_append L es s = (Ok (), s') \<and>
              disk_abs L V s' = spec_append es (disk_abs L V s) \<and>
              disk_inv L V s' \<and> disk_durable V D s'"
proof -
  obtain t where t: "append_loop L es s = (Ok (), s\<lparr>entries_tree := t\<rparr>)"
    "disk_inv L V (s\<lparr>entries_tree := t\<rparr>)"
    "disk_abs L V (s\<lparr>entries_tree := t\<rparr>) = spec_append es (disk_abs L V s)"
    using append_loop_refines [OF ok inv] by blast
  obtain u where u: "on_entries (sled_flush L) (s\<lparr>entries_tree := t\<rparr>) =
      (Ok (), s\<lparr>entries_tree := u\<rparr>)" "V u = V t" "D u = V t"
    using on_entries_flush [OF ok, of "s\<lparr>entries_tree := t\<rparr>"] by auto
  have "disk_append L es s = (Ok (), s\<lparr>entries_tree := u\<rparr>)"
    using t(1) u(1) by (simp add: disk_append_def)
  moreover have "disk_abs L V (s\<lparr>entries_tree := u\<rparr>) = spec_append es (disk_abs L V s)"
    using t(3) by (simp add: disk_abs_entries u(2))
  moreover have "disk_inv L V (s\<lparr>entries_tree := u\<rparr>)"
    using inv t(2) by (intro disk_inv_entries) (simp_all add: disk_inv_def entries_inv_def u(2))
  ultimately show ?thesis using dur u by (auto simp: disk_durable_def)
qed

section \<open>Removing a prefix of the log\<close>

lemma collect_upto_ok:
  assumes "\<And>k. k \<in> fst ` set kvs \<Longrightarrow> \<exists>i. k = index_to_key i"
  shows "collect_upto limit (map Ok kvs) =
           Ok (filter (\<lambda>k. \<forall>i. k = index_to_key i \<longrightarrow> i \<le> limit) (map fst kvs))"
  using assms
proof (induction kvs)
  case Nil
  then show ?case by simp
next
  case (Cons kv kvs)
  obtain k v i where kv: "kv = (k, v)" "k = index_to_key i"
    using Cons.prems [of "fst kv"] by (cases kv) auto
  from Cons.IH Cons.prems have
    "collect_upto limit (map Ok kvs) =
       Ok (filter (\<lambda>k. \<forall>i. k = index_to_key i \<longrightarrow> i \<le> limit) (map fst kvs))"
    by simp
  then show ?case by (simp add: kv)
qed

lemma remove_keys_ok:
  assumes ok: "disk_ok L V D"
  shows "\<exists>t. remove_keys L ks s = (Ok (), s\<lparr>entries_tree := t\<rparr>) \<and>
             V t = V (entries_tree s) |` (- set ks)"
proof (induction ks arbitrary: s)
  case Nil
  then show ?case by (intro exI [of _ "entries_tree s"]) simp
next
  case (Cons k ks)
  obtain t where t: "on_entries (sled_remove L k) s = (Ok (), s\<lparr>entries_tree := t\<rparr>)"
    "V t = (V (entries_tree s))(k := None)"
    using on_entries_remove [OF ok] by blast
  obtain u where u: "remove_keys L ks (s\<lparr>entries_tree := t\<rparr>) = (Ok (), s\<lparr>entries_tree := u\<rparr>)"
    "V u = V t |` (- set ks)"
    using Cons.IH [of "s\<lparr>entries_tree := t\<rparr>"] by auto
  have "V u = V (entries_tree s) |` (- set (k # ks))"
    by (auto simp: u(2) t(2) fun_eq_iff restrict_map_def)
  with t(1) u(1) show ?case by auto
qed

lemma remove_upto_ok:
  assumes ok: "disk_ok L V D" and inv: "disk_inv L V s"
  shows "\<exists>t. remove_upto L limit s = (Ok (), s\<lparr>entries_tree := t\<rparr>) \<and> entries_inv L V t \<and>
             (\<forall>i. V t (index_to_key i) =
                (if i \<le> limit then None else V (entries_tree s) (index_to_key i)))"
proof -
  obtain kvs where kvs: "sled_iter L (entries_tree s) = map Ok kvs"
    "sorted_wrt (<) (map fst kvs)" "map_of kvs = V (entries_tree s)"
    using sled_iter_ok [OF ok] by blast
  have dom: "fst ` set kvs = dom (V (entries_tree s))"
    by (metis dom_map_of_conv_image_fst kvs(3))
  have idx: "\<exists>i. k = index_to_key i" if "k \<in> fst ` set kvs" for k
    using that inv by (auto simp: dom disk_inv_def entries_inv_def)
  let ?ks = "filter (\<lambda>k. \<forall>i. k = index_to_key i \<longrightarrow> i \<le> limit) (map fst kvs)"
  obtain t where t: "remove_keys L ?ks s = (Ok (), s\<lparr>entries_tree := t\<rparr>)"
    "V t = V (entries_tree s) |` (- set ?ks)"
    using remove_keys_ok [OF ok] by blast
  have "remove_upto L limit s = (Ok (), s\<lparr>entries_tree := t\<rparr>)"
    using t(1) collect_upto_ok [OF idx] by (simp add: remove_upto_def kvs(1))
  moreover have "entries_inv L V t"
    using inv by (auto simp: t(2) disk_inv_def entries_inv_def restrict_map_def split: if_splits)
  moreover have "V t (index_to_key i) =
      (if i \<le> limit then None else V (entries_tree s) (index_to_key i))" for i
    by (cases "V (entries_tree s) (index_to_key i)") (auto simp: t(2) restrict_map_def dom domIff)
  ultimately show ?thesis by blast
qed

lemma abs_compact:
  assumes "\<forall>i. V t (index_to_key i) =
      (if i \<le> limit then None else V (entries_tree s) (index_to_key i))"
  shows "disk_abs L V (s\<lparr>entries_tree := t\<rparr>) = spec_compact limit (disk_abs L V s)"
  using assms by (auto simp: disk_abs_entries spec_compact_def disk_abs_def fun_eq_iff)

lemma disk_compact_refines:
  assumes ok: "disk_ok L V D" and inv: "disk_inv L V s" and dur: "disk_durable V D s"
  shows "\<exists>s'. disk_compact L limit s = (Ok (), s') \<and>
              disk_abs L V s' = spec_compact limit (disk_abs L V s) \<and>
              disk_inv L V s' \<and> disk_durable V D s'"
proof -
  obtain t where t: "remove_upto L limit s = (Ok (), s\<lparr>entries_tree := t\<rparr>)" "entries_inv L V t"
    "\<forall>i. V t (index_to_key i) =
       (if i \<le> limit then None else V (entries_tree s) (index_to_key i))"
    using remove_upto_ok [OF ok inv] by blast
  obtain u where u: "on_entries (sled_flush L) (s\<lparr>entries_tree := t\<rparr>) =
      (Ok (), s\<lparr>entries_tree := u\<rparr>)" "V u = V t" "D u = V t"
    using on_entries_flush [OF ok, of "s\<lparr>entries_tree := t\<rparr>"] by auto
  have "disk_abs L V (s\<lparr>entries_tree := u\<rparr>) = spec_compact limit (disk_abs L V s)"
    using t(3) by (intro abs_compact) (simp add: u(2))
  moreover have "disk_inv L V (s\<lparr>entries_tree := u\<rparr>)"
    using t(2) by (intro disk_inv_entries inv) (simp add: entries_inv_def u(2))
  ultimately show ?thesis
    using t(1) u dur by (auto simp: disk_compact_def disk_durable_def)
qed

text \<open>
  Applying a snapshot: the snapshot, its configuration and the removal of the log it
  covers, then the three flushes.
\<close>

lemma disk_apply_snapshot_refines:
  assumes ok: "disk_ok L V D" and inv: "disk_inv L V s"
  shows "\<exists>s'. disk_apply_snapshot L snap s = (Ok (), s') \<and>
              disk_abs L V s' = spec_apply_snapshot snap (disk_abs L V s) \<and>
              disk_inv L V s' \<and> disk_durable V D s'"
proof -
  let ?cs = "get_conf_state (get_metadata snap)"
  obtain b where b: "encode_snapshot L snap = Ok b" "decode_snapshot L b = Ok snap"
    using proto_steps(5) [OF ok] by blast
  obtain c where c: "encode_conf_state L ?cs = Ok c" "decode_conf_state L c = Ok ?cs"
    using proto_steps(4) [OF ok] by blast
  obtain t1 where t1: "on_snapshots (sled_insert L latest_key b) s = (Ok (), s\<lparr>snapshots_tree := t1\<rparr>)"
    "V t1 = (V (snapshots_tree s))(latest_key \<mapsto> b)"
    using on_snapshots_insert [OF ok] by blast
  let ?s1 = "s\<lparr>snapshots_tree := t1\<rparr>"
  obtain t2 where t2: "on_meta (sled_insert L confstate_key c) ?s1 = (Ok (), ?s1\<lparr>meta_tree := t2\<rparr>)"
    "V t2 = (V (meta_tree s))(confstate_key \<mapsto> c)"
    using on_meta_insert [OF ok, of confstate_key c ?s1] by auto
  let ?s2 = "?s1\<lparr>meta_tree := t2\<rparr>"
  have inv2: "disk_inv L V ?s2"
    using inv b(2) c(2) by (auto simp: disk_inv_def t1(2) t2(2) disk_abs_def)
  obtain t3 where t3: "remove_upto L (snap_index snap) ?s2 = (Ok (), ?s2\<lparr>entries_tree := t3\<rparr>)"
    "entries_inv L V t3"
    "\<forall>i. V t3 (index_to_key i) =
       (if i \<le> snap_index snap then None else V (entries_tree ?s2) (index_to_key i))"
    using remove_upto_ok [OF ok inv2] by blast
  let ?s3 = "?s2\<lparr>entries_tree := t3\<rparr>"
  obtain u1 where u1: "on_snapshots (sled_flush L) ?s3 = (Ok (), ?s3\<lparr>snapshots_tree := u1\<rparr>)"
    "V u1 = V t1" "D u1 = V t1"
    using on_snapshots_flush [OF ok, of ?s3] by auto
  let ?s4 = "?s3\<lparr>snapshots_tree := u1\<rparr>"
  obtain u2 where u2: "on_meta (sled_flush L) ?s4 = (Ok (), ?s4\<lparr>meta_tree := u2\<rparr>)"
    "V u2 = V t2" "D u2 = V t2"
    using on_meta_flush [OF ok, of ?s4] by auto
  let ?s5 = "?s4\<lparr>meta_tree := u2\<rparr>"
  obtain u3 where u3: "on_entries (sled_flush L) ?s5 = (Ok (), ?s5\<lparr>entries_tree := u3\<rparr>)"
    "V u3 = V t3" "D u3 = V t3"
    using on_entries_flush [OF ok, of ?s5] by auto
  let ?s6 = "?s5\<lparr>entries_tree := u3\<rparr>"
  have "disk_apply_snapshot L snap s = (Ok (), ?s6)"
    using b(1) c(1) t1(1) t2(1) t3(1) u1(1) u2(1) u3(1)
    by (simp add: disk_apply_snapshot_def)
  moreover have "disk_abs L V ?s6 = spec_apply_snapshot snap (disk_abs L V s)"
    using t3(3) b(2) c(2)
    by (auto simp: disk_abs_def spec_apply_snapshot_def spec_compact_def fun_eq_iff
        u1(2) u2(2) u3(2) t1(2) t2(2))
  moreover have "disk_inv L V ?s6"
    using inv2 t3(2) by (auto simp: disk_inv_def disk_abs_def entries_inv_def u1(2) u2(2) u3(2))
  moreover have "disk_durable V D ?s6"
    using u1 u2 u3 by (simp add: disk_durable_def)
  ultimately show ?thesis by blast
qed



end
