(* ===== verification/Disk_Reading.thy ===== *)
theory Disk_Reading
  imports Disk_Refinement
begin

text \<open>
  The reading half of the persistent store: what \<open>entries\<close>, \<open>term\<close>, \<open>first_index\<close>,
  \<open>last_index\<close>, \<open>snapshot\<close> and \<open>initial_state\<close> return, as functions of the abstract
  store.
\<close>

section \<open>Point reads\<close>

lemma get_entry_abs:
  assumes "disk_ok L V D" and "disk_inv L V s"
  shows "get_entry L s i = Ok (sp_log (disk_abs L V s) i)"
proof (cases "V (entries_tree s) (index_to_key i)")
  case None
  then show ?thesis
    using sled_steps(4) [OF assms(1)] by (simp add: get_entry_def disk_abs_def)
next
  case (Some b)
  then obtain e where "decode_entry L b = Ok e"
    using assms(2) unfolding disk_inv_def entries_inv_def by blast
  with Some show ?thesis
    using sled_steps(4) [OF assms(1)] by (simp add: get_entry_def disk_abs_def)
qed

lemma get_latest_snapshot_abs:
  assumes "disk_ok L V D" and "disk_inv L V s"
  shows "get_latest_snapshot L s = Ok (sp_snap (disk_abs L V s))"
proof (cases "V (snapshots_tree s) latest_key")
  case None
  then show ?thesis
    using sled_steps(4) [OF assms(1)] by (simp add: get_latest_snapshot_def disk_abs_def)
next
  case (Some b)
  then obtain sn where "decode_snapshot L b = Ok sn"
    using assms(2) by (auto simp: disk_inv_def is_ok_iff)
  with Some show ?thesis
    using sled_steps(4) [OF assms(1)] by (simp add: get_latest_snapshot_def disk_abs_def)
qed

lemma disk_initial_state_abs:
  assumes "disk_ok L V D" and "disk_inv L V s"
  shows "disk_initial_state L s = Ok (sp_hard (disk_abs L V s), sp_conf (disk_abs L V s))"
proof -
  have h: "(case V (meta_tree s) hardstate_key of
      Some b \<Rightarrow> map_err store_other (decode_hard_state L b) | None \<Rightarrow> Ok hard_state_default) =
      Ok (sp_hard (disk_abs L V s))"
    using assms(2) by (cases "V (meta_tree s) hardstate_key") (auto simp: disk_inv_def is_ok_iff disk_abs_def)
  have c: "(case V (meta_tree s) confstate_key of
      Some b \<Rightarrow> map_err store_other (decode_conf_state L b) | None \<Rightarrow> Ok conf_state_default) =
      Ok (sp_conf (disk_abs L V s))"
    using assms(2) by (cases "V (meta_tree s) confstate_key") (auto simp: disk_inv_def is_ok_iff disk_abs_def)
  show ?thesis
    using sled_steps(4) [OF assms(1)] by (simp add: disk_initial_state_def h c)
qed

section \<open>First and last index\<close>

lemma sorted_hd_Min: "sorted_wrt (<) (x # xs) \<Longrightarrow> Min (set (x # xs)) = (x :: 'a :: linorder)"
  by (intro Min_eqI) auto

lemma sorted_last_Max: "sorted_wrt (<) xs \<Longrightarrow> xs \<noteq> [] \<Longrightarrow> Max (set xs) = (last xs :: 'a :: linorder)"
proof (induction xs)
  case (Cons x xs)
  show ?case
  proof (cases "xs = []")
    case False
    with Cons have "Max (set xs) = last xs" and "x < last xs" by auto
    with False show ?thesis by (simp add: max_def less_imp_le)
  qed simp
qed simp

text \<open>The entries of the log tree, in iteration order, are those of the log in index order.\<close>

lemma log_iter:
  assumes ok: "disk_ok L V D" and inv: "disk_inv L V s"
  obtains kvs idx where "sled_iter L (entries_tree s) = map Ok kvs"
    and "map fst kvs = map index_to_key idx"
    and "sorted_wrt (<) idx" and "set idx = dom (sp_log (disk_abs L V s))"
proof -
  obtain kvs where kvs: "sled_iter L (entries_tree s) = map Ok kvs"
    "sorted_wrt (<) (map fst kvs)" "map_of kvs = V (entries_tree s)"
    using sled_iter_ok [OF ok] by blast
  have dom: "set (map fst kvs) = dom (V (entries_tree s))"
    by (metis dom_map_of_conv_image_fst kvs(3) list.set_map)
  define idx where "idx = map (\<lambda>k. the (key_to_index k)) (map fst kvs)"
  have key: "index_to_key (the (key_to_index k)) = k" if "k \<in> set (map fst kvs)" for k
  proof -
    from that obtain b where "V (entries_tree s) k = Some b" unfolding dom by blast
    with inv obtain e :: entry where "k = index_to_key (e_index e)"
      unfolding disk_inv_def entries_inv_def by blast
    then show ?thesis by simp
  qed
  have "map (\<lambda>k. index_to_key (the (key_to_index k))) (map fst kvs) = map fst kvs"
    by (rule map_idI) (rule key)
  then have keys: "map fst kvs = map index_to_key idx"
    by (simp add: idx_def comp_def)
  then have "sorted_wrt (<) idx"
    using kvs(2) by (simp add: sorted_wrt_map index_to_key_less)
  moreover have "set idx = dom (sp_log (disk_abs L V s))"
  proof -
    have "i \<in> set idx \<longleftrightarrow> index_to_key i \<in> set (map fst kvs)" for i
      unfolding keys by auto
    moreover have "index_to_key i \<in> dom (V (entries_tree s)) \<longleftrightarrow>
        i \<in> dom (sp_log (disk_abs L V s))" for i
      using inv by (cases "V (entries_tree s) (index_to_key i)")
        (force simp: disk_abs_def disk_inv_def entries_inv_def)+
    ultimately show ?thesis unfolding dom by blast
  qed
  ultimately show ?thesis using that kvs(1) keys by blast
qed

definition spec_first_index :: "disk_spec \<Rightarrow> u64" where
  "spec_first_index \<sigma> =
     (case sp_snap \<sigma> of
        Some sn \<Rightarrow> snap_index sn + 1
      | None \<Rightarrow> if dom (sp_log \<sigma>) = {} then 1 else Min (dom (sp_log \<sigma>)))"

definition spec_last_index :: "disk_spec \<Rightarrow> u64" where
  "spec_last_index \<sigma> =
     (if dom (sp_log \<sigma>) = {} then
        (case sp_snap \<sigma> of Some sn \<Rightarrow> snap_index sn | None \<Rightarrow> 0)
      else Max (dom (sp_log \<sigma>)))"

definition spec_term :: "disk_spec \<Rightarrow> u64 \<Rightarrow> (u64, raft_error) result" where
  "spec_term \<sigma> idx =
     (case sp_snap \<sigma> of
        Some sn \<Rightarrow>
          if idx = snap_index sn then Ok (snap_term sn)
          else if idx < snap_index sn then Err (Store Compacted)
          else ok_or (map_option e_term (sp_log \<sigma> idx)) (Store Unavailable)
      | None \<Rightarrow> ok_or (map_option e_term (sp_log \<sigma> idx)) (Store Unavailable))"

lemma disk_first_index_abs:
  assumes ok: "disk_ok L V D" and inv: "disk_inv L V s"
  shows "disk_first_index L s = Ok (spec_first_index (disk_abs L V s))"
proof -
  obtain kvs idx where i: "sled_iter L (entries_tree s) = map Ok kvs"
    "map fst kvs = map index_to_key idx" "sorted_wrt (<) idx"
    "set idx = dom (sp_log (disk_abs L V s))"
    by (rule log_iter [OF ok inv])
  show ?thesis
  proof (cases "sp_snap (disk_abs L V s)")
    case (Some sn)
    then show ?thesis
      by (simp add: disk_first_index_def get_latest_snapshot_abs [OF ok inv] spec_first_index_def)
  next
    case None
    show ?thesis
    proof (cases idx)
      case Nil
      with i None show ?thesis
        by (simp add: disk_first_index_def get_latest_snapshot_abs [OF ok inv] spec_first_index_def)
    next
      case (Cons j js)
      with i(2) obtain v rest where "kvs = (index_to_key j, v) # rest" by (cases kvs) auto
      moreover have "Min (dom (sp_log (disk_abs L V s))) = j"
        using sorted_hd_Min [of j js] i(3,4) Cons by simp
      moreover have "dom (sp_log (disk_abs L V s)) \<noteq> {}" using i(4) Cons by auto
      ultimately show ?thesis
        using i(1) None
        by (simp add: disk_first_index_def get_latest_snapshot_abs [OF ok inv] spec_first_index_def
            key_index_result_def)
    qed
  qed
qed

lemma disk_last_index_abs:
  assumes ok: "disk_ok L V D" and inv: "disk_inv L V s"
  shows "disk_last_index L s = Ok (spec_last_index (disk_abs L V s))"
proof -
  obtain kvs idx where i: "sled_iter L (entries_tree s) = map Ok kvs"
    "map fst kvs = map index_to_key idx" "sorted_wrt (<) idx"
    "set idx = dom (sp_log (disk_abs L V s))"
    by (rule log_iter [OF ok inv])
  show ?thesis
  proof (cases "idx = []")
    case True
    with i show ?thesis
      by (auto simp: disk_last_index_def get_latest_snapshot_abs [OF ok inv] spec_last_index_def
          split: option.split)
  next
    case False
    then have ne: "kvs \<noteq> []" using i(2) by auto
    have "fst (last kvs) = index_to_key (last idx)"
      using i(2) ne False by (metis last_map)
    then obtain v where lst: "last kvs = (index_to_key (last idx), v)" by (cases "last kvs") auto
    have "Max (dom (sp_log (disk_abs L V s))) = last idx"
      using sorted_last_Max [OF i(3) False] i(4) by simp
    moreover have "dom (sp_log (disk_abs L V s)) \<noteq> {}" using i(4) False by auto
    ultimately show ?thesis
      using i(1) ne lst
      by (auto simp: disk_last_index_def spec_last_index_def key_index_result_def last_map
          split: list.split)
  qed
qed

lemma disk_term_abs:
  assumes "disk_ok L V D" and "disk_inv L V s"
  shows "disk_term L s idx = spec_term (disk_abs L V s) idx"
  by (auto simp: disk_term_def spec_term_def get_latest_snapshot_abs [OF assms]
      get_entry_abs [OF assms] Let_def split: option.split)

lemma disk_snapshot_abs:
  assumes "disk_ok L V D" and "disk_inv L V s"
  shows "disk_snapshot L s r t =
    Ok (case sp_snap (disk_abs L V s) of Some sn \<Rightarrow> sn | None \<Rightarrow> snapshot_default)"
  by (auto simp: disk_snapshot_def get_latest_snapshot_abs [OF assms] split: option.split)

section \<open>Ranges of entries\<close>

text \<open>The encoded size of a list of entries, a \<open>u64\<close> sum like the code's.\<close>

definition encoded_size :: "('t, 'z) disk_libs_scheme \<Rightarrow> entry list \<Rightarrow> u64" where
  "encoded_size L es = sum_list (map (entry_encoded_len L) es)"

lemma encoded_size_append [simp]:
  "encoded_size L (xs @ ys) = encoded_size L xs + encoded_size L ys"
  by (simp add: encoded_size_def)

lemma encoded_size_simps [simp]:
  "encoded_size L [] = 0"
  "encoded_size L (e # es) = entry_encoded_len L e + encoded_size L es"
  by (simp_all add: encoded_size_def)

text \<open>
  What the loop returns after the entries of \<open>acc\<close>: a run of the indices still to read,
  all present, that stops only at a missing entry or where the next one would exceed
  \<open>max_size\<close>; more than one entry only within \<open>max_size\<close>.
\<close>

definition run_from ::
    "('t, 'z) disk_libs_scheme \<Rightarrow> disk_spec \<Rightarrow> u64 \<Rightarrow> u64 list \<Rightarrow> entry list \<Rightarrow> entry list \<Rightarrow> bool" where
  "run_from L \<sigma> max_size idx acc es \<longleftrightarrow>
     (\<exists>n \<le> length idx.
        es = acc @ map (\<lambda>i. the (sp_log \<sigma> i)) (take n idx) \<and>
        (\<forall>i \<in> set (take n idx). sp_log \<sigma> i \<noteq> None) \<and>
        (n < length idx \<longrightarrow>
           sp_log \<sigma> (idx ! n) = None \<or>
           (es \<noteq> [] \<and> max_size < encoded_size L es + entry_encoded_len L (the (sp_log \<sigma> (idx ! n)))))) \<and>
     (1 < length es \<longrightarrow> encoded_size L es \<le> max_size)"

lemma run_from_stop:
  "1 < length acc \<longrightarrow> encoded_size L acc \<le> max_size \<Longrightarrow>
   idx = [] \<or> sp_log \<sigma> (hd idx) = None \<or>
     (acc \<noteq> [] \<and> max_size < encoded_size L acc + entry_encoded_len L (the (sp_log \<sigma> (hd idx)))) \<Longrightarrow>
   run_from L \<sigma> max_size idx acc acc"
  unfolding run_from_def by (intro conjI exI [of _ 0]) (auto simp: hd_conv_nth)

lemma run_from_step:
  assumes "sp_log \<sigma> i = Some e" and "run_from L \<sigma> max_size idx (acc @ [e]) es"
  shows "run_from L \<sigma> max_size (i # idx) acc es"
proof -
  from assms(2) obtain n where "n \<le> length idx"
    "es = (acc @ [e]) @ map (\<lambda>i. the (sp_log \<sigma> i)) (take n idx)"
    "\<forall>i \<in> set (take n idx). sp_log \<sigma> i \<noteq> None"
    "n < length idx \<longrightarrow> sp_log \<sigma> (idx ! n) = None \<or>
       (es \<noteq> [] \<and> max_size < encoded_size L es + entry_encoded_len L (the (sp_log \<sigma> (idx ! n))))"
    "1 < length es \<longrightarrow> encoded_size L es \<le> max_size"
    unfolding run_from_def by blast
  with assms(1) show ?thesis
    unfolding run_from_def by (intro conjI exI [of _ "Suc n"]) auto
qed

lemma entries_loop_spec:
  assumes "disk_ok L V D" and "disk_inv L V s" and \<sigma>: "\<sigma> = disk_abs L V s"
  shows "total_size = encoded_size L acc \<Longrightarrow>
    1 < length acc \<longrightarrow> encoded_size L acc \<le> max_size \<Longrightarrow>
    (case entries_loop L s max_size idx acc total_size of
       Ok es \<Rightarrow> run_from L \<sigma> max_size idx acc es
     | Err e \<Rightarrow> e = Store Compacted \<and>
         (\<exists>i \<in> set idx. sp_log \<sigma> i = None \<and> (\<exists>sn. sp_snap \<sigma> = Some sn \<and> i \<le> snap_index sn))
     | Panic \<Rightarrow> False)"
proof (induction idx arbitrary: acc total_size)
  case Nil
  then show ?case by (simp add: run_from_stop)
next
  case (Cons i idx)
  note reads = get_entry_abs [OF assms(1,2)] get_latest_snapshot_abs [OF assms(1,2)]
  show ?case
  proof (cases "sp_log \<sigma> i")
    case None
    with Cons.prems show ?thesis
      by (auto simp: reads \<sigma> [symmetric] run_from_stop split: option.split)
  next
    case (Some e)
    show ?thesis
    proof (cases "max_size < total_size + entry_encoded_len L e \<and> acc \<noteq> []")
      case True
      with Cons.prems Some show ?thesis
        by (auto simp: reads \<sigma> [symmetric] Let_def run_from_stop)
    next
      case False
      then have "1 < length (acc @ [e]) \<longrightarrow> encoded_size L (acc @ [e]) \<le> max_size"
        using Cons.prems(1) by auto
      moreover have "total_size + entry_encoded_len L e = encoded_size L (acc @ [e])"
        using Cons.prems(1) by simp
      ultimately have "case entries_loop L s max_size idx (acc @ [e]) (total_size + entry_encoded_len L e) of
         Ok es \<Rightarrow> run_from L \<sigma> max_size idx (acc @ [e]) es
       | Err e \<Rightarrow> e = Store Compacted \<and>
           (\<exists>i \<in> set idx. sp_log \<sigma> i = None \<and> (\<exists>sn. sp_snap \<sigma> = Some sn \<and> i \<le> snap_index sn))
       | Panic \<Rightarrow> False"
        by (intro Cons.IH)
      moreover have "entries_loop L s max_size (i # idx) acc total_size =
          entries_loop L s max_size idx (acc @ [e]) (total_size + entry_encoded_len L e)"
        using False Some by (auto simp: reads \<sigma> [symmetric] Let_def)
      ultimately show ?thesis
        using run_from_step [OF Some] by (auto split: result.splits)
    qed
  qed
qed

lemma length_index_range [simp]: "length (index_range low high) = unat high - unat low"
  by (simp add: index_range_def)

lemma nth_index_range: "k < unat high - unat low \<Longrightarrow> index_range low high ! k = low + of_nat k"
  by (simp add: index_range_def)

lemma index_range_mem: "i \<in> set (index_range low high) \<longleftrightarrow> low \<le> i \<and> i < high"
proof -
  have "i \<in> set (index_range low high) \<longleftrightarrow> (\<exists>n. unat low \<le> n \<and> n < unat high \<and> i = of_nat n)"
    by (auto simp: index_range_def)
  also have "\<dots> \<longleftrightarrow> low \<le> i \<and> i < high"
  proof
    assume "\<exists>n. unat low \<le> n \<and> n < unat high \<and> i = of_nat n"
    then obtain n where n: "unat low \<le> n" "n < unat high" "i = of_nat n" by blast
    have "unat i = n"
      using n unsigned_less [where ?'a = nat, of high] by (simp add: unat_of_nat)
    with n show "low \<le> i \<and> i < high" by (simp add: word_le_nat_alt word_less_nat_alt)
  next
    assume "low \<le> i \<and> i < high"
    then show "\<exists>n. unat low \<le> n \<and> n < unat high \<and> i = of_nat n"
      by (intro exI [of _ "unat i"]) (simp add: word_le_nat_alt word_less_nat_alt)
  qed
  finally show ?thesis .
qed

end
