(* ===== verification/Sample_Disk.thy ===== *)
theory Sample_Disk
  imports Disk_Reading
begin

text \<open>
  Concrete libraries for the witnesses of the disk properties: a tree is an association
  list, iterated in key order, and the serializers go through string lists. No code of
  the repository is modelled here.
\<close>

section \<open>Serializers\<close>

definition bytes_str :: "bytes \<Rightarrow> string" where
  "bytes_str = map (\<lambda>b. char_of (unat b))"

definition num :: "string \<Rightarrow> u64 option" where
  "num s = (case parse_u64 s of Ok w \<Rightarrow> Some w | _ \<Rightarrow> None)"

fun nums :: "string list \<Rightarrow> u64 list option" where
  "nums [] = Some []"
| "nums (s # ss) = (case (num s, nums ss) of (Some w, Some ws) \<Rightarrow> Some (w # ws) | _ \<Rightarrow> None)"

definition enc_list :: "u64 list \<Rightarrow> string" where
  "enc_list ws = bytes_str (flat_enc (map show_u64 ws))"

definition dec_list :: "string \<Rightarrow> u64 list option" where
  "dec_list s = Option.bind (flat_dec [] (str_bytes s)) nums"

definition read_with :: "(string list \<Rightarrow> 'a option) \<Rightarrow> bytes \<Rightarrow> ('a, string) result" where
  "read_with f b =
     (case Option.bind (flat_dec [] b) f of Some x \<Rightarrow> Ok x | None \<Rightarrow> Err ''malformed'')"

fun type_str :: "entry_type \<Rightarrow> string" where
  "type_str EntryNormal = ''n''"
| "type_str EntryConfChange = ''c''"
| "type_str EntryConfChangeV2 = ''v''"

definition type_of_str :: "string \<Rightarrow> entry_type" where
  "type_of_str s =
     (if s = ''n'' then EntryNormal else if s = ''c'' then EntryConfChange else EntryConfChangeV2)"

definition entry_strs :: "entry \<Rightarrow> string list" where
  "entry_strs e = [type_str (e_type e), show_u64 (e_term e), show_u64 (e_index e),
     bytes_str (e_data e), bytes_str (e_context e)]"

fun entry_of_strs :: "string list \<Rightarrow> entry option" where
  "entry_of_strs [ty, tm, ix, d, c] =
     (case (num tm, num ix) of
        (Some t, Some i) \<Rightarrow> Some \<lparr>e_type = type_of_str ty, e_term = t, e_index = i,
            e_data = str_bytes d, e_context = str_bytes c\<rparr>
      | _ \<Rightarrow> None)"
| "entry_of_strs _ = None"

fun hard_of_strs :: "string list \<Rightarrow> hard_state option" where
  "hard_of_strs [t, v, c] =
     (case (num t, num v, num c) of
        (Some t', Some v', Some c') \<Rightarrow> Some \<lparr>hs_term = t', hs_vote = v', hs_commit = c'\<rparr>
      | _ \<Rightarrow> None)"
| "hard_of_strs _ = None"

definition conf_strs :: "conf_state \<Rightarrow> string list" where
  "conf_strs c = [enc_list (voters c), enc_list (learners c), enc_list (voters_outgoing c),
     enc_list (learners_next c), if auto_leave c then ''1'' else ''0'']"

fun conf_of_strs :: "string list \<Rightarrow> conf_state option" where
  "conf_of_strs [a, b, c, d, l] =
     (case (dec_list a, dec_list b, dec_list c, dec_list d) of
        (Some a', Some b', Some c', Some d') \<Rightarrow>
          Some \<lparr>voters = a', learners = b', voters_outgoing = c', learners_next = d',
                auto_leave = (l = ''1'')\<rparr>
      | _ \<Rightarrow> None)"
| "conf_of_strs _ = None"

definition snapshot_strs :: "snapshot \<Rightarrow> string list" where
  "snapshot_strs s = bytes_str (sn_data s) #
     (case sn_metadata s of
        None \<Rightarrow> []
      | Some m \<Rightarrow> show_u64 (md_index m) # show_u64 (md_term m) #
          (case md_conf_state m of None \<Rightarrow> [] | Some c \<Rightarrow> conf_strs c))"

fun snapshot_of_strs :: "string list \<Rightarrow> snapshot option" where
  "snapshot_of_strs [d] = Some \<lparr>sn_data = str_bytes d, sn_metadata = None\<rparr>"
| "snapshot_of_strs (d # i # t # c) =
     (case (num i, num t) of
        (Some i', Some t') \<Rightarrow>
          (if c = [] then Some \<lparr>sn_data = str_bytes d, sn_metadata =
               Some \<lparr>md_conf_state = None, md_index = i', md_term = t'\<rparr>\<rparr>
           else (case conf_of_strs c of
               Some c' \<Rightarrow> Some \<lparr>sn_data = str_bytes d, sn_metadata =
                 Some \<lparr>md_conf_state = Some c', md_index = i', md_term = t'\<rparr>\<rparr>
             | None \<Rightarrow> None))
      | _ \<Rightarrow> None)"
| "snapshot_of_strs _ = None"

lemma str_bytes_bytes_str [simp]: "str_bytes (bytes_str b) = b"
proof -
  have "u8_of (char_of (unat (x :: u8))) = x" for x
    using unat_u8_bound [of x] by (simp add: u8_of_def)
  then show ?thesis by (simp add: str_bytes_def bytes_str_def comp_def)
qed

lemma num_show [simp]: "num (show_u64 w) = Some w"
  by (simp add: num_def)

lemma nums_show [simp]: "nums (map show_u64 ws) = Some ws"
  by (induction ws) simp_all

lemma dec_enc_list [simp]: "dec_list (enc_list ws) = Some ws"
  by (simp add: dec_list_def enc_list_def flat_dec_enc)

lemma type_of_type_str [simp]: "type_of_str (type_str t) = t"
  by (cases t) (simp_all add: type_of_str_def)

lemma read_with_flat: "f ss = Some x \<Longrightarrow> read_with f (flat_enc ss) = Ok x"
  by (simp add: read_with_def flat_dec_enc)

lemma entry_strs_roundtrip: "entry_of_strs (entry_strs e) = Some e"
  by (simp add: entry_strs_def)

lemma conf_strs_roundtrip: "conf_of_strs (conf_strs c) = Some c"
  by (simp add: conf_strs_def)

lemma snapshot_strs_roundtrip: "snapshot_of_strs (snapshot_strs s) = Some s"
proof (cases "sn_metadata s")
  case None
  then show ?thesis by (cases s) (simp add: snapshot_strs_def)
next
  case (Some m)
  have "conf_strs c \<noteq> []" for c by (simp add: conf_strs_def)
  with Some show ?thesis
    by (cases s; cases m; cases "md_conf_state m")
      (simp_all add: snapshot_strs_def conf_strs_roundtrip)
qed

section \<open>The database\<close>

type_synonym sample_tree = "(bytes \<times> bytes) list"

definition in_key_order :: "sample_tree \<Rightarrow> sample_tree" where
  "in_key_order t = foldr (\<lambda>(k, v) m. bt_insert k v m) t []"

text \<open>\<open>img\<close> is what the disk holds: the trees an \<open>open\<close> finds.\<close>

definition sample_disk_libs :: "(string \<Rightarrow> sample_tree) \<Rightarrow> sample_tree disk_libs" where
  "sample_disk_libs img = kv_libs.extend sample_kv_libs (disk_libs.fields
     (\<lambda>path. Ok (\<lambda>name. Ok (img name)))
     (\<lambda>t k. Ok (map_of t k))
     (\<lambda>k v t. (Ok (), (k, v) # t))
     (\<lambda>k t. (Ok (), filter (\<lambda>kv. fst kv \<noteq> k) t))
     (\<lambda>t. (Ok (), t))
     (\<lambda>t. map Ok (in_key_order t))
     (\<lambda>i. Ok (flat_enc [show_u64 i]))
     (\<lambda>b. bindR (read_with (\<lambda>ss. case ss of [s] \<Rightarrow> num s | _ \<Rightarrow> None) b) (\<lambda>i. Ok (i, length b)))
     (\<lambda>e. Ok (flat_enc (entry_strs e)))
     (read_with entry_of_strs)
     (\<lambda>e. 20 + of_nat (length (e_data e)))
     (\<lambda>h. Ok (flat_enc [show_u64 (hs_term h), show_u64 (hs_vote h), show_u64 (hs_commit h)]))
     (read_with hard_of_strs)
     (\<lambda>c. Ok (flat_enc (conf_strs c)))
     (read_with conf_of_strs)
     (\<lambda>s. Ok (flat_enc (snapshot_strs s)))
     (read_with snapshot_of_strs))"

lemmas sample_disk_defs = sample_disk_libs_def disk_libs.defs kv_libs.defs

lemma in_key_order_wf: "bt_wf (in_key_order t)"
  by (induction t) (auto simp: in_key_order_def)

lemma map_of_in_key_order: "map_of (in_key_order t) = map_of t"
proof -
  have "bt_get (in_key_order t) = map_of t"
    by (induction t) (auto simp: in_key_order_def)
  then show ?thesis by (simp add: bt_get_eq)
qed

lemma map_of_filter_other: "map_of (filter (\<lambda>kv. fst kv \<noteq> k) t) = (map_of t)(k := None)"
  by (induction t) (auto simp: fun_eq_iff)

lemma map_Ok_inject: "map Ok xs = map Ok ys \<longleftrightarrow> xs = ys"
  by (rule inj_map_eq_map) (simp add: inj_def)

lemma sample_sled_sound: "sled_sound (sample_disk_libs img) map_of map_of"
  using in_key_order_wf
  by (auto simp: sled_sound_def sample_disk_defs map_of_filter_other map_Ok_inject
      map_of_in_key_order bt_wf_def)

lemma sample_sled_up: "sled_up (sample_disk_libs img)"
  by (auto simp: sled_up_def sample_disk_defs)

lemma sample_proto_ok: "proto_ok (sample_disk_libs img)"
  unfolding proto_ok_def
  by (auto simp del: flat_enc.simps simp: sample_disk_defs read_with_flat entry_strs_roundtrip conf_strs_roundtrip
      snapshot_strs_roundtrip)

lemma sample_disk_ok: "disk_ok (sample_disk_libs img) map_of map_of"
  by (simp add: disk_ok_def sample_sled_sound sample_sled_up sample_proto_ok)

definition sample_fresh :: "sample_tree disk_storage" where
  "sample_fresh = \<lparr>meta_tree = [], entries_tree = [], snapshots_tree = [], ds_applied = 0\<rparr>"

lemma sample_fresh_inv: "disk_inv (sample_disk_libs img) map_of sample_fresh"
  by (simp add: disk_inv_def disk_abs_def sample_fresh_def entries_inv_def)

lemma sample_fresh_durable: "disk_durable map_of map_of s"
  by (simp add: disk_durable_def)

lemma sample_fresh_log [simp]:
  "sp_log (disk_abs (sample_disk_libs img) map_of sample_fresh) = Map.empty"
  "sp_snap (disk_abs (sample_disk_libs img) map_of sample_fresh) = None"
  by (simp_all add: disk_abs_def sample_fresh_def)

end
