(* ===== verification/Disk_Properties.thy ===== *)
theory Disk_Properties
  imports Sample_Disk
begin

text \<open>
  What the persistent store guarantees over whole histories of writes: it behaves as the
  abstract store, and opening it again after a crash finds that store. Then its reads,
  and the two places where it is not the log the raft crate expects.
\<close>

section \<open>Histories of writes\<close>

datatype disk_write =
    WAppend "entry list"
  | WSnapshot snapshot
  | WHardState hard_state
  | WConfState conf_state
  | WApplied u64
  | WCompact u64

fun disk_write_step ::
    "('t, 'z) disk_libs_scheme \<Rightarrow> disk_write \<Rightarrow> ('t disk_storage, unit, raft_error) op" where
  "disk_write_step L (WAppend es) = disk_append L es"
| "disk_write_step L (WSnapshot snap) = disk_apply_snapshot L snap"
| "disk_write_step L (WHardState hs) = disk_set_hardstate L hs"
| "disk_write_step L (WConfState cs) = disk_set_conf_state L cs"
| "disk_write_step L (WApplied i) = disk_set_applied_index L i"
| "disk_write_step L (WCompact i) = disk_compact L i"

fun spec_write_step :: "disk_write \<Rightarrow> disk_spec \<Rightarrow> disk_spec" where
  "spec_write_step (WAppend es) = spec_append es"
| "spec_write_step (WSnapshot snap) = spec_apply_snapshot snap"
| "spec_write_step (WHardState hs) = (\<lambda>\<sigma>. \<sigma>\<lparr>sp_hard := hs\<rparr>)"
| "spec_write_step (WConfState cs) = (\<lambda>\<sigma>. \<sigma>\<lparr>sp_conf := cs\<rparr>)"
| "spec_write_step (WApplied i) = (\<lambda>\<sigma>. \<sigma>\<lparr>sp_applied := i\<rparr>)"
| "spec_write_step (WCompact i) = spec_compact i"

fun disk_run ::
    "('t, 'z) disk_libs_scheme \<Rightarrow> disk_write list \<Rightarrow> ('t disk_storage, unit, raft_error) op" where
  "disk_run L [] = retO ()"
| "disk_run L (w # ws) = bindO (disk_write_step L w) (\<lambda>_. disk_run L ws)"

lemma disk_write_step_refines:
  assumes "disk_ok L V D" and "disk_inv L V s" and "disk_durable V D s"
  shows "\<exists>s'. disk_write_step L w s = (Ok (), s') \<and>
              disk_abs L V s' = spec_write_step w (disk_abs L V s) \<and>
              disk_inv L V s' \<and> disk_durable V D s'"
  using disk_append_refines [OF assms] disk_apply_snapshot_refines [OF assms(1,2)]
    disk_set_hardstate_refines [OF assms] disk_set_conf_state_refines [OF assms]
    disk_set_applied_index_refines [OF assms] disk_compact_refines [OF assms]
  by (cases w) auto

lemma disk_run_ok:
  assumes ok: "disk_ok L V D"
  shows "disk_inv L V s \<Longrightarrow> disk_durable V D s \<Longrightarrow>
    \<exists>s'. disk_run L ws s = (Ok (), s') \<and>
         disk_abs L V s' = fold spec_write_step ws (disk_abs L V s) \<and>
         disk_inv L V s' \<and> disk_durable V D s'"
proof (induction ws arbitrary: s)
  case Nil
  then show ?case by simp
next
  case (Cons w ws)
  obtain t where t: "disk_write_step L w s = (Ok (), t)"
    "disk_abs L V t = spec_write_step w (disk_abs L V s)" "disk_inv L V t" "disk_durable V D t"
    using disk_write_step_refines [OF ok Cons.prems] by blast
  from Cons.IH [OF t(3,4)] t(1,2) show ?case by auto
qed

section \<open>Opening\<close>

text \<open>\<open>opens_to\<close>: the path opens to three trees with the content given.\<close>

definition opens_to ::
    "('t, 'z) disk_libs_scheme \<Rightarrow> ('t \<Rightarrow> bytes \<rightharpoonup> bytes) \<Rightarrow> string \<Rightarrow>
     (bytes \<rightharpoonup> bytes) \<Rightarrow> (bytes \<rightharpoonup> bytes) \<Rightarrow> (bytes \<rightharpoonup> bytes) \<Rightarrow> bool" where
  "opens_to L V path cm ce cs \<longleftrightarrow>
     (\<exists>db m e s. sled_open L path = Ok db \<and>
        db ''meta'' = Ok m \<and> db ''entries'' = Ok e \<and> db ''snapshots'' = Ok s \<and>
        V m = cm \<and> V e = ce \<and> V s = cs)"

lemma disk_open_ok:
  assumes ok: "disk_ok L V D" and inv: "disk_inv L V s"
    and op: "opens_to L V path (V (meta_tree s)) (V (entries_tree s)) (V (snapshots_tree s))"
  shows "\<exists>t. disk_open L path = Ok t \<and> disk_abs L V t = disk_abs L V s \<and> disk_inv L V t"
proof -
  obtain db m e sn where db: "sled_open L path = Ok db" "db ''meta'' = Ok m"
    "db ''entries'' = Ok e" "db ''snapshots'' = Ok sn"
    "V m = V (meta_tree s)" "V e = V (entries_tree s)" "V sn = V (snapshots_tree s)"
    using op unfolding opens_to_def by blast
  let ?t = "\<lparr>meta_tree = m, entries_tree = e, snapshots_tree = sn, ds_applied = ds_applied s\<rparr>"
  have "(case V m applied_index_key of
      Some b \<Rightarrow> bindR (decode_u64 L b) (\<lambda>(index, n). Ok index) | None \<Rightarrow> Ok 0) =
      Ok (sp_applied (disk_abs L V s))"
    using inv
    by (cases "V (meta_tree s) applied_index_key")
      (auto simp: db disk_inv_def is_ok_iff disk_abs_def decode_index_def)
  then have "disk_open L path = Ok ?t"
    using inv by (simp add: disk_open_def db sled_steps(4) [OF ok] disk_inv_def)
  moreover have "disk_abs L V ?t = disk_abs L V s"
    by (simp add: disk_abs_def db)
  moreover from this have "disk_inv L V ?t"
    using inv by (simp add: disk_inv_def db entries_inv_def)
  ultimately show ?thesis by blast
qed

section \<open>Properties\<close>

text \<open>
  Keys: reading a key gives back the index it was made from, no two indices share a
  key, and the byte order of the keys, which is sled's iteration order, is the order of
  the indices.
\<close>

theorem index_keys_ordered:
  "key_to_index (index_to_key i) = Some i \<and>
   (index_to_key i = index_to_key j \<longleftrightarrow> i = j) \<and>
   (index_to_key i < index_to_key j \<longleftrightarrow> i < j) \<and>
   (key_to_index k = Some i \<longleftrightarrow> k = index_to_key i)"
  using key_to_index_Some by (auto simp: index_to_key_less)

text \<open>
  C10. Every history of appends, snapshots, hard states, configurations, applied indices
  and compactions succeeds and leaves the store in the state that the abstract store
  reaches by the same history, with everything flushed.
\<close>

theorem disk_run_refines:
  assumes "disk_ok L V D" and "disk_inv L V s" and "disk_durable V D s"
  shows "\<exists>s'. disk_run L ws s = (Ok (), s') \<and>
              disk_abs L V s' = fold spec_write_step ws (disk_abs L V s) \<and>
              disk_inv L V s' \<and> disk_durable V D s'"
  by (rule disk_run_ok [OF assms])

theorem disk_run_refines_witness:
  "\<exists>s'. disk_run (sample_disk_libs (\<lambda>_. [])) [WHardState \<lparr>hs_term = 3, hs_vote = 1, hs_commit = 2\<rparr>,
            WApplied 2] sample_fresh = (Ok (), s') \<and>
        sp_hard (disk_abs (sample_disk_libs (\<lambda>_. [])) map_of s') =
          \<lparr>hs_term = 3, hs_vote = 1, hs_commit = 2\<rparr> \<and>
        sp_applied (disk_abs (sample_disk_libs (\<lambda>_. [])) map_of s') = 2"
  using disk_run_refines [OF sample_disk_ok sample_fresh_inv sample_fresh_durable,
      of "\<lambda>_. []" "[WHardState \<lparr>hs_term = 3, hs_vote = 1, hs_commit = 2\<rparr>, WApplied 2]"]
  by auto

text \<open>
  C6. Crash recovery: after any history of writes, a crash that leaves of each tree what
  is durable, and a new \<open>open\<close>, the storage found has the same log, snapshot, hard
  state, configuration and applied index, and \<open>initial_state\<close> reports the last hard
  state and configuration written.
\<close>

theorem crash_recovery:
  assumes "disk_ok L V D" and "disk_inv L V s" and "disk_durable V D s"
    and "disk_run L ws s = (Ok (), s')"
    and "opens_to L V path (D (meta_tree s')) (D (entries_tree s')) (D (snapshots_tree s'))"
  shows "\<exists>t. disk_open L path = Ok t \<and>
             disk_abs L V t = fold spec_write_step ws (disk_abs L V s) \<and>
             disk_applied_index t = sp_applied (fold spec_write_step ws (disk_abs L V s)) \<and>
             disk_initial_state L t =
               Ok (sp_hard (fold spec_write_step ws (disk_abs L V s)),
                   sp_conf (fold spec_write_step ws (disk_abs L V s)))"
proof -
  have s': "disk_abs L V s' = fold spec_write_step ws (disk_abs L V s)" "disk_inv L V s'"
    "disk_durable V D s'"
    using disk_run_ok [OF assms(1-3), of ws] assms(4) by auto
  have "opens_to L V path (V (meta_tree s')) (V (entries_tree s')) (V (snapshots_tree s'))"
    using assms(5) s'(3) by (simp add: disk_durable_def)
  from disk_open_ok [OF assms(1) s'(2) this] obtain t where
    t: "disk_open L path = Ok t" "disk_abs L V t = disk_abs L V s'" "disk_inv L V t"
    by blast
  then show ?thesis
    using disk_initial_state_abs [OF assms(1) t(3)] s'(1)
    by (simp add: disk_applied_index_def disk_inv_def)
qed

theorem crash_recovery_witness:
  "let img = (\<lambda>name. if name = ''meta'' then [(applied_index_key, flat_enc [show_u64 7])] else []);
       L = sample_disk_libs img in
   \<exists>s'. disk_run L [WApplied 7] sample_fresh = (Ok (), s') \<and>
        (\<exists>t. disk_open L ''data'' = Ok t \<and> disk_applied_index t = 7)"
proof -
  define img :: "string \<Rightarrow> sample_tree" where
    "img = (\<lambda>name. if name = ''meta'' then [(applied_index_key, flat_enc [show_u64 7])] else [])"
  let ?L = "sample_disk_libs img"
  let ?s = "sample_fresh\<lparr>ds_applied := 7, meta_tree := [(applied_index_key, flat_enc [show_u64 7])]\<rparr>"
  have run: "disk_run ?L [WApplied 7] sample_fresh = (Ok (), ?s)"
    by (simp del: flat_enc.simps
        add: disk_set_applied_index_def bindO_def on_meta_def sample_disk_defs sample_fresh_def)
  have "opens_to ?L map_of ''data'' (map_of (meta_tree ?s)) (map_of (entries_tree ?s))
      (map_of (snapshots_tree ?s))"
    by (simp del: flat_enc.simps add: opens_to_def sample_disk_defs img_def sample_fresh_def)
  from crash_recovery [OF sample_disk_ok sample_fresh_inv sample_fresh_durable run this] run
  show ?thesis by (auto simp: img_def [symmetric] Let_def)
qed

text \<open>
  C23. \<open>entries(low, high, max_size)\<close> returns a run of consecutive entries that starts
  at \<open>low\<close>, all of them in the log; the run stops before \<open>high\<close> only where the log has
  no entry or where, with at least one entry in hand, the next would take it over
  \<open>max_size\<close>; a run of more than one entry is within \<open>max_size\<close>. The only error is
  \<open>Compacted\<close>, for an index that is missing and not above the snapshot; nothing panics.
\<close>

theorem disk_entries_spec:
  assumes "disk_ok L V D" and "disk_inv L V s"
  shows "case disk_entries L s low high max_size of
     Ok es \<Rightarrow> run_from L (disk_abs L V s) (case max_size of Some m \<Rightarrow> m | None \<Rightarrow> - 1)
                (index_range low high) [] es
   | Err e \<Rightarrow> e = Store Compacted \<and>
       (\<exists>i. low \<le> i \<and> i < high \<and> sp_log (disk_abs L V s) i = None \<and>
            (\<exists>sn. sp_snap (disk_abs L V s) = Some sn \<and> i \<le> snap_index sn))
   | Panic \<Rightarrow> False"
  using entries_loop_spec [OF assms refl, of 0 "[]" "case max_size of Some m \<Rightarrow> m | None \<Rightarrow> - 1"
      "index_range low high"]
  by (auto simp: disk_entries_def index_range_mem split: result.splits)

theorem disk_entries_spec_witness:
  "let L = sample_disk_libs (\<lambda>_. []) in
   disk_entries L sample_fresh 1 3 None = Ok [] \<and>
   run_from L (disk_abs L map_of sample_fresh) (- 1) (index_range 1 3) [] []"
proof -
  have "disk_entries (sample_disk_libs (\<lambda>_. [])) sample_fresh 1 3 None = Ok []"
    by (simp add: disk_entries_def index_range_def upt_rec get_entry_def get_latest_snapshot_def
        sample_disk_defs sample_fresh_def)
  then show ?thesis
    using disk_entries_spec [OF sample_disk_ok [of "\<lambda>_. []"] sample_fresh_inv, where low = 1 and high = 3 and max_size = None]
    by (simp add: Let_def)
qed

text \<open>
  C24. The other reads are those of the abstract store: \<open>term\<close> of the snapshot, of an
  entry, or the error that says whether the index was compacted or never stored; the
  first index follows the snapshot, or is the least in the log; the last is the greatest
  in the log, or the snapshot's; the snapshot and the initial state are the stored ones.
\<close>

theorem disk_reads_refine:
  assumes "disk_ok L V D" and "disk_inv L V s"
  shows "disk_term L s idx = spec_term (disk_abs L V s) idx \<and>
    disk_first_index L s = Ok (spec_first_index (disk_abs L V s)) \<and>
    disk_last_index L s = Ok (spec_last_index (disk_abs L V s)) \<and>
    disk_snapshot L s r t =
      Ok (case sp_snap (disk_abs L V s) of Some sn \<Rightarrow> sn | None \<Rightarrow> snapshot_default) \<and>
    disk_initial_state L s = Ok (sp_hard (disk_abs L V s), sp_conf (disk_abs L V s))"
  using assms
  by (simp add: disk_term_abs disk_first_index_abs disk_last_index_abs disk_snapshot_abs
      disk_initial_state_abs)

theorem disk_reads_refine_witness:
  "disk_first_index (sample_disk_libs (\<lambda>_. [])) sample_fresh = Ok 1 \<and>
   disk_last_index (sample_disk_libs (\<lambda>_. [])) sample_fresh = Ok 0 \<and>
   disk_term (sample_disk_libs (\<lambda>_. [])) sample_fresh 1 = Err (Store Unavailable)"
  using disk_reads_refine [OF sample_disk_ok [of "\<lambda>_. []"] sample_fresh_inv, where idx = 1]
  by (simp add: spec_first_index_def spec_last_index_def spec_term_def)

text \<open>
  C25. Once a snapshot is applied, the log it covers is gone and the rest is untouched:
  the first index is the one after the snapshot, the term at the snapshot's index is the
  snapshot's, everything below reads \<open>Compacted\<close>, every entry above is still there,
  and the configuration is the snapshot's.
\<close>

theorem disk_snapshot_effect:
  assumes "disk_ok L V D" and "disk_inv L V s"
  shows "\<exists>s'. disk_apply_snapshot L snap s = (Ok (), s') \<and>
    disk_first_index L s' = Ok (snap_index snap + 1) \<and>
    disk_term L s' (snap_index snap) = Ok (snap_term snap) \<and>
    (\<forall>i < snap_index snap. disk_term L s' i = Err (Store Compacted)) \<and>
    (\<forall>i > snap_index snap. get_entry L s' i = get_entry L s i) \<and>
    (\<forall>i \<le> snap_index snap. get_entry L s' i = Ok None) \<and>
    disk_snapshot L s' r t = Ok snap \<and>
    disk_initial_state L s' =
      Ok (sp_hard (disk_abs L V s), get_conf_state (get_metadata snap))"
proof -
  obtain s' where s': "disk_apply_snapshot L snap s = (Ok (), s')"
    "disk_abs L V s' = spec_apply_snapshot snap (disk_abs L V s)" "disk_inv L V s'"
    using disk_apply_snapshot_refines [OF assms] by blast
  show ?thesis
    by (rule exI [of _ s'])
      (auto simp: s'(1,2) disk_first_index_abs [OF assms(1) s'(3)] disk_term_abs [OF assms(1) s'(3)]
        get_entry_abs [OF assms(1) s'(3)] get_entry_abs [OF assms] disk_snapshot_abs [OF assms(1) s'(3)]
        disk_initial_state_abs [OF assms(1) s'(3)] spec_apply_snapshot_def spec_compact_def
        spec_first_index_def spec_term_def)
qed

theorem disk_snapshot_effect_witness:
  "\<exists>s'. disk_apply_snapshot (sample_disk_libs (\<lambda>_. []))
          \<lparr>sn_data = [], sn_metadata = Some \<lparr>md_conf_state = None, md_index = 4, md_term = 2\<rparr>\<rparr>
          sample_fresh = (Ok (), s') \<and>
        disk_first_index (sample_disk_libs (\<lambda>_. [])) s' = Ok 5 \<and>
        disk_term (sample_disk_libs (\<lambda>_. [])) s' 3 = Err (Store Compacted)"
proof -
  let ?snap = "\<lparr>sn_data = [], sn_metadata = Some \<lparr>md_conf_state = None, md_index = 4, md_term = 2\<rparr>\<rparr>"
  let ?L = "sample_disk_libs (\<lambda>_. [])"
  have i: "snap_index ?snap = 4" by (simp add: get_metadata_def)
  obtain s' where "disk_apply_snapshot ?L ?snap sample_fresh = (Ok (), s')"
    "disk_first_index ?L s' = Ok (snap_index ?snap + 1)"
    "\<forall>i < snap_index ?snap. disk_term ?L s' i = Err (Store Compacted)"
    using disk_snapshot_effect [OF sample_disk_ok [of "\<lambda>_. []"] sample_fresh_inv, of ?snap] by blast
  then show ?thesis unfolding i by (intro exI [of _ s']) simp
qed

text \<open>
  C34. An append overwrites the indices it brings and nothing else: an entry at any other
  index stays, also one above the last index appended. A follower whose log diverged
  therefore keeps the stale suffix that the new leader's entries replace, and the last
  index of the log does not go down to the last entry appended.
\<close>

theorem append_keeps_old_suffix:
  assumes "disk_ok L V D" and "disk_inv L V s" and "disk_durable V D s"
    and "get_entry L s j = Ok (Some old)" and "j \<notin> e_index ` set es"
  shows "\<exists>s' m. disk_append L es s = (Ok (), s') \<and>
    get_entry L s' j = Ok (Some old) \<and> disk_last_index L s' = Ok m \<and> j \<le> m"
proof -
  obtain s' where s': "disk_append L es s = (Ok (), s')"
    "disk_abs L V s' = spec_append es (disk_abs L V s)" "disk_inv L V s'"
    using disk_append_refines [OF assms(1-3)] by blast
  have "sp_log (disk_abs L V s) j = Some old"
    using assms(4) get_entry_abs [OF assms(1,2)] by simp
  then have j: "sp_log (disk_abs L V s') j = Some old"
    using assms(5) by (simp add: s'(2) spec_append_def upd_all_other)
  have "j \<le> spec_last_index (disk_abs L V s')"
    using j by (auto simp: spec_last_index_def intro: Max_ge)
  with s'(1) j show ?thesis
    using get_entry_abs [OF assms(1) s'(3)] disk_last_index_abs [OF assms(1) s'(3)] by auto
qed

definition sample_entry :: "u64 \<Rightarrow> u64 \<Rightarrow> entry" where
  "sample_entry i t = \<lparr>e_type = EntryNormal, e_term = t, e_index = i, e_data = [], e_context = []\<rparr>"

theorem append_keeps_old_suffix_witness:
  "\<exists>s s' m. disk_append (sample_disk_libs (\<lambda>_. []))
       [sample_entry 1 1, sample_entry 2 1, sample_entry 3 1] sample_fresh = (Ok (), s) \<and>
     disk_append (sample_disk_libs (\<lambda>_. [])) [sample_entry 2 2] s = (Ok (), s') \<and>
     get_entry (sample_disk_libs (\<lambda>_. [])) s' 3 = Ok (Some (sample_entry 3 1)) \<and>
     disk_last_index (sample_disk_libs (\<lambda>_. [])) s' = Ok m \<and> 3 \<le> m"
proof -
  let ?L = "sample_disk_libs (\<lambda>_. [])"
  obtain s where s: "disk_append ?L [sample_entry 1 1, sample_entry 2 1, sample_entry 3 1]
      sample_fresh = (Ok (), s)"
    "disk_abs ?L map_of s = spec_append [sample_entry 1 1, sample_entry 2 1, sample_entry 3 1]
      (disk_abs ?L map_of sample_fresh)" "disk_inv ?L map_of s"
    using disk_append_refines [OF sample_disk_ok sample_fresh_inv sample_fresh_durable] by blast
  have "get_entry ?L s 3 = Ok (Some (sample_entry 3 1))"
    using get_entry_abs [OF sample_disk_ok s(3)] by (simp add: s(2) spec_append_def sample_entry_def)
  from append_keeps_old_suffix [OF sample_disk_ok s(3) sample_fresh_durable this, of "[sample_entry 2 2]"] s(1)
  show ?thesis by (auto simp: sample_entry_def)
qed

text \<open>
  Compaction and the first index: with a snapshot stored (a storage initialised by
  \<open>initialize_with_conf_state\<close> has one, of index 0), the first index is the one after
  the snapshot whatever was compacted: above it, indices that are in the range the store
  announces have lost their entry, and their term reads \<open>Unavailable\<close>.
\<close>

theorem compact_leaves_first_index:
  assumes "disk_ok L V D" and "disk_inv L V s" and "disk_durable V D s"
    and "disk_snapshot L s 0 0 = Ok sn" and "sp_snap (disk_abs L V s) \<noteq> None"
  shows "\<exists>s'. disk_compact L limit s = (Ok (), s') \<and>
    disk_first_index L s' = Ok (snap_index sn + 1) \<and>
    (\<forall>i \<le> limit. get_entry L s' i = Ok None \<and>
       (snap_index sn < i \<longrightarrow> disk_term L s' i = Err (Store Unavailable)))"
proof -
  obtain s' where s': "disk_compact L limit s = (Ok (), s')"
    "disk_abs L V s' = spec_compact limit (disk_abs L V s)" "disk_inv L V s'"
    using disk_compact_refines [OF assms(1-3)] by blast
  have "sp_snap (disk_abs L V s) = Some sn"
    using assms(4,5) disk_snapshot_abs [OF assms(1,2)] by auto
  then show ?thesis
    by (intro exI [of _ s'])
      (auto simp: s'(1,2) disk_first_index_abs [OF assms(1) s'(3)] get_entry_abs [OF assms(1) s'(3)]
        disk_term_abs [OF assms(1) s'(3)] spec_compact_def spec_first_index_def spec_term_def)
qed

theorem compact_leaves_first_index_witness:
  "\<exists>s s'. disk_apply_snapshot (sample_disk_libs (\<lambda>_. []))
        \<lparr>sn_data = [], sn_metadata = Some snapshot_metadata_default\<rparr> sample_fresh = (Ok (), s) \<and>
     disk_compact (sample_disk_libs (\<lambda>_. [])) 2 s = (Ok (), s') \<and>
     disk_first_index (sample_disk_libs (\<lambda>_. [])) s' = Ok 1 \<and>
     disk_term (sample_disk_libs (\<lambda>_. [])) s' 2 = Err (Store Unavailable)"
proof -
  let ?snap = "\<lparr>sn_data = [], sn_metadata = Some snapshot_metadata_default\<rparr>"
  let ?L = "sample_disk_libs (\<lambda>_. [])"
  have i: "snap_index ?snap = 0" by (simp add: get_metadata_def snapshot_metadata_default_def)
  obtain s where s: "disk_apply_snapshot ?L ?snap sample_fresh = (Ok (), s)"
    "disk_abs ?L map_of s = spec_apply_snapshot ?snap (disk_abs ?L map_of sample_fresh)"
    "disk_inv ?L map_of s"
    using disk_apply_snapshot_refines [OF sample_disk_ok [of "\<lambda>_. []"] sample_fresh_inv] by blast
  have sn: "sp_snap (disk_abs ?L map_of s) = Some ?snap"
    by (simp add: s(2) spec_apply_snapshot_def)
  then have "disk_snapshot ?L s 0 0 = Ok ?snap"
    by (simp add: disk_snapshot_abs [OF sample_disk_ok s(3)])
  from compact_leaves_first_index [OF sample_disk_ok s(3) sample_fresh_durable this, of 2] sn
  obtain s' where s': "disk_compact ?L 2 s = (Ok (), s')"
    "disk_first_index ?L s' = Ok (snap_index ?snap + 1)"
    "\<forall>i \<le> 2. get_entry ?L s' i = Ok None \<and>
       (snap_index ?snap < i \<longrightarrow> disk_term ?L s' i = Err (Store Unavailable))"
    by blast
  then have "disk_term ?L s' 2 = Err (Store Unavailable)" unfolding i by simp
  with s s' show ?thesis unfolding i by auto
qed

end
