(* ===== verification/Raft_Storage.thy ===== *)
theory Raft_Storage
  imports Disk_Properties
begin

text \<open>
  The storage the raft node runs on, \<^verbatim>\<open>crates/raft-core/src/storage.rs\<close>: in memory
  (\<open>MemStorage\<close> of the raft crate, a parameter, with an applied index beside it) or on
  disk. The interface \<open>applied_store\<close> is what the ready loop relies on when it applies
  entries; it holds of the enum as a whole.
\<close>

section \<open>The libraries\<close>

text \<open>
  The operations of \<open>MemStorage\<close>. \<open>initialize_with_conf_state\<close> and the writes may
  panic (the crate asserts), so they return a result. \<open>get_entries_context\<close> is passed
  on unread.
\<close>

typedecl get_entries_context

record ('t, 'm) store_libs = "'t disk_libs" +
  mem_new :: 'm
  mem_new_with_conf_state :: "conf_state \<Rightarrow> 'm"
  mem_initialize_with_conf_state :: "conf_state \<Rightarrow> ('m, unit, raft_error) op"
  mem_append :: "entry list \<Rightarrow> ('m, unit, raft_error) op"
  mem_apply_snapshot :: "snapshot \<Rightarrow> ('m, unit, raft_error) op"
  mem_set_hardstate :: "hard_state \<Rightarrow> 'm \<Rightarrow> 'm"
  mem_set_conf_state :: "conf_state \<Rightarrow> 'm \<Rightarrow> 'm"
  mem_compact :: "u64 \<Rightarrow> ('m, unit, raft_error) op"
  mem_initial_state :: "'m \<Rightarrow> (hard_state \<times> conf_state, raft_error) result"
  mem_entries :: "'m \<Rightarrow> u64 \<Rightarrow> u64 \<Rightarrow> u64 option \<Rightarrow> get_entries_context \<Rightarrow>
    (entry list, raft_error) result"
  mem_term :: "'m \<Rightarrow> u64 \<Rightarrow> (u64, raft_error) result"
  mem_first_index :: "'m \<Rightarrow> (u64, raft_error) result"
  mem_last_index :: "'m \<Rightarrow> (u64, raft_error) result"
  mem_snapshot :: "'m \<Rightarrow> u64 \<Rightarrow> u64 \<Rightarrow> (snapshot, raft_error) result"

text \<open>What the crate documents of \<open>MemStorage\<close> and the loop relies on.\<close>

definition mem_ok :: "('t, 'm, 'z) store_libs_scheme \<Rightarrow> bool" where
  "mem_ok L \<longleftrightarrow>
     (\<forall>m. is_ok (mem_initial_state L m)) \<and>
     (\<forall>m cs hs cs0. mem_initial_state L m = Ok (hs, cs0) \<longrightarrow>
        mem_initial_state L (mem_set_conf_state L cs m) = Ok (hs, cs)) \<and>
     (\<forall>m hs hs0 cs. mem_initial_state L m = Ok (hs0, cs) \<longrightarrow>
        mem_initial_state L (mem_set_hardstate L hs m) = Ok (hs, cs))"

section \<open>State and constructors\<close>

datatype ('t, 'm) raft_storage = Memory 'm u64 | Disk "'t disk_storage"

definition storage_new :: "('t, 'm, 'z) store_libs_scheme \<Rightarrow> ('t, 'm) raft_storage" where
  "storage_new L = Memory (mem_new L) 0"

definition storage_new_with_conf_state ::
    "('t, 'm, 'z) store_libs_scheme \<Rightarrow> conf_state \<Rightarrow> ('t, 'm) raft_storage" where
  "storage_new_with_conf_state L cs = Memory (mem_new_with_conf_state L cs) 0"

definition storage_new_with_disk ::
    "('t, 'm, 'z) store_libs_scheme \<Rightarrow> string \<Rightarrow> (('t, 'm) raft_storage, string) result" where
  "storage_new_with_disk L path = bindR (disk_open L path) (\<lambda>d. Ok (Disk d))"

section \<open>Dispatch\<close>

text \<open>An operation of one of the two variants, on the enum.\<close>

definition on_mem ::
    "('m, 'a, 'e) op \<Rightarrow> 'm \<Rightarrow> u64 \<Rightarrow> ('a, 'e) result \<times> ('t, 'm) raft_storage" where
  "on_mem f inner applied = (case f inner of (r, inner') \<Rightarrow> (r, Memory inner' applied))"

definition on_disk ::
    "('t disk_storage, 'a, 'e) op \<Rightarrow> 't disk_storage \<Rightarrow>
     ('a, 'e) result \<times> ('t, 'm) raft_storage" where
  "on_disk f d = (case f d of (r, d') \<Rightarrow> (r, Disk d'))"

section \<open>Writes\<close>

text \<open>
  On disk, the configuration is stored only where none is: as a snapshot of index 0. The
  errors of that write, and of reading the initial state, are ignored; a panic is not.
\<close>

definition disk_initialize ::
    "('t, 'm, 'z) store_libs_scheme \<Rightarrow> conf_state \<Rightarrow> ('t disk_storage, unit, raft_error) op" where
  "disk_initialize L cs d =
     (case disk_initial_state L d of
        Ok (hs, conf) \<Rightarrow>
          if voters conf = [] then
            (case disk_apply_snapshot L
                    \<lparr>sn_data = [],
                     sn_metadata = Some \<lparr>md_conf_state = Some cs, md_index = 0, md_term = 0\<rparr>\<rparr> d of
               (Panic, d') \<Rightarrow> (Panic, d')
             | (r, d') \<Rightarrow> (Ok (), d'))
          else (Ok (), d)
      | Err e \<Rightarrow> (Ok (), d)
      | Panic \<Rightarrow> (Panic, d))"

fun storage_initialize_with_conf_state ::
    "('t, 'm, 'z) store_libs_scheme \<Rightarrow> conf_state \<Rightarrow> (('t, 'm) raft_storage, unit, raft_error) op" where
  "storage_initialize_with_conf_state L cs (Memory inner applied) =
     on_mem (mem_initialize_with_conf_state L cs) inner applied"
| "storage_initialize_with_conf_state L cs (Disk d) = on_disk (disk_initialize L cs) d"

fun storage_applied_index :: "('t, 'm) raft_storage \<Rightarrow> u64" where
  "storage_applied_index (Memory inner applied) = applied"
| "storage_applied_index (Disk d) = disk_applied_index d"

fun storage_set_applied_index ::
    "('t, 'm, 'z) store_libs_scheme \<Rightarrow> u64 \<Rightarrow> (('t, 'm) raft_storage, unit, raft_error) op" where
  "storage_set_applied_index L index (Memory inner applied) = (Ok (), Memory inner index)"
| "storage_set_applied_index L index (Disk d) = on_disk (disk_set_applied_index L index) d"

fun storage_append ::
    "('t, 'm, 'z) store_libs_scheme \<Rightarrow> entry list \<Rightarrow> (('t, 'm) raft_storage, unit, raft_error) op" where
  "storage_append L es (Memory inner applied) = on_mem (mem_append L es) inner applied"
| "storage_append L es (Disk d) = on_disk (disk_append L es) d"

fun storage_apply_snapshot ::
    "('t, 'm, 'z) store_libs_scheme \<Rightarrow> snapshot \<Rightarrow> (('t, 'm) raft_storage, unit, raft_error) op" where
  "storage_apply_snapshot L snap (Memory inner applied) =
     on_mem (mem_apply_snapshot L snap) inner applied"
| "storage_apply_snapshot L snap (Disk d) = on_disk (disk_apply_snapshot L snap) d"

fun storage_set_hardstate ::
    "('t, 'm, 'z) store_libs_scheme \<Rightarrow> hard_state \<Rightarrow> (('t, 'm) raft_storage, unit, raft_error) op" where
  "storage_set_hardstate L hs (Memory inner applied) =
     (Ok (), Memory (mem_set_hardstate L hs inner) applied)"
| "storage_set_hardstate L hs (Disk d) = on_disk (disk_set_hardstate L hs) d"

fun storage_set_conf_state ::
    "('t, 'm, 'z) store_libs_scheme \<Rightarrow> conf_state \<Rightarrow> (('t, 'm) raft_storage, unit, raft_error) op" where
  "storage_set_conf_state L cs (Memory inner applied) =
     (Ok (), Memory (mem_set_conf_state L cs inner) applied)"
| "storage_set_conf_state L cs (Disk d) = on_disk (disk_set_conf_state L cs) d"

fun storage_compact ::
    "('t, 'm, 'z) store_libs_scheme \<Rightarrow> u64 \<Rightarrow> (('t, 'm) raft_storage, unit, raft_error) op" where
  "storage_compact L i (Memory inner applied) = on_mem (mem_compact L i) inner applied"
| "storage_compact L i (Disk d) = on_disk (disk_compact L i) d"

section \<open>Reads\<close>

fun storage_initial_state ::
    "('t, 'm, 'z) store_libs_scheme \<Rightarrow> ('t, 'm) raft_storage \<Rightarrow>
     (hard_state \<times> conf_state, raft_error) result" where
  "storage_initial_state L (Memory inner applied) = mem_initial_state L inner"
| "storage_initial_state L (Disk d) = disk_initial_state L d"

fun storage_entries ::
    "('t, 'm, 'z) store_libs_scheme \<Rightarrow> ('t, 'm) raft_storage \<Rightarrow> u64 \<Rightarrow> u64 \<Rightarrow> u64 option \<Rightarrow>
     get_entries_context \<Rightarrow> (entry list, raft_error) result" where
  "storage_entries L (Memory inner applied) low high max_size context =
     mem_entries L inner low high max_size context"
| "storage_entries L (Disk d) low high max_size context = disk_entries L d low high max_size"

fun storage_term ::
    "('t, 'm, 'z) store_libs_scheme \<Rightarrow> ('t, 'm) raft_storage \<Rightarrow> u64 \<Rightarrow> (u64, raft_error) result" where
  "storage_term L (Memory inner applied) idx = mem_term L inner idx"
| "storage_term L (Disk d) idx = disk_term L d idx"

fun storage_first_index ::
    "('t, 'm, 'z) store_libs_scheme \<Rightarrow> ('t, 'm) raft_storage \<Rightarrow> (u64, raft_error) result" where
  "storage_first_index L (Memory inner applied) = mem_first_index L inner"
| "storage_first_index L (Disk d) = disk_first_index L d"

fun storage_last_index ::
    "('t, 'm, 'z) store_libs_scheme \<Rightarrow> ('t, 'm) raft_storage \<Rightarrow> (u64, raft_error) result" where
  "storage_last_index L (Memory inner applied) = mem_last_index L inner"
| "storage_last_index L (Disk d) = disk_last_index L d"

fun storage_snapshot ::
    "('t, 'm, 'z) store_libs_scheme \<Rightarrow> ('t, 'm) raft_storage \<Rightarrow> u64 \<Rightarrow> u64 \<Rightarrow>
     (snapshot, raft_error) result" where
  "storage_snapshot L (Memory inner applied) request_index to = mem_snapshot L inner request_index to"
| "storage_snapshot L (Disk d) request_index to = disk_snapshot L d request_index to"

section \<open>The interface of the ready loop\<close>

text \<open>
  \<open>lib\<close> is that the libraries behave; then marking an index applied and storing a
  configuration succeed, are read back and leave everything else alone (\<open>log\<close>: the rest
  of the store's content).
\<close>

locale applied_store =
  fixes lib :: bool
    and inv :: "'s \<Rightarrow> bool"
    and applied :: "'s \<Rightarrow> u64"
    and initial :: "'s \<Rightarrow> (hard_state \<times> conf_state, raft_error) result"
    and log :: "'s \<Rightarrow> 'v"
    and set_applied :: "u64 \<Rightarrow> ('s, unit, raft_error) op"
    and set_conf :: "conf_state \<Rightarrow> ('s, unit, raft_error) op"
  assumes initial_ok: "lib \<Longrightarrow> inv s \<Longrightarrow> is_ok (initial s)"
    and set_applied_ok: "lib \<Longrightarrow> inv s \<Longrightarrow>
      \<exists>s'. set_applied i s = (Ok (), s') \<and> inv s' \<and> applied s' = i \<and>
           initial s' = initial s \<and> log s' = log s"
    and set_conf_ok: "lib \<Longrightarrow> inv s \<Longrightarrow> initial s = Ok (hs, cs0) \<Longrightarrow>
      \<exists>s'. set_conf cs s = (Ok (), s') \<and> inv s' \<and> applied s' = applied s \<and>
           initial s' = Ok (hs, cs) \<and> log s' = log s"
begin

lemma set_applied_total: "lib \<Longrightarrow> inv s \<Longrightarrow> set_applied i s = (Ok (), snd (set_applied i s))"
  using set_applied_ok [of s i] by auto

lemma set_applied_read:
  "lib \<Longrightarrow> inv s \<Longrightarrow> applied (snd (set_applied i s)) = i"
  "lib \<Longrightarrow> inv s \<Longrightarrow> inv (snd (set_applied i s))"
  "lib \<Longrightarrow> inv s \<Longrightarrow> initial (snd (set_applied i s)) = initial s"
  using set_applied_ok [of s i] by auto

text \<open>Storing a configuration and then marking the entry that brought it.\<close>

lemma set_conf_applied:
  assumes "lib" and "inv s"
  shows "\<exists>s' hs cs0. initial s = Ok (hs, cs0) \<and>
    bindO (set_conf cs) (\<lambda>_. set_applied i) s = (Ok (), s') \<and>
    inv s' \<and> applied s' = i \<and> initial s' = Ok (hs, cs) \<and> log s' = log s"
proof -
  obtain hs cs0 where i0: "initial s = Ok (hs, cs0)"
    using initial_ok [OF assms] by (auto simp: is_ok_iff)
  from set_conf_ok [OF assms i0, of cs] obtain t where
    t: "set_conf cs s = (Ok (), t)" "inv t" "initial t = Ok (hs, cs)" "log t = log s" by blast
  from set_applied_ok [OF assms(1) t(2), of i] obtain s' where
    "set_applied i t = (Ok (), s')" "inv s'" "applied s' = i" "initial s' = initial t"
    "log s' = log t" by blast
  with i0 t show ?thesis by auto
qed

end

definition storage_ok ::
    "('t, 'm, 'z) store_libs_scheme \<Rightarrow> ('t \<Rightarrow> bytes \<rightharpoonup> bytes) \<Rightarrow> ('t \<Rightarrow> bytes \<rightharpoonup> bytes) \<Rightarrow> bool" where
  "storage_ok L V D \<longleftrightarrow> disk_ok L V D \<and> mem_ok L"

fun storage_inv ::
    "('t, 'm, 'z) store_libs_scheme \<Rightarrow> ('t \<Rightarrow> bytes \<rightharpoonup> bytes) \<Rightarrow> ('t \<Rightarrow> bytes \<rightharpoonup> bytes) \<Rightarrow>
     ('t, 'm) raft_storage \<Rightarrow> bool" where
  "storage_inv L V D (Memory inner applied) \<longleftrightarrow> True"
| "storage_inv L V D (Disk d) \<longleftrightarrow> disk_inv L V d \<and> disk_durable V D d"

text \<open>The log and the snapshot of a disk store.\<close>

fun storage_log ::
    "('t, 'm, 'z) store_libs_scheme \<Rightarrow> ('t \<Rightarrow> bytes \<rightharpoonup> bytes) \<Rightarrow> ('t, 'm) raft_storage \<Rightarrow>
     ((u64 \<rightharpoonup> entry) \<times> snapshot option) option" where
  "storage_log L V (Memory inner applied) = None"
| "storage_log L V (Disk d) = Some (sp_log (disk_abs L V d), sp_snap (disk_abs L V d))"

lemma disk_abs_applied: "disk_inv L V d \<Longrightarrow> disk_applied_index d = sp_applied (disk_abs L V d)"
  by (simp add: disk_inv_def disk_applied_index_def)

lemma storage_set_applied_index_ok:
  assumes "storage_ok L V D" and "storage_inv L V D s"
  shows "\<exists>s'. storage_set_applied_index L i s = (Ok (), s') \<and> storage_inv L V D s' \<and>
    storage_applied_index s' = i \<and> storage_initial_state L s' = storage_initial_state L s \<and>
    storage_log L V s' = storage_log L V s"
proof (cases s)
  case (Memory inner applied)
  then show ?thesis by simp
next
  case (Disk d)
  have ok: "disk_ok L V D" and inv: "disk_inv L V d" "disk_durable V D d"
    using assms Disk by (auto simp: storage_ok_def)
  obtain d' where d': "disk_set_applied_index L i d = (Ok (), d')"
    "disk_abs L V d' = (disk_abs L V d)\<lparr>sp_applied := i\<rparr>" "disk_inv L V d'" "disk_durable V D d'"
    using disk_set_applied_index_refines [OF ok inv, of i] by blast
  then show ?thesis
    using disk_initial_state_abs [OF ok inv(1)] disk_initial_state_abs [OF ok d'(3)]
    by (simp add: Disk on_disk_def disk_abs_applied)
qed

lemma storage_set_conf_state_ok:
  assumes "storage_ok L V D" and "storage_inv L V D s"
    and "storage_initial_state L s = Ok (hs, cs0)"
  shows "\<exists>s'. storage_set_conf_state L cs s = (Ok (), s') \<and> storage_inv L V D s' \<and>
    storage_applied_index s' = storage_applied_index s \<and>
    storage_initial_state L s' = Ok (hs, cs) \<and> storage_log L V s' = storage_log L V s"
proof (cases s)
  case (Memory inner applied)
  then show ?thesis using assms by (auto simp: storage_ok_def mem_ok_def)
next
  case (Disk d)
  have ok: "disk_ok L V D" and inv: "disk_inv L V d" "disk_durable V D d"
    using assms Disk by (auto simp: storage_ok_def)
  obtain d' where d': "disk_set_conf_state L cs d = (Ok (), d')"
    "disk_abs L V d' = (disk_abs L V d)\<lparr>sp_conf := cs\<rparr>" "disk_inv L V d'" "disk_durable V D d'"
    using disk_set_conf_state_refines [OF ok inv, of cs] by blast
  then show ?thesis
    using disk_initial_state_abs [OF ok inv(1)] disk_initial_state_abs [OF ok d'(3)] assms(3) inv(1)
    by (simp add: Disk on_disk_def disk_abs_applied)
qed

lemma storage_initial_state_ok:
  assumes "storage_ok L V D" and "storage_inv L V D s"
  shows "is_ok (storage_initial_state L s)"
  using assms disk_initial_state_abs [of L V D]
  by (cases s) (auto simp: storage_ok_def mem_ok_def)

interpretation store:
  applied_store "storage_ok L V D" "storage_inv L V D" storage_applied_index
    "storage_initial_state L" "storage_log L V" "storage_set_applied_index L" "storage_set_conf_state L" for L V D
  by unfold_locales
    (fact storage_initial_state_ok storage_set_applied_index_ok storage_set_conf_state_ok)+

section \<open>Initialisation\<close>

lemma disk_initialize_known:
  assumes "disk_ok L V D" and "disk_inv L V d" and "voters (sp_conf (disk_abs L V d)) \<noteq> []"
  shows "disk_initialize L cs d = (Ok (), d)"
  using assms by (simp add: disk_initialize_def disk_initial_state_abs [OF assms(1,2)])

lemma disk_initialize_fresh:
  assumes ok: "disk_ok L V D" and inv: "disk_inv L V d" "disk_durable V D d"
    and fresh: "voters (sp_conf (disk_abs L V d)) = []"
  shows "\<exists>d'. disk_initialize L cs d = (Ok (), d') \<and> disk_inv L V d' \<and> disk_durable V D d' \<and>
    sp_conf (disk_abs L V d') = cs \<and> sp_hard (disk_abs L V d') = sp_hard (disk_abs L V d) \<and>
    sp_applied (disk_abs L V d') = sp_applied (disk_abs L V d) \<and>
    disk_first_index L d' = Ok 1 \<and> disk_term L d' 0 = Ok 0 \<and>
    (\<forall>i > 0. sp_log (disk_abs L V d') i = sp_log (disk_abs L V d) i)"
proof -
  let ?snap = "\<lparr>sn_data = [],
    sn_metadata = Some \<lparr>md_conf_state = Some cs, md_index = 0, md_term = 0\<rparr>\<rparr>"
  obtain d' where d': "disk_apply_snapshot L ?snap d = (Ok (), d')"
    "disk_abs L V d' = spec_apply_snapshot ?snap (disk_abs L V d)" "disk_inv L V d'"
    "disk_durable V D d'"
    using disk_apply_snapshot_refines [OF ok inv(1)] by blast
  have "disk_initialize L cs d = (Ok (), d')"
    using fresh by (simp add: disk_initialize_def disk_initial_state_abs [OF ok inv(1)] d'(1))
  with d' show ?thesis
    by (auto simp: disk_first_index_abs [OF ok d'(3)] disk_term_abs [OF ok d'(3)]
        spec_apply_snapshot_def spec_compact_def get_metadata_def get_conf_state_def
        spec_first_index_def spec_term_def)
qed

lemma disk_initialize_ok:
  assumes "disk_ok L V D" and "disk_inv L V d" and "disk_durable V D d"
  shows "\<exists>d'. disk_initialize L cs d = (Ok (), d') \<and> disk_inv L V d' \<and> disk_durable V D d' \<and>
    (disk_first_index L d = Ok 1 \<longrightarrow> disk_first_index L d' = Ok 1)"
proof (cases "voters (sp_conf (disk_abs L V d)) = []")
  case True
  with disk_initialize_fresh [OF assms(1-3)] show ?thesis by blast
next
  case False
  with disk_initialize_known [OF assms(1,2)] assms show ?thesis by auto
qed

section \<open>Sample libraries\<close>

text \<open>A \<open>MemStorage\<close> that keeps its log as a list, for the witnesses.\<close>

record sample_mem =
  sm_hard :: hard_state
  sm_conf :: conf_state
  sm_log :: "entry list"
  sm_snap :: snapshot

definition sample_mem_new :: sample_mem where
  "sample_mem_new = \<lparr>sm_hard = hard_state_default, sm_conf = conf_state_default, sm_log = [],
     sm_snap = snapshot_default\<rparr>"

definition sample_store_libs ::
    "(string \<Rightarrow> sample_tree) \<Rightarrow> (sample_tree, sample_mem) store_libs" where
  "sample_store_libs img = disk_libs.extend (sample_disk_libs img) (store_libs.fields
     sample_mem_new
     (\<lambda>cs. sample_mem_new\<lparr>sm_conf := cs\<rparr>)
     (\<lambda>cs m. (Ok (), m\<lparr>sm_conf := cs\<rparr>))
     (\<lambda>es m. (Ok (), m\<lparr>sm_log := filter (\<lambda>e. e_index e < (case es of [] \<Rightarrow> - 1 | x # _ \<Rightarrow> e_index x))
        (sm_log m) @ es\<rparr>))
     (\<lambda>sn m. (Ok (), m\<lparr>sm_snap := sn, sm_log := [], sm_conf := get_conf_state (get_metadata sn)\<rparr>))
     (\<lambda>hs m. m\<lparr>sm_hard := hs\<rparr>)
     (\<lambda>cs m. m\<lparr>sm_conf := cs\<rparr>)
     (\<lambda>i m. (Ok (), m\<lparr>sm_log := filter (\<lambda>e. i \<le> e_index e) (sm_log m)\<rparr>))
     (\<lambda>m. Ok (sm_hard m, sm_conf m))
     (\<lambda>m low high mx ctx. Ok (filter (\<lambda>e. low \<le> e_index e \<and> e_index e < high) (sm_log m)))
     (\<lambda>m i. case find (\<lambda>e. e_index e = i) (sm_log m) of Some e \<Rightarrow> Ok (e_term e) | None \<Rightarrow> Ok 0)
     (\<lambda>m. Ok (snap_index (sm_snap m) + 1))
     (\<lambda>m. Ok (case sm_log m of [] \<Rightarrow> snap_index (sm_snap m) | es \<Rightarrow> e_index (last es)))
     (\<lambda>m r t. Ok (sm_snap m)))"

lemmas sample_store_defs = sample_store_libs_def store_libs.defs disk_libs.defs

lemma disk_ok_extend: "disk_ok (disk_libs.extend r z) V D \<longleftrightarrow> disk_ok r V D"
  by (cases r) (simp add: disk_ok_def sled_sound_def sled_up_def proto_ok_def disk_libs.defs)

lemma decode_index_extend: "decode_index (disk_libs.extend r z) = decode_index r"
  by (cases r) (simp add: fun_eq_iff decode_index_def disk_libs.defs)

lemma disk_abs_extend: "disk_abs (disk_libs.extend r z) V d = disk_abs r V d"
  unfolding disk_abs_def decode_index_extend by (cases r) (simp add: disk_libs.defs)

lemma disk_inv_extend: "disk_inv (disk_libs.extend r z) V d \<longleftrightarrow> disk_inv r V d"
  unfolding disk_inv_def decode_index_extend disk_abs_extend
  by (cases r) (simp add: entries_inv_def disk_libs.defs)

lemma sample_mem_ok: "mem_ok (sample_store_libs img)"
  by (auto simp: mem_ok_def sample_store_defs)

lemma sample_storage_ok: "storage_ok (sample_store_libs img) map_of map_of"
  unfolding storage_ok_def using sample_mem_ok [of img]
  by (simp add: sample_store_libs_def disk_ok_extend sample_disk_ok)

lemma sample_storage_inv:
  "storage_inv (sample_store_libs img) map_of map_of (Disk sample_fresh)"
  by (simp add: sample_store_libs_def disk_inv_extend sample_fresh_inv sample_fresh_durable)

section \<open>Properties\<close>

text \<open>
  \<open>initialize_with_conf_state\<close> on disk: a store that has voters is not touched,
  whatever the configuration given, so a restart keeps the membership persisted; a store
  without voters takes the configuration, keeps its hard state, its applied index and its
  log above index 0, and announces first index 1 and term 0 at index 0; and once a
  non-empty configuration is stored, every later initialisation changes nothing.
\<close>

theorem initialize_only_once:
  assumes "storage_ok L V D" and "storage_inv L V D (Disk d)"
    and "voters cs \<noteq> []"
  shows "\<exists>d'. storage_initialize_with_conf_state L cs (Disk d) = (Ok (), Disk d') \<and>
    storage_inv L V D (Disk d') \<and>
    disk_applied_index d' = disk_applied_index d \<and>
    (if voters (sp_conf (disk_abs L V d)) \<noteq> [] then d' = d
     else sp_conf (disk_abs L V d') = cs \<and> sp_hard (disk_abs L V d') = sp_hard (disk_abs L V d) \<and>
       storage_first_index L (Disk d') = Ok 1 \<and> storage_term L (Disk d') 0 = Ok 0 \<and>
       (\<forall>i > 0. sp_log (disk_abs L V d') i = sp_log (disk_abs L V d) i)) \<and>
    (\<forall>cs'. storage_initialize_with_conf_state L cs' (Disk d') = (Ok (), Disk d'))"
proof -
  have ok: "disk_ok L V D" and inv: "disk_inv L V d" "disk_durable V D d"
    using assms by (auto simp: storage_ok_def)
  show ?thesis
  proof (cases "voters (sp_conf (disk_abs L V d)) = []")
    case True
    from disk_initialize_fresh [OF ok inv True, of cs] obtain d' where
      d': "disk_initialize L cs d = (Ok (), d')" "disk_inv L V d'" "disk_durable V D d'"
      "sp_conf (disk_abs L V d') = cs" "sp_hard (disk_abs L V d') = sp_hard (disk_abs L V d)"
      "sp_applied (disk_abs L V d') = sp_applied (disk_abs L V d)"
      "disk_first_index L d' = Ok 1" "disk_term L d' 0 = Ok 0"
      "\<forall>i > 0. sp_log (disk_abs L V d') i = sp_log (disk_abs L V d) i" by blast
    with True assms(3) inv show ?thesis
      by (intro exI [of _ d'])
        (simp add: on_disk_def disk_initialize_known [OF ok d'(2)] disk_abs_applied)
  next
    case False
    with inv show ?thesis
      by (intro exI [of _ d]) (simp add: on_disk_def disk_initialize_known [OF ok inv(1) False])
  qed
qed

theorem initialize_only_once_witness:
  "\<exists>d'. storage_initialize_with_conf_state (sample_store_libs (\<lambda>_. []))
          (conf_state_default\<lparr>voters := [1, 2, 3]\<rparr>) (Disk sample_fresh) = (Ok (), Disk d') \<and>
        sp_conf (disk_abs (sample_store_libs (\<lambda>_. [])) map_of d') =
          conf_state_default\<lparr>voters := [1, 2, 3]\<rparr> \<and>
        storage_initialize_with_conf_state (sample_store_libs (\<lambda>_. [])) conf_state_default (Disk d') =
          (Ok (), Disk d')"
proof -
  have "sp_conf (disk_abs (sample_store_libs (\<lambda>_. [])) map_of sample_fresh) = conf_state_default"
    by (simp add: sample_store_libs_def disk_abs_extend) (simp add: disk_abs_def sample_fresh_def)
  then show ?thesis
    using initialize_only_once [OF sample_storage_ok sample_storage_inv, of
        "conf_state_default\<lparr>voters := [1, 2, 3]\<rparr>" "\<lambda>_. []"]
    by (auto simp: conf_state_default_def)
qed

text \<open>
  The applied index, in memory and on disk: a write that succeeds is what is read
  next and survives in the store; it changes neither hard state nor configuration; and on
  disk it is visible to readers even when persisting it failed.
\<close>

theorem applied_index_spec:
  fixes L :: "('t, 'm, 'z) store_libs_scheme"
  assumes "storage_ok L V D" and "storage_inv L V D s"
  shows "\<exists>s'. storage_set_applied_index L i s = (Ok (), s') \<and> storage_inv L V D s' \<and>
    storage_applied_index s' = i \<and> storage_initial_state L s' = storage_initial_state L s \<and>
    (\<forall>(L' :: ('t, 'm, 'z) store_libs_scheme) j.
       storage_applied_index (snd (storage_set_applied_index L' j s)) = j)"
proof -
  have cached: "ds_applied (snd (disk_set_applied_index L' j d)) = j"
    for L' :: "('t, 'm, 'z) store_libs_scheme" and j and d :: "'t disk_storage"
    by (auto simp: disk_set_applied_index_def bindO_def on_meta_def split: prod.splits result.splits)
  have "storage_applied_index (snd (storage_set_applied_index L' j s)) = j"
    for L' :: "('t, 'm, 'z) store_libs_scheme" and j
  proof (cases s)
    case (Disk d)
    with cached [of L' j d] show ?thesis
      by (cases "disk_set_applied_index L' j d") (simp add: on_disk_def disk_applied_index_def)
  qed simp
  with store.set_applied_ok [OF assms, of i] show ?thesis by blast
qed

theorem applied_index_spec_witness:
  "\<exists>s'. storage_set_applied_index (sample_store_libs (\<lambda>_. [])) 9 (Disk sample_fresh) = (Ok (), s') \<and>
        storage_applied_index s' = 9"
  using applied_index_spec [OF sample_storage_ok sample_storage_inv, where i = 9] by blast

end
