(* ===== verification/Raft_Node.thy ===== *)
theory Raft_Node
  imports Raft_Storage
begin

text \<open>
  The wrapper around the raft crate's \<open>RawNode\<close>, \<^verbatim>\<open>crates/raft-core/src/raft_node.rs\<close>:
  the consensus state, the storage it owns and the callbacks of the proposals on their
  way, keyed by the random id that travels as the entry's context.

  \<open>RawNode\<close> is third-party code: its state is a type parameter and its operations are
  fields of \<open>raft_libs\<close>. It reads the storage (the \<open>Storage\<close> trait has no writing method)
  and never writes it, so an operation takes the storage as an argument and returns the
  new consensus state only. Panics inside the crate are not modelled.
\<close>

section \<open>The raft crate\<close>

text \<open>The fields of \<open>Config\<close> the code sets; all others keep the crate's defaults.\<close>

record raft_config =
  cfg_id :: u64
  cfg_heartbeat_tick :: nat
  cfg_election_tick :: nat
  cfg_check_quorum :: bool
  cfg_pre_vote :: bool

typedecl conf_change
typedecl conf_change_v2

datatype any_conf_change = ConfChangeV1 conf_change | ConfChangeV2 conf_change_v2

text \<open>\<open>Ready\<close> and \<open>LightReady\<close>: what the code takes from them.\<close>

record ready =
  ry_number :: u64
  ry_messages :: "message list"
  ry_snapshot :: snapshot
  ry_entries :: "entry list"
  ry_hs :: "hard_state option"
  ry_persisted_messages :: "message list"
  ry_committed_entries :: "entry list"

record light_ready =
  lr_commit_index :: "u64 option"
  lr_messages :: "message list"
  lr_committed_entries :: "entry list"

text \<open>\<open>uuid_v4 i\<close> is the \<open>i\<close>-th random id drawn.\<close>

record ('t, 'm, 'r) raft_libs = "('t, 'm) store_libs" +
  config_validate :: "raft_config \<Rightarrow> (unit, raft_error) result"
  raw_new :: "raft_config \<Rightarrow> ('t, 'm) raft_storage \<Rightarrow> ('r, raft_error) result"
  raw_propose :: "('t, 'm) raft_storage \<Rightarrow> bytes \<Rightarrow> bytes \<Rightarrow> ('r, unit, raft_error) op"
  raw_campaign :: "('t, 'm) raft_storage \<Rightarrow> ('r, unit, raft_error) op"
  raw_step :: "('t, 'm) raft_storage \<Rightarrow> message \<Rightarrow> ('r, unit, raft_error) op"
  raw_tick :: "('t, 'm) raft_storage \<Rightarrow> 'r \<Rightarrow> 'r"
  raw_has_ready :: "('t, 'm) raft_storage \<Rightarrow> 'r \<Rightarrow> bool"
  raw_ready :: "('t, 'm) raft_storage \<Rightarrow> 'r \<Rightarrow> ready \<times> 'r"
  raw_advance :: "('t, 'm) raft_storage \<Rightarrow> ready \<Rightarrow> 'r \<Rightarrow> light_ready \<times> 'r"
  raw_apply_conf_change :: "('t, 'm) raft_storage \<Rightarrow> any_conf_change \<Rightarrow> ('r, conf_state, raft_error) op"
  raw_id :: "'r \<Rightarrow> u64"
  raw_term :: "'r \<Rightarrow> u64"
  raw_state :: "'r \<Rightarrow> state_role"
  raw_leader_id :: "'r \<Rightarrow> u64"
  raw_committed :: "'r \<Rightarrow> u64"
  raw_voter_count :: "'r \<Rightarrow> nat"
  decode_conf_change :: "bytes \<Rightarrow> (conf_change, string) result"
  decode_conf_change_v2 :: "bytes \<Rightarrow> (conf_change_v2, string) result"
  snapshot_is_empty :: "snapshot \<Rightarrow> bool"
  show_raft_error :: "raft_error \<Rightarrow> string"
  uuid_v4 :: "nat \<Rightarrow> bytes"

section \<open>State\<close>

text \<open>\<open>uuids\<close> counts the ids drawn so far; the code keeps no such field.\<close>

record ('t, 'm, 'r) raft_node =
  raw :: 'r
  raft_store :: "('t, 'm) raft_storage"
  callbacks :: "bytes \<rightharpoonup> oneshot"
  uuids :: nat

record raft_state =
  rs_node_id :: u64
  rs_term :: u64
  rs_role :: state_role
  rs_leader_id :: u64
  rs_commit_index :: u64
  rs_applied_index :: u64
  rs_cluster_size :: nat

text \<open>An operation of the consensus state, and one of the storage (\<open>mut_store\<close>), on a node.\<close>

definition on_raw ::
    "(('t, 'm) raft_storage \<Rightarrow> ('r, 'a, 'e) op) \<Rightarrow> (('t, 'm, 'r) raft_node, 'a, 'e) op" where
  "on_raw f n = (case f (raft_store n) (raw n) of (r, w) \<Rightarrow> (r, n\<lparr>raw := w\<rparr>))"

definition on_store ::
    "(('t, 'm) raft_storage, 'a, 'e) op \<Rightarrow> (('t, 'm, 'r) raft_node, 'a, 'e) op" where
  "on_store f n = (case f (raft_store n) of (r, st) \<Rightarrow> (r, n\<lparr>raft_store := st\<rparr>))"

lemma on_raw_frame [simp]:
  "raft_store (snd (on_raw f n)) = raft_store n"
  "callbacks (snd (on_raw f n)) = callbacks n"
  "uuids (snd (on_raw f n)) = uuids n"
  by (simp_all add: on_raw_def split: prod.split)

lemma on_store_frame [simp]:
  "raw (snd (on_store f n)) = raw n"
  "callbacks (snd (on_store f n)) = callbacks n"
  "uuids (snd (on_store f n)) = uuids n"
  by (simp_all add: on_store_def split: prod.split)

section \<open>Operations\<close>

definition raft_node_config :: "u64 \<Rightarrow> raft_config" where
  "raft_node_config node_id =
     \<lparr>cfg_id = node_id, cfg_heartbeat_tick = 3, cfg_election_tick = 10, cfg_check_quorum = False,
      cfg_pre_vote = True\<rparr>"

definition raft_node_new ::
    "('t, 'm, 'r, 'z) raft_libs_scheme \<Rightarrow> u64 \<Rightarrow> u64 list \<Rightarrow> ('t, 'm) raft_storage \<Rightarrow>
     (('t, 'm, 'r) raft_node, raft_error) result" where
  "raft_node_new L node_id peers storage =
     (let config = raft_node_config node_id in
      bindR (config_validate L config) (\<lambda>_.
      case storage_initialize_with_conf_state L (conf_state_default\<lparr>voters := peers\<rparr>) storage of
        (r, storage') \<Rightarrow>
          bindR r (\<lambda>_.
          bindR (raw_new L config storage') (\<lambda>w.
          Ok \<lparr>raw = w, raft_store = storage', callbacks = Map.empty, uuids = 0\<rparr>))))"

definition is_leader ::
    "('t, 'm, 'r, 'z) raft_libs_scheme \<Rightarrow> ('t, 'm, 'r) raft_node \<Rightarrow> bool" where
  "is_leader L n \<longleftrightarrow> raw_state L (raw n) = Leader"

definition propose_command ::
    "('t, 'm, 'r, 'z) raft_libs_scheme \<Rightarrow> string \<Rightarrow> string \<Rightarrow> oneshot option \<Rightarrow>
     (('t, 'm, 'r) raft_node, unit, raft_error) op" where
  "propose_command L key val callback n =
     (if \<not> is_leader L n then (Err ProposalDropped, n)
      else
        let callback_id = uuid_v4 L (uuids n); n = n\<lparr>uuids := Suc (uuids n)\<rparr> in
        bindO (liftR (encode_put_command L key val)) (\<lambda>data n.
          let n = (case callback of
                     Some cb \<Rightarrow> n\<lparr>callbacks := (callbacks n)(callback_id \<mapsto> cb)\<rparr>
                   | None \<Rightarrow> n) in
          on_raw (\<lambda>st. raw_propose L st callback_id data) n) n)"

definition get_state ::
    "('t, 'm, 'r, 'z) raft_libs_scheme \<Rightarrow> ('t, 'm, 'r) raft_node \<Rightarrow> raft_state" where
  "get_state L n =
     \<lparr>rs_node_id = raw_id L (raw n), rs_term = raw_term L (raw n), rs_role = raw_state L (raw n),
      rs_leader_id = raw_leader_id L (raw n), rs_commit_index = raw_committed L (raw n),
      rs_applied_index = storage_applied_index (raft_store n),
      rs_cluster_size = raw_voter_count L (raw n)\<rparr>"

definition take_callback ::
    "bytes \<Rightarrow> ('t, 'm, 'r) raft_node \<Rightarrow> oneshot option \<times> ('t, 'm, 'r) raft_node" where
  "take_callback context n = (callbacks n context, n\<lparr>callbacks := (callbacks n)(context := None)\<rparr>)"

section \<open>Invariant\<close>

text \<open>Every pending callback is under an id already drawn, so a fresh id is not in use.\<close>

definition callbacks_inv ::
    "('t, 'm, 'r, 'z) raft_libs_scheme \<Rightarrow> ('t, 'm, 'r) raft_node \<Rightarrow> bool" where
  "callbacks_inv L n \<longleftrightarrow> dom (callbacks n) \<subseteq> uuid_v4 L ` {..<uuids n}"

lemma callbacks_inv_fresh:
  assumes "inj (uuid_v4 L)" and "callbacks_inv L n"
  shows "callbacks n (uuid_v4 L (uuids n)) = None"
proof (rule ccontr)
  assume "callbacks n (uuid_v4 L (uuids n)) \<noteq> None"
  with assms(2) obtain i where "i < uuids n" and "uuid_v4 L (uuids n) = uuid_v4 L i"
    unfolding callbacks_inv_def by blast
  with assms(1) show False by (metis inj_eq less_irrefl)
qed

lemma callbacks_inv_put:
  "callbacks_inv L n \<Longrightarrow>
   callbacks_inv L (n\<lparr>uuids := Suc (uuids n), callbacks := (callbacks n)(uuid_v4 L (uuids n) \<mapsto> cb)\<rparr>)"
  by (auto simp: callbacks_inv_def less_Suc_eq)

lemma callbacks_inv_draw:
  "callbacks_inv L n \<Longrightarrow> callbacks_inv L (n\<lparr>uuids := Suc (uuids n)\<rparr>)"
  by (auto simp: callbacks_inv_def less_Suc_eq)

lemma callbacks_inv_on_raw: "callbacks_inv L n \<Longrightarrow> callbacks_inv L (snd (on_raw f n))"
  by (simp add: callbacks_inv_def)

lemma callbacks_inv_on_store: "callbacks_inv L n \<Longrightarrow> callbacks_inv L (snd (on_store f n))"
  by (simp add: callbacks_inv_def)

lemma callbacks_inv_take: "callbacks_inv L n \<Longrightarrow> callbacks_inv L (snd (take_callback c n))"
  by (auto simp: callbacks_inv_def take_callback_def)

lemma callbacks_inv_new: "raft_node_new L node_id peers st = Ok n \<Longrightarrow> callbacks_inv L n"
  by (auto simp: raft_node_new_def Let_def callbacks_inv_def split: prod.splits)

text \<open>What \<open>propose_command\<close> does, by case of the leadership and of the crate's answer.\<close>

lemma propose_not_leader:
  "\<not> is_leader L n \<Longrightarrow> propose_command L key val cb n = (Err ProposalDropped, n)"
  by (simp add: propose_command_def)

lemma propose_leader:
  assumes "prost_ok L" and "is_leader L n"
  obtains data where "encode_put_command L key val = (Ok data :: (bytes, raft_error) result)"
    and "prost_decode L data = Ok \<lparr>cmd = Some (CmdPut key val)\<rparr>"
    and "propose_command L key val cb n =
      (case raw_propose L (raft_store n) (uuid_v4 L (uuids n)) data (raw n) of
         (r, w) \<Rightarrow> (r, n\<lparr>raw := w, uuids := Suc (uuids n),
           callbacks := (case cb of Some c \<Rightarrow> (callbacks n)(uuid_v4 L (uuids n) \<mapsto> c)
                                  | None \<Rightarrow> callbacks n)\<rparr>))"
proof -
  obtain data where d: "encode_put_command L key val = (Ok data :: (bytes, raft_error) result)"
    "prost_decode L data = Ok \<lparr>cmd = Some (CmdPut key val)\<rparr>"
    using encode_put_command_Ok [OF assms(1)] by blast
  have "propose_command L key val cb n =
      (case raw_propose L (raft_store n) (uuid_v4 L (uuids n)) data (raw n) of
         (r, w) \<Rightarrow> (r, n\<lparr>raw := w, uuids := Suc (uuids n),
           callbacks := (case cb of Some c \<Rightarrow> (callbacks n)(uuid_v4 L (uuids n) \<mapsto> c)
                                  | None \<Rightarrow> callbacks n)\<rparr>))"
    using assms(2)
    by (cases n; cases cb) (simp_all add: propose_command_def Let_def d(1) on_raw_def split: prod.splits)
  with d show ?thesis using that by blast
qed

lemma propose_callbacks_inv:
  assumes "callbacks_inv L n" and "propose_command L key val cb n = (r, n')"
  shows "callbacks_inv L n'"
proof -
  have n': "n' = snd (propose_command L key val cb n)" using assms(2) by simp
  show ?thesis
    using assms(1) unfolding n' propose_command_def Let_def
    by (cases cb; cases "encode_put_command L key val :: (bytes, raft_error) result")
      (simp_all add: callbacks_inv_on_raw callbacks_inv_put callbacks_inv_draw)
qed

section \<open>A sample crate\<close>

text \<open>
  For the witnesses: a consensus state with a fixed role that records what is proposed,
  has at most one \<open>Ready\<close> to give and a \<open>LightReady\<close> to give after it. A busy one drops
  proposals.
\<close>

record sample_raw =
  sr_role :: state_role
  sr_leader :: u64
  sr_busy :: bool
  sr_proposed :: "(bytes \<times> bytes) list"
  sr_ready :: "ready option"
  sr_light :: light_ready

definition sample_light :: light_ready where
  "sample_light = \<lparr>lr_commit_index = None, lr_messages = [], lr_committed_entries = []\<rparr>"

definition sample_ready :: ready where
  "sample_ready = \<lparr>ry_number = 1, ry_messages = [], ry_snapshot = snapshot_default, ry_entries = [],
     ry_hs = None, ry_persisted_messages = [], ry_committed_entries = []\<rparr>"

definition sample_raft_libs ::
    "(string \<Rightarrow> sample_tree) \<Rightarrow> (sample_tree, sample_mem, sample_raw) raft_libs" where
  "sample_raft_libs img = store_libs.extend (sample_store_libs img) (raft_libs.fields
     (\<lambda>c. if cfg_id c = 0 then Err (OtherRaft ''invalid node id'') else Ok ())
     (\<lambda>c st. Ok \<lparr>sr_role = Follower, sr_leader = 0, sr_busy = False, sr_proposed = [],
        sr_ready = None, sr_light = sample_light\<rparr>)
     (\<lambda>st c d w. if sr_busy w then (Err ProposalDropped, w)
        else (Ok (), w\<lparr>sr_proposed := sr_proposed w @ [(c, d)]\<rparr>))
     (\<lambda>st w. (Ok (), w\<lparr>sr_role := PreCandidate\<rparr>))
     (\<lambda>st m w. (Ok (), w))
     (\<lambda>st w. w)
     (\<lambda>st w. sr_ready w \<noteq> None)
     (\<lambda>st w. ((case sr_ready w of Some rd \<Rightarrow> rd | None \<Rightarrow> sample_ready)\<lparr>ry_snapshot := snapshot_default\<rparr>,
        w\<lparr>sr_ready := None\<rparr>))
     (\<lambda>st rd w. (sr_light w, w))
     (\<lambda>st cc w. (Ok (conf_state_default\<lparr>voters := [1, 2, 3, 4]\<rparr>), w))
     (\<lambda>w. 1)
     (\<lambda>w. 5)
     sr_role
     sr_leader
     (\<lambda>w. 0)
     (\<lambda>w. 3)
     (\<lambda>b. Err ''no configuration change'')
     (\<lambda>b. Err ''no configuration change'')
     (\<lambda>sn. snap_index sn = 0)
     (\<lambda>e. case e of Store x \<Rightarrow> ''store error'' | ProposalDropped \<Rightarrow> ''raft: proposal dropped''
        | OtherRaft m \<Rightarrow> m)
     (\<lambda>i. replicate i 0))"

lemmas sample_raft_defs = sample_raft_libs_def raft_libs.defs store_libs.defs disk_libs.defs kv_libs.defs

lemma storage_ok_extend: "storage_ok (store_libs.extend r z) V D \<longleftrightarrow> storage_ok r V D"
  by (cases r)
    (simp add: storage_ok_def mem_ok_def disk_ok_def sled_sound_def sled_up_def proto_ok_def
      store_libs.defs)

lemma sample_raft_storage_ok: "storage_ok (sample_raft_libs img) map_of map_of"
  by (simp add: sample_raft_libs_def storage_ok_extend sample_storage_ok)

lemma sample_raft_prost: "prost_ok (sample_raft_libs img)"
  using sample_prost_ok
  by (simp add: prost_ok_def sample_raft_defs sample_store_libs_def sample_disk_libs_def)

lemma sample_raft_uuid: "inj (uuid_v4 (sample_raft_libs img))"
  by (simp add: sample_raft_defs inj_def)

definition sample_raw_leader :: sample_raw where
  "sample_raw_leader = \<lparr>sr_role = Leader, sr_leader = 1, sr_busy = False, sr_proposed = [],
     sr_ready = None, sr_light = sample_light\<rparr>"

definition sample_node :: "sample_raw \<Rightarrow> (sample_tree, sample_mem, sample_raw) raft_node" where
  "sample_node w = \<lparr>raw = w, raft_store = Memory sample_mem_new 0, callbacks = Map.empty, uuids = 0\<rparr>"

lemma sample_node_inv: "callbacks_inv (sample_raft_libs img) (sample_node w)"
  by (simp add: callbacks_inv_def sample_node_def)

section \<open>Properties\<close>

text \<open>
  Proposals. A node that is not the leader refuses with \<open>ProposalDropped\<close> and is left
  as it was. A leader hands the crate a command that decodes to this PUT, under an id no
  pending proposal uses, and keeps the callback under that id; no other pending callback
  is lost, and nothing but consensus state, callbacks and ids changes. When the crate
  refuses, its error is returned, and the callback stays in the map.
\<close>

theorem propose_command_spec:
  assumes "prost_ok L" and "inj (uuid_v4 L)" and "callbacks_inv L n"
  shows "(\<not> is_leader L n \<longrightarrow>
      propose_command L key val cb n = (Err ProposalDropped, n)) \<and>
    (is_leader L n \<longrightarrow>
      (\<exists>ctx data r n'. propose_command L key val cb n = (r, n') \<and>
         prost_decode L data = Ok \<lparr>cmd = Some (CmdPut key val)\<rparr> \<and>
         callbacks n ctx = None \<and>
         raw_propose L (raft_store n) ctx data (raw n) = (r, raw n') \<and>
         raft_store n' = raft_store n \<and> callbacks_inv L n' \<and>
         callbacks n' = (case cb of Some c \<Rightarrow> (callbacks n)(ctx \<mapsto> c) | None \<Rightarrow> callbacks n)))"
proof (intro conjI impI)
  assume "\<not> is_leader L n"
  then show "propose_command L key val cb n = (Err ProposalDropped, n)"
    by (rule propose_not_leader)
next
  assume lead: "is_leader L n"
  let ?ctx = "uuid_v4 L (uuids n)"
  obtain data where d: "prost_decode L data = Ok \<lparr>cmd = Some (CmdPut key val)\<rparr>"
    "propose_command L key val cb n =
      (case raw_propose L (raft_store n) ?ctx data (raw n) of
         (r, w) \<Rightarrow> (r, n\<lparr>raw := w, uuids := Suc (uuids n),
           callbacks := (case cb of Some c \<Rightarrow> (callbacks n)(?ctx \<mapsto> c) | None \<Rightarrow> callbacks n)\<rparr>))"
    using propose_leader [OF assms(1) lead] by blast
  obtain r w where w: "raw_propose L (raft_store n) ?ctx data (raw n) = (r, w)" by fastforce
  let ?n = "n\<lparr>raw := w, uuids := Suc (uuids n),
    callbacks := (case cb of Some c \<Rightarrow> (callbacks n)(?ctx \<mapsto> c) | None \<Rightarrow> callbacks n)\<rparr>"
  have p: "propose_command L key val cb n = (r, ?n)" using d(2) w by simp
  show "\<exists>ctx data r n'. propose_command L key val cb n = (r, n') \<and>
      prost_decode L data = Ok \<lparr>cmd = Some (CmdPut key val)\<rparr> \<and> callbacks n ctx = None \<and>
      raw_propose L (raft_store n) ctx data (raw n) = (r, raw n') \<and>
      raft_store n' = raft_store n \<and> callbacks_inv L n' \<and>
      callbacks n' = (case cb of Some c \<Rightarrow> (callbacks n)(ctx \<mapsto> c) | None \<Rightarrow> callbacks n)"
    using p d(1) w callbacks_inv_fresh [OF assms(2,3)] propose_callbacks_inv [OF assms(3) p]
    by (intro exI [of _ ?ctx] exI [of _ data] exI [of _ r] exI [of _ ?n]) simp
qed

theorem propose_command_spec_witness:
  "\<exists>n'. propose_command (sample_raft_libs (\<lambda>_. [])) ''k'' ''v'' (Some 7)
          (sample_node sample_raw_leader) = (Ok (), n') \<and>
        callbacks n' = [[] \<mapsto> 7] \<and>
        callbacks_inv (sample_raft_libs (\<lambda>_. [])) n'"
proof -
  let ?L = "sample_raft_libs (\<lambda>_. [])" and ?n = "sample_node sample_raw_leader"
  have lead: "is_leader ?L ?n"
    by (simp add: is_leader_def sample_raft_defs sample_node_def sample_raw_leader_def)
  have run: "\<exists>n'. propose_command ?L ''k'' ''v'' (Some 7) ?n = (Ok (), n') \<and> callbacks n' = [[] \<mapsto> 7]"
    using lead
    by (simp add: propose_command_def encode_put_command_def codec_encode_def on_raw_def
        sample_raft_defs sample_store_libs_def sample_disk_libs_def sample_kv_libs_def
        sample_cmd_encode_def sample_node_def sample_raw_leader_def del: flat_enc.simps)
  from propose_command_spec [OF sample_raft_prost sample_raft_uuid sample_node_inv, of "\<lambda>_. []"
      sample_raw_leader "''k''" "''v''" "Some 7"] lead run
  show ?thesis by auto
qed

text \<open>
  Restart: a node made on a disk store that holds voters runs on that store as it
  was, whatever peers are given: the crate is started on the persisted hard state,
  configuration and log, the state reported has the persisted applied index, and no
  callback of the earlier life is pending.
\<close>

theorem restart_keeps_store:
  assumes "storage_ok L V D" and "storage_inv L V D (Disk d)"
    and "voters (sp_conf (disk_abs L V d)) \<noteq> []"
    and "raft_node_new L node_id peers (Disk d) = Ok n"
  shows "raft_store n = Disk d \<and> callbacks n = Map.empty \<and>
    raw_new L (raft_node_config node_id) (Disk d) = Ok (raw n) \<and>
    rs_applied_index (get_state L n) = sp_applied (disk_abs L V d) \<and>
    storage_initial_state L (raft_store n) =
      Ok (sp_hard (disk_abs L V d), sp_conf (disk_abs L V d))"
proof -
  have ok: "disk_ok L V D" and inv: "disk_inv L V d"
    using assms(1,2) by (auto simp: storage_ok_def)
  have "storage_initialize_with_conf_state L cs (Disk d) = (Ok (), Disk d)" for cs
    by (simp add: on_disk_def disk_initialize_known [OF ok inv assms(3)])
  with assms(4) have "raft_store n = Disk d" "callbacks n = Map.empty"
    "raw_new L (raft_node_config node_id) (Disk d) = Ok (raw n)"
    by (auto simp: raft_node_new_def Let_def)
  then show ?thesis
    by (simp add: get_state_def disk_abs_applied [OF inv] disk_initial_state_abs [OF ok inv])
qed

theorem restart_keeps_store_witness:
  "\<exists>d n. raft_node_new (sample_raft_libs (\<lambda>_. [])) 1 [9] (Disk d) = Ok n \<and>
     raft_store n = Disk d \<and>
     sp_conf (disk_abs (sample_raft_libs (\<lambda>_. [])) map_of d) = conf_state_default\<lparr>voters := [1, 2, 3]\<rparr>"
proof -
  let ?L = "sample_raft_libs (\<lambda>_. [])"
  have inv: "disk_inv ?L map_of sample_fresh"
    by (simp add: disk_inv_def disk_abs_def entries_inv_def sample_fresh_def)
  have ok: "disk_ok ?L map_of map_of"
    using sample_raft_storage_ok [of "\<lambda>_. []"] by (simp add: storage_ok_def)
  obtain d where d: "disk_abs ?L map_of d = (disk_abs ?L map_of sample_fresh)
      \<lparr>sp_conf := conf_state_default\<lparr>voters := [1, 2, 3]\<rparr>\<rparr>" "disk_inv ?L map_of d"
    using disk_set_conf_state_refines [OF ok inv sample_fresh_durable] by blast
  have init: "on_disk (disk_initialize ?L cs) d = (Ok (), Disk d)" for cs
    using disk_initialize_known [OF ok d(2)] by (simp add: on_disk_def d(1))
  have sel: "config_validate ?L c = (if cfg_id c = 0 then Err (OtherRaft ''invalid node id'') else Ok ())"
    "is_ok (raw_new ?L c st)" for c st
    by (simp_all add: sample_raft_defs)
  obtain w where "raw_new ?L (raft_node_config 1) (Disk d) = Ok w"
    using sel(2) by (auto simp: is_ok_iff)
  then obtain n where n: "raft_node_new ?L 1 [9] (Disk d) = Ok n"
    by (simp add: raft_node_new_def Let_def sel(1) init) (simp add: raft_node_config_def)
  have "raft_store n = Disk d"
    using restart_keeps_store [OF sample_raft_storage_ok _ _ n] d sample_fresh_durable by auto
  with d(1) n show ?thesis by (intro exI [of _ d] exI [of _ n]) simp
qed

end
