(* ===== verification/Network.thy ===== *)
theory Network
  imports Raft_Types "HOL-Library.Sublist"
begin

text \<open>
  Sending messages to peers, \<^verbatim>\<open>crates/raft-core/src/network.rs\<close>: the error type, the
  \<open>Transport\<close> trait as the locale \<open>transport\<close>, and the in-memory transport over
  crossbeam channels. The channels are third-party code: \<open>chan_libs\<close>.

  A \<open>HashMap\<close> is the sorted list of its bindings (\<open>btree_map\<close>): no operation modelled
  here depends on its iteration order.
\<close>

section \<open>Channels\<close>

text \<open>\<open>try_send\<close> and \<open>send\<close> give the message back when it is not taken.\<close>

datatype try_send_error = Full message | Disconnected message

record 'c chan_libs =
  try_send :: "message \<Rightarrow> ('c, unit, try_send_error) op"
  chan_send :: "message \<Rightarrow> ('c, unit, message) op"

text \<open>
  What crossbeam documents: a send that succeeds puts the message at the end of the
  channel, one that fails leaves the channel as it was. \<open>Q\<close> is what a channel has taken.
\<close>

definition chan_ok :: "('c, 'z) chan_libs_scheme \<Rightarrow> ('c \<Rightarrow> message list) \<Rightarrow> bool" where
  "chan_ok C Q \<longleftrightarrow>
     (\<forall>m c r c'. try_send C m c = (r, c') \<longrightarrow>
        r = Ok () \<and> Q c' = Q c @ [m] \<or> (\<exists>e. r = Err e) \<and> Q c' = Q c) \<and>
     (\<forall>m c r c'. chan_send C m c = (r, c') \<longrightarrow>
        r = Ok () \<and> Q c' = Q c @ [m] \<or> (\<exists>e. r = Err e) \<and> Q c' = Q c)"

section \<open>Errors\<close>

datatype transport_error = PeerNotFound u64 | ChannelFull u64 | ChannelClosed u64

fun show_transport_error :: "transport_error \<Rightarrow> string" where
  "show_transport_error (PeerNotFound i) = ''Peer '' @ show_u64 i @ '' not found in transport''"
| "show_transport_error (ChannelFull i) =
     ''Channel to peer '' @ show_u64 i @ '' is full (message dropped)''"
| "show_transport_error (ChannelClosed i) = ''Channel to peer '' @ show_u64 i @ '' is closed''"

section \<open>The Transport trait\<close>

text \<open>
  \<open>sent x p\<close> is the list of messages taken for peer \<open>p\<close>. A message for a peer that is
  not registered is refused; one for a registered peer goes to that peer only, with this
  node as its sender, or is refused with an error that names the peer.
\<close>

locale transport =
  fixes lib :: bool
    and node :: "'x \<Rightarrow> u64"
    and peer :: "'x \<Rightarrow> u64 \<Rightarrow> bool"
    and sent :: "'x \<Rightarrow> u64 \<Rightarrow> message list"
    and tsend :: "u64 \<Rightarrow> message \<Rightarrow> ('x, unit, transport_error) op"
  assumes send_unknown: "\<not> peer x to \<Longrightarrow> tsend to m x = (Err (PeerNotFound to), x)"
    and send_known: "lib \<Longrightarrow> peer x to \<Longrightarrow> tsend to m x = (r, x') \<Longrightarrow>
      node x' = node x \<and> peer x' = peer x \<and> (\<forall>p. p \<noteq> to \<longrightarrow> sent x' p = sent x p) \<and>
      (r = Ok () \<and> sent x' to = sent x to @ [m\<lparr>m_from := node x\<rparr>] \<or>
       (r = Err (ChannelFull to) \<or> r = Err (ChannelClosed to)) \<and> sent x' to = sent x to)"
begin

lemma send_cases:
  assumes "lib"
  obtains x' where "tsend to m x = (Ok (), x')" "peer x to" "node x' = node x" "peer x' = peer x"
    "sent x' = (sent x)(to := sent x to @ [m\<lparr>m_from := node x\<rparr>])"
  | e x' where "tsend to m x = (Err e, x')" "node x' = node x" "peer x' = peer x" "sent x' = sent x"
    "e = PeerNotFound to \<and> \<not> peer x to \<or> (e = ChannelFull to \<or> e = ChannelClosed to) \<and> peer x to"
proof (cases "peer x to")
  case False
  then show ?thesis using that(2) send_unknown by blast
next
  case True
  obtain r x' where t: "tsend to m x = (r, x')" by (cases "tsend to m x")
  from send_known [OF assms True t] have
    s: "node x' = node x" "peer x' = peer x" "\<forall>p. p \<noteq> to \<longrightarrow> sent x' p = sent x p"
    "r = Ok () \<and> sent x' to = sent x to @ [m\<lparr>m_from := node x\<rparr>] \<or>
     (r = Err (ChannelFull to) \<or> r = Err (ChannelClosed to)) \<and> sent x' to = sent x to" by auto
  from s(4) show ?thesis
  proof
    assume a: "r = Ok () \<and> sent x' to = sent x to @ [m\<lparr>m_from := node x\<rparr>]"
    with s(3) have "sent x' = (sent x)(to := sent x to @ [m\<lparr>m_from := node x\<rparr>])"
      by (simp add: fun_eq_iff)
    with a t s(1,2) True show ?thesis by (intro that(1)) auto
  next
    assume a: "(r = Err (ChannelFull to) \<or> r = Err (ChannelClosed to)) \<and> sent x' to = sent x to"
    with s(3) have "sent x' = sent x" by (metis ext)
    moreover from a obtain e where "r = Err e" "e = ChannelFull to \<or> e = ChannelClosed to" by blast
    ultimately show ?thesis using t True by (intro that(2) [OF _ s(1,2)]) auto
  qed
qed

end

section \<open>LocalTransport\<close>

record 'c local_transport =
  lt_node_id :: u64
  lt_peers :: "(u64, 'c) btree_map"

definition local_new :: "u64 \<Rightarrow> (u64, 'c) btree_map \<Rightarrow> 'c local_transport" where
  "local_new node_id peers = \<lparr>lt_node_id = node_id, lt_peers = peers\<rparr>"

definition local_node_id :: "'c local_transport \<Rightarrow> u64" where
  "local_node_id t = lt_node_id t"

definition local_peer_count :: "'c local_transport \<Rightarrow> nat" where
  "local_peer_count t = length (lt_peers t)"

definition local_has_peer :: "'c local_transport \<Rightarrow> u64 \<Rightarrow> bool" where
  "local_has_peer t peer_id \<longleftrightarrow> bt_get (lt_peers t) peer_id \<noteq> None"

fun local_send_error :: "u64 \<Rightarrow> try_send_error \<Rightarrow> transport_error" where
  "local_send_error to (Full m) = ChannelFull to"
| "local_send_error to (Disconnected m) = ChannelClosed to"

definition local_send ::
    "('c, 'z) chan_libs_scheme \<Rightarrow> u64 \<Rightarrow> message \<Rightarrow> ('c local_transport, unit, transport_error) op" where
  "local_send C to msg t =
     (let msg = msg\<lparr>m_from := lt_node_id t\<rparr> in
      case bt_get (lt_peers t) to of
        None \<Rightarrow> (Err (PeerNotFound to), t)
      | Some sender \<Rightarrow>
          (case try_send C msg sender of
             (r, sender') \<Rightarrow>
               (map_err (local_send_error to) r,
                t\<lparr>lt_peers := bt_insert to sender' (lt_peers t)\<rparr>)))"

text \<open>What the channel of a peer has taken.\<close>

definition local_sent :: "('c \<Rightarrow> message list) \<Rightarrow> 'c local_transport \<Rightarrow> u64 \<Rightarrow> message list" where
  "local_sent Q t p = (case bt_get (lt_peers t) p of None \<Rightarrow> [] | Some c \<Rightarrow> Q c)"

lemma local_sent_unfold:
  "local_sent Q t = (\<lambda>p. case bt_get (lt_peers t) p of None \<Rightarrow> [] | Some c \<Rightarrow> Q c)"
  by (simp add: local_sent_def fun_eq_iff)

lemma local_send_known:
  assumes C: "chan_ok C Q" and peer: "local_has_peer t to" and t': "local_send C to m t = (r, t')"
  shows "local_node_id t' = local_node_id t \<and> local_has_peer t' = local_has_peer t \<and>
    (\<forall>p. p \<noteq> to \<longrightarrow> local_sent Q t' p = local_sent Q t p) \<and>
    (r = Ok () \<and> local_sent Q t' to = local_sent Q t to @ [m\<lparr>m_from := local_node_id t\<rparr>] \<or>
     (r = Err (ChannelFull to) \<or> r = Err (ChannelClosed to)) \<and> local_sent Q t' to = local_sent Q t to)"
proof -
  obtain c where c: "bt_get (lt_peers t) to = Some c"
    using peer by (auto simp: local_has_peer_def)
  obtain r0 c' where r0: "try_send C (m\<lparr>m_from := lt_node_id t\<rparr>) c = (r0, c')"
    by (cases "try_send C (m\<lparr>m_from := lt_node_id t\<rparr>) c")
  have q: "r0 = Ok () \<and> Q c' = Q c @ [m\<lparr>m_from := lt_node_id t\<rparr>] \<or> (\<exists>e. r0 = Err e) \<and> Q c' = Q c"
    using C r0 unfolding chan_ok_def by blast
  have t: "r = map_err (local_send_error to) r0" "t' = t\<lparr>lt_peers := bt_insert to c' (lt_peers t)\<rparr>"
    using t' by (simp_all add: local_send_def c r0)
  have "r0 = Err e \<Longrightarrow> r = Err (ChannelFull to) \<or> r = Err (ChannelClosed to)" for e
    by (cases e) (simp_all add: t)
  with q show ?thesis
    by (auto simp: t local_has_peer_def [abs_def] local_sent_def local_node_id_def c)
qed

interpretation local:
  transport "chan_ok C Q" local_node_id local_has_peer "local_sent Q" "local_send C" for C Q
  by unfold_locales
    (simp add: local_send_def local_has_peer_def, fact local_send_known)

section \<open>TcpTransport, the sending side\<close>

text \<open>
  \<^verbatim>\<open>tcp_transport.rs\<close>: \<open>new\<close> starts the listener thread and one sender thread for each
  peer but this node, each with an unbounded channel; starting a thread may fail, and
  \<open>new\<close> fails with it. The peers are listed in the order the \<open>HashMap\<close> is walked.
\<close>

record ('c, 'e) tcp_libs = "'c chan_libs" +
  unbounded :: 'c
  spawn_thread :: "string \<Rightarrow> (unit, 'e) result"

record 'c tcp_transport =
  tt_node_id :: u64
  tt_peer_senders :: "(u64, 'c) btree_map"

fun tcp_start_senders ::
    "('c, 'e, 'z) tcp_libs_scheme \<Rightarrow> u64 \<Rightarrow> (u64 \<times> 'a) list \<Rightarrow> (u64, 'c) btree_map \<Rightarrow>
     ((u64, 'c) btree_map, 'e) result" where
  "tcp_start_senders C node_id [] senders = Ok senders"
| "tcp_start_senders C node_id ((peer_id, peer_addr) # peers) senders =
     (if peer_id = node_id then tcp_start_senders C node_id peers senders
      else
        let senders = bt_insert peer_id (unbounded C) senders in
        bindR (spawn_thread C (''tcp-sender-'' @ show_u64 node_id @ ''-'' @ show_u64 peer_id)) (\<lambda>_.
        tcp_start_senders C node_id peers senders))"

definition tcp_new ::
    "('c, 'e, 'z) tcp_libs_scheme \<Rightarrow> u64 \<Rightarrow> (u64 \<times> 'a) list \<Rightarrow> ('c tcp_transport, 'e) result" where
  "tcp_new C node_id peers =
     bindR (spawn_thread C (''tcp-listener-'' @ show_u64 node_id)) (\<lambda>_.
     bindR (tcp_start_senders C node_id peers []) (\<lambda>senders.
     Ok \<lparr>tt_node_id = node_id, tt_peer_senders = senders\<rparr>))"

definition tcp_node_id :: "'c tcp_transport \<Rightarrow> u64" where
  "tcp_node_id t = tt_node_id t"

definition tcp_send ::
    "('c, 'z) chan_libs_scheme \<Rightarrow> u64 \<Rightarrow> message \<Rightarrow> ('c tcp_transport, unit, transport_error) op" where
  "tcp_send C to msg t =
     (let msg = msg\<lparr>m_from := tt_node_id t\<rparr> in
      case bt_get (tt_peer_senders t) to of
        Some sender \<Rightarrow>
          (case chan_send C msg sender of
             (r, sender') \<Rightarrow>
               (map_err (\<lambda>_. ChannelClosed to) r,
                t\<lparr>tt_peer_senders := bt_insert to sender' (tt_peer_senders t)\<rparr>))
      | None \<Rightarrow> (Err (PeerNotFound to), t))"

definition tcp_has_peer :: "'c tcp_transport \<Rightarrow> u64 \<Rightarrow> bool" where
  "tcp_has_peer t peer_id \<longleftrightarrow> bt_get (tt_peer_senders t) peer_id \<noteq> None"

definition tcp_sent :: "('c \<Rightarrow> message list) \<Rightarrow> 'c tcp_transport \<Rightarrow> u64 \<Rightarrow> message list" where
  "tcp_sent Q t p = (case bt_get (tt_peer_senders t) p of None \<Rightarrow> [] | Some c \<Rightarrow> Q c)"

lemma tcp_send_known:
  assumes C: "chan_ok C Q" and peer: "tcp_has_peer t to" and t': "tcp_send C to m t = (r, t')"
  shows "tcp_node_id t' = tcp_node_id t \<and> tcp_has_peer t' = tcp_has_peer t \<and>
    (\<forall>p. p \<noteq> to \<longrightarrow> tcp_sent Q t' p = tcp_sent Q t p) \<and>
    (r = Ok () \<and> tcp_sent Q t' to = tcp_sent Q t to @ [m\<lparr>m_from := tcp_node_id t\<rparr>] \<or>
     (r = Err (ChannelFull to) \<or> r = Err (ChannelClosed to)) \<and> tcp_sent Q t' to = tcp_sent Q t to)"
proof -
  obtain c where c: "bt_get (tt_peer_senders t) to = Some c"
    using peer by (auto simp: tcp_has_peer_def)
  obtain r0 c' where r0: "chan_send C (m\<lparr>m_from := tt_node_id t\<rparr>) c = (r0, c')"
    by (cases "chan_send C (m\<lparr>m_from := tt_node_id t\<rparr>) c")
  have q: "r0 = Ok () \<and> Q c' = Q c @ [m\<lparr>m_from := tt_node_id t\<rparr>] \<or> (\<exists>e. r0 = Err e) \<and> Q c' = Q c"
    using C r0 unfolding chan_ok_def by blast
  have t: "r = map_err (\<lambda>_. ChannelClosed to) r0"
    "t' = t\<lparr>tt_peer_senders := bt_insert to c' (tt_peer_senders t)\<rparr>"
    using t' by (simp_all add: tcp_send_def c r0)
  with q show ?thesis
    by (auto simp: tcp_has_peer_def [abs_def] tcp_sent_def tcp_node_id_def c)
qed

interpretation tcp:
  transport "chan_ok C Q" tcp_node_id tcp_has_peer "tcp_sent Q" "tcp_send C" for C Q
  by unfold_locales
    (simp add: tcp_send_def tcp_has_peer_def, fact tcp_send_known)

section \<open>Sending a batch\<close>

text \<open>
  \<open>send_messages\<close> of \<^verbatim>\<open>ready_processor.rs\<close>, over any transport: every error is logged and
  the next message is sent.
\<close>

fun send_messages ::
    "(u64 \<Rightarrow> message \<Rightarrow> ('x, unit, transport_error) op) \<Rightarrow> message list \<Rightarrow>
     ('x, unit, transport_error) op" where
  "send_messages tsend [] x = (Ok (), x)"
| "send_messages tsend (msg # messages) x =
     (case tsend (m_to msg) msg x of
        (Panic, x') \<Rightarrow> (Panic, x')
      | (r, x') \<Rightarrow> send_messages tsend messages x')"

context transport begin

lemma send_messages_sound:
  assumes "lib"
  shows "\<exists>x'. send_messages tsend ms x = (Ok (), x') \<and> node x' = node x \<and> peer x' = peer x \<and>
    (\<forall>p. \<exists>ls. sent x' p = sent x p @ ls \<and>
       subseq ls (map (\<lambda>m. m\<lparr>m_from := node x\<rparr>) (filter (\<lambda>m. m_to m = p) ms)))"
proof (induction ms arbitrary: x)
  case Nil
  then show ?case by auto
next
  case (Cons m ms)
  consider x1 where "tsend (m_to m) m x = (Ok (), x1)" "node x1 = node x" "peer x1 = peer x"
      "sent x1 = (sent x)(m_to m := sent x (m_to m) @ [m\<lparr>m_from := node x\<rparr>])"
    | e x1 where "tsend (m_to m) m x = (Err e, x1)" "node x1 = node x" "peer x1 = peer x"
      "sent x1 = sent x"
    using send_cases [OF assms, of "m_to m" m x] by metis
  then show ?case
  proof cases
    case 1
    from Cons.IH [of x1, unfolded 1(2,3)] obtain x' where x': "send_messages tsend ms x1 = (Ok (), x')"
      "node x' = node x" "peer x' = peer x"
      "\<forall>p. \<exists>ls. sent x' p = sent x1 p @ ls \<and>
         subseq ls (map (\<lambda>m. m\<lparr>m_from := node x\<rparr>) (filter (\<lambda>m. m_to m = p) ms))"
      by blast
    have "\<exists>ls. sent x' p = sent x p @ ls \<and>
        subseq ls (map (\<lambda>m. m\<lparr>m_from := node x\<rparr>) (filter (\<lambda>m. m_to m = p) (m # ms)))" for p
      using x'(4) [rule_format, of p] by (auto simp: 1(4) intro: subseq_Cons2)
    with x' 1(1) show ?thesis by auto
  next
    case 2
    from Cons.IH [of x1, unfolded 2(2-4)] obtain x' where x': "send_messages tsend ms x1 = (Ok (), x')"
      "node x' = node x" "peer x' = peer x"
      "\<forall>p. \<exists>ls. sent x' p = sent x p @ ls \<and>
         subseq ls (map (\<lambda>m. m\<lparr>m_from := node x\<rparr>) (filter (\<lambda>m. m_to m = p) ms))"
      by blast
    have "\<exists>ls. sent x' p = sent x p @ ls \<and>
        subseq ls (map (\<lambda>m. m\<lparr>m_from := node x\<rparr>) (filter (\<lambda>m. m_to m = p) (m # ms)))" for p
      using x'(4) [rule_format, of p] by auto
    with x' 2(1) show ?thesis by auto
  qed
qed

end

lemma bt_get_start_senders:
  "tcp_start_senders C n peers senders = Ok s \<Longrightarrow>
     bt_get s p = (if p \<noteq> n \<and> p \<in> fst ` set peers then Some (unbounded C) else bt_get senders p)"
  by (induction C n peers senders rule: tcp_start_senders.induct)
    (auto simp: Let_def split: if_splits)

section \<open>Properties\<close>

text \<open>
  C18. A batch of messages handed to either transport: sending never fails as a whole and
  never panics; what a peer's channel gains is, in order, a subsequence of the messages
  addressed to that peer, each with this node as its sender; and a message for an unknown
  peer is refused with an error that names it, the transport unchanged.
\<close>

theorem transports_deliver_in_order:
  assumes "chan_ok C Q"
  shows "(\<exists>t'. send_messages (local_send C) ms t = (Ok (), t') \<and>
      (\<forall>p. \<exists>ls. local_sent Q t' p = local_sent Q t p @ ls \<and>
         subseq ls (map (\<lambda>m. m\<lparr>m_from := lt_node_id t\<rparr>) (filter (\<lambda>m. m_to m = p) ms)))) \<and>
    (\<exists>u'. send_messages (tcp_send C) ms u = (Ok (), u') \<and>
      (\<forall>p. \<exists>ls. tcp_sent Q u' p = tcp_sent Q u p @ ls \<and>
         subseq ls (map (\<lambda>m. m\<lparr>m_from := tt_node_id u\<rparr>) (filter (\<lambda>m. m_to m = p) ms)))) \<and>
    (\<not> local_has_peer t to \<longrightarrow> local_send C to m t = (Err (PeerNotFound to), t)) \<and>
    (\<not> tcp_has_peer u to \<longrightarrow> tcp_send C to m u = (Err (PeerNotFound to), u))"
  using local.send_messages_sound [OF assms, of ms t] tcp.send_messages_sound [OF assms, of ms u]
    local.send_unknown [of t to C m] tcp.send_unknown [of u to C m]
  unfolding local_node_id_def tcp_node_id_def by blast

text \<open>A bounded channel of capacity two, as a queue, for the witnesses.\<close>

definition sample_chan :: "message list chan_libs" where
  "sample_chan = \<lparr>try_send = (\<lambda>m c. if length c < 2 then (Ok (), c @ [m]) else (Err (Full m), c)),
     chan_send = (\<lambda>m c. (Ok (), c @ [m]))\<rparr>"

lemma sample_chan_ok: "chan_ok sample_chan (\<lambda>c. c)"
  by (auto simp: chan_ok_def sample_chan_def)

definition sample_message :: "u64 \<Rightarrow> u64 \<Rightarrow> message" where
  "sample_message to t = \<lparr>m_type = 8, m_to = to, m_from = 0, m_term = t, m_rest = []\<rparr>"

theorem transports_deliver_in_order_witness:
  "let t = \<lparr>lt_node_id = 1, lt_peers = [(2, [])]\<rparr>;
       ms = [sample_message 2 1, sample_message 3 1, sample_message 2 2, sample_message 2 3] in
   \<exists>t'. send_messages (local_send sample_chan) ms t = (Ok (), t') \<and>
     local_sent (\<lambda>c. c) t' 2 = [(sample_message 2 1)\<lparr>m_from := 1\<rparr>, (sample_message 2 2)\<lparr>m_from := 1\<rparr>] \<and>
     subseq (local_sent (\<lambda>c. c) t' 2)
       (map (\<lambda>m. m\<lparr>m_from := 1\<rparr>) (filter (\<lambda>m. m_to m = 2) ms))"
proof -
  let ?t = "\<lparr>lt_node_id = 1, lt_peers = [(2, [])]\<rparr> :: message list local_transport"
  let ?ms = "[sample_message 2 1, sample_message 3 1, sample_message 2 2, sample_message 2 3]"
  from transports_deliver_in_order [OF sample_chan_ok, of ?ms ?t] obtain t' where
    t': "send_messages (local_send sample_chan) ?ms ?t = (Ok (), t')"
    "\<exists>ls. local_sent (\<lambda>c. c) t' 2 = local_sent (\<lambda>c. c) ?t 2 @ ls \<and>
       subseq ls (map (\<lambda>m. m\<lparr>m_from := lt_node_id ?t\<rparr>) (filter (\<lambda>m. m_to m = 2) ?ms))" by blast
  have "local_sent (\<lambda>c. c) t' 2 =
      [(sample_message 2 1)\<lparr>m_from := 1\<rparr>, (sample_message 2 2)\<lparr>m_from := 1\<rparr>]"
    using t'(1) by (auto simp: local_send_def sample_chan_def sample_message_def Let_def bt_get_eq
        local_sent_def)
  moreover have "local_sent (\<lambda>c. c) ?t 2 = []" by (simp add: local_sent_def bt_get_eq)
  ultimately show ?thesis using t' unfolding Let_def by (intro exI [of _ t']) simp
qed

text \<open>
  A TCP transport that starts has a channel for every peer of the map except this
  node, and for nobody else: a message to this node itself is refused.
\<close>

theorem tcp_new_peers:
  assumes "tcp_new C node_id peers = Ok t"
  shows "tcp_node_id t = node_id \<and>
    (\<forall>p. tcp_has_peer t p \<longleftrightarrow> p \<noteq> node_id \<and> p \<in> fst ` set peers) \<and>
    tcp_send C node_id m t = (Err (PeerNotFound node_id), t)"
proof -
  obtain s where s: "tcp_start_senders C node_id peers [] = Ok s"
    and t: "t = \<lparr>tt_node_id = node_id, tt_peer_senders = s\<rparr>"
    using assms by (auto simp: tcp_new_def)
  show ?thesis
    by (simp add: t tcp_node_id_def tcp_has_peer_def tcp_send_def bt_get_start_senders [OF s])
qed

theorem tcp_new_peers_witness:
  "\<exists>t. tcp_new (chan_libs.extend sample_chan (tcp_libs.fields [] (\<lambda>name. Ok () :: (unit, string) result)))
         1 [(1, ()), (2, ()), (3, ())] = Ok t \<and> tcp_has_peer t 3 \<and> \<not> tcp_has_peer t 1"
proof -
  let ?C = "chan_libs.extend sample_chan (tcp_libs.fields [] (\<lambda>name. Ok () :: (unit, string) result))"
  obtain t where t: "tcp_new ?C 1 [(1, ()), (2, ()), (3, ())] = Ok t"
    by (simp add: tcp_new_def tcp_libs.defs chan_libs.defs)
  from tcp_new_peers [OF this] t show ?thesis by auto
qed

end
