(* ===== verification/Loop_Types.thy ===== *)
theory Loop_Types
  imports Raft_Node Network
begin

text \<open>
  What the parts of the ready loop share (the types of
  \<^verbatim>\<open>crates/raft-core/src/raft_loop.rs\<close>): the updates for the TUI, the errors, and the
  state the entry applicator and the command handler work on.

  Sending an update to the TUI or answering a oneshot has a result the code always
  ignores, so both are modelled by what was handed over: \<open>updates\<close> and \<open>replies\<close> list it,
  oldest first.
\<close>

section \<open>Updates, errors\<close>

datatype state_update =
    RaftStateUpdate raft_state
  | KvUpdate string string
  | LogEntry u64 u64 string
  | SystemMessage string

datatype raft_loop_error =
    CommandChannelClosed
  | MessageChannelClosed
  | StorageError raft_error
  | TransportFailed transport_error
  | ProtobufDecode string
  | OtherError string

fun show_raft_loop_error ::
    "('t, 'm, 'r, 'z) raft_libs_scheme \<Rightarrow> raft_loop_error \<Rightarrow> string" where
  "show_raft_loop_error L CommandChannelClosed = ''Command channel closed unexpectedly''"
| "show_raft_loop_error L MessageChannelClosed = ''Message channel closed unexpectedly''"
| "show_raft_loop_error L (StorageError e) = ''Storage error: '' @ show_raft_error L e"
| "show_raft_loop_error L (TransportFailed e) = ''Transport error: '' @ show_transport_error e"
| "show_raft_loop_error L (ProtobufDecode e) = ''Failed to decode protobuf: '' @ e"
| "show_raft_loop_error L (OtherError e) = e"

datatype reply =
    PutReply oneshot "(unit, string) result"
  | GetReply oneshot "string option"

fun reply_to :: "reply \<Rightarrow> oneshot" where
  "reply_to (PutReply c r) = c"
| "reply_to (GetReply c v) = c"

section \<open>State\<close>

record ('t, 'm, 'r) app_state =
  raft_node_of :: "('t, 'm, 'r) raft_node"
  kv_node :: node
  updates :: "state_update list"
  replies :: "reply list"

definition send_update ::
    "state_update \<Rightarrow> ('t, 'm, 'r, 'y) app_state_scheme \<Rightarrow> ('t, 'm, 'r, 'y) app_state_scheme" where
  "send_update u s = s\<lparr>updates := updates s @ [u]\<rparr>"

definition send_reply ::
    "reply \<Rightarrow> ('t, 'm, 'r, 'y) app_state_scheme \<Rightarrow> ('t, 'm, 'r, 'y) app_state_scheme" where
  "send_reply r s = s\<lparr>replies := replies s @ [r]\<rparr>"

text \<open>An operation of the raft node, of its storage with the error \<open>RaftLoopError::Storage\<close>.\<close>

definition on_node ::
    "(('t, 'm, 'r) raft_node, 'a, 'e) op \<Rightarrow> (('t, 'm, 'r, 'y) app_state_scheme, 'a, 'e) op" where
  "on_node f s = (case f (raft_node_of s) of (r, n) \<Rightarrow> (r, s\<lparr>raft_node_of := n\<rparr>))"

definition storage_op ::
    "(('t, 'm) raft_storage, 'a, raft_error) op \<Rightarrow>
     (('t, 'm, 'r, 'y) app_state_scheme, 'a, raft_loop_error) op" where
  "storage_op f s =
     (case f (raft_store (raft_node_of s)) of
        (r, st) \<Rightarrow> (map_err StorageError r,
                    s\<lparr>raft_node_of := (raft_node_of s)\<lparr>raft_store := st\<rparr>\<rparr>))"

lemma storage_op_Ok [simp]:
  "f (raft_store (raft_node_of s)) = (Ok a, st) \<Longrightarrow>
   storage_op f s = (Ok a, s\<lparr>raft_node_of := (raft_node_of s)\<lparr>raft_store := st\<rparr>\<rparr>)"
  by (simp add: storage_op_def)

lemma storage_op_Err [simp]:
  "f (raft_store (raft_node_of s)) = (Err e, st) \<Longrightarrow>
   storage_op f s = (Err (StorageError e), s\<lparr>raft_node_of := (raft_node_of s)\<lparr>raft_store := st\<rparr>\<rparr>)"
  by (simp add: storage_op_def)

text \<open>What an operation on the storage leaves alone.\<close>

lemma storage_op_frame [frame_simps]:
  "kv_node (snd (storage_op f s)) = kv_node s"
  "updates (snd (storage_op f s)) = updates s"
  "replies (snd (storage_op f s)) = replies s"
  "raw (raft_node_of (snd (storage_op f s))) = raw (raft_node_of s)"
  "callbacks (raft_node_of (snd (storage_op f s))) = callbacks (raft_node_of s)"
  "uuids (raft_node_of (snd (storage_op f s))) = uuids (raft_node_of s)"
  by (simp_all add: storage_op_def split: prod.split)

end
