(* ===== verification/Entry_Applicator.thy ===== *)
theory Entry_Applicator
  imports Loop_Types
begin

text \<open>
  Applying committed entries to the key-value node,
  \<^verbatim>\<open>crates/raft-core/src/entry_applicator.rs\<close>, and the trait \<open>EntryApplicator\<close> as the
  locale the ready processor relies on.
\<close>

section \<open>KvEntryApplicator\<close>

text \<open>\<open>take_callback\<close> followed by an answer, if there was one.\<close>

definition answer_callback ::
    "bytes \<Rightarrow> (unit, string) result \<Rightarrow> ('t, 'm, 'r, 'y) app_state_scheme \<Rightarrow>
     ('t, 'm, 'r, 'y) app_state_scheme" where
  "answer_callback context r s =
     (case take_callback context (raft_node_of s) of
        (callback, n) \<Rightarrow>
          let s = s\<lparr>raft_node_of := n\<rparr> in
          case callback of Some cb \<Rightarrow> send_reply (PutReply cb r) s | None \<Rightarrow> s)"

text \<open>
  \<open>notify_kv_update\<close>: decodes the entry again, tells the TUI and answers the caller. It is
  called on an entry that has just been decoded, so the decoder does not panic here.
\<close>

definition notify_kv_update ::
    "('t, 'm, 'r, 'z) raft_libs_scheme \<Rightarrow> entry \<Rightarrow> ('t, 'm, 'r, 'y) app_state_scheme \<Rightarrow>
     ('t, 'm, 'r, 'y) app_state_scheme" where
  "notify_kv_update L e s =
     (case codec_decode L (e_data e) of
        Ok c \<Rightarrow>
          (case cmd c of
             Some (CmdPut key val) \<Rightarrow>
               answer_callback (e_context e) (Ok ())
                 (send_update (LogEntry (e_index e) (e_term e) (''PUT '' @ key @ '' = '' @ val))
                   (send_update (KvUpdate key val) s))
           | None \<Rightarrow> s)
      | _ \<Rightarrow> s)"

definition apply_normal_entry ::
    "('t, 'm, 'r, 'z) raft_libs_scheme \<Rightarrow> entry \<Rightarrow>
     (('t, 'm, 'r, 'y) app_state_scheme, unit, raft_loop_error) op" where
  "apply_normal_entry L e s =
     (case apply_kv_command L (e_data e) (kv_node s) of
        (Ok u, k) \<Rightarrow>
          storage_op (storage_set_applied_index L (e_index e))
            (notify_kv_update L e (s\<lparr>kv_node := k\<rparr>))
      | (Err err, k) \<Rightarrow>
          storage_op (storage_set_applied_index L (e_index e))
            (answer_callback (e_context e) (Err (''Apply failed: '' @ err)) (s\<lparr>kv_node := k\<rparr>))
      | (Panic, k) \<Rightarrow> (Panic, s\<lparr>kv_node := k\<rparr>))"

text \<open>
  The common part of \<open>apply_conf_change\<close> and \<open>apply_conf_change_v2\<close>, after decoding: a
  change the crate refuses is skipped and not marked as applied.
\<close>

definition apply_decoded_conf_change ::
    "('t, 'm, 'r, 'z) raft_libs_scheme \<Rightarrow> any_conf_change \<Rightarrow> entry \<Rightarrow>
     (('t, 'm, 'r, 'y) app_state_scheme, unit, raft_loop_error) op" where
  "apply_decoded_conf_change L cc e s =
     (case on_node (on_raw (\<lambda>st. raw_apply_conf_change L st cc)) s of
        (Ok cs, s) \<Rightarrow>
          bindO (storage_op (storage_set_conf_state L cs)) (\<lambda>_.
          storage_op (storage_set_applied_index L (e_index e))) s
      | (Err err, s) \<Rightarrow> (Ok (), s)
      | (Panic, s) \<Rightarrow> (Panic, s))"

definition apply_conf_change ::
    "('t, 'm, 'r, 'z) raft_libs_scheme \<Rightarrow> entry \<Rightarrow>
     (('t, 'm, 'r, 'y) app_state_scheme, unit, raft_loop_error) op" where
  "apply_conf_change L e s =
     (case decode_conf_change L (e_data e) of
        Ok cc \<Rightarrow> apply_decoded_conf_change L (ConfChangeV1 cc) e s
      | Err err \<Rightarrow> (Ok (), s)
      | Panic \<Rightarrow> (Panic, s))"

definition apply_conf_change_v2 ::
    "('t, 'm, 'r, 'z) raft_libs_scheme \<Rightarrow> entry \<Rightarrow>
     (('t, 'm, 'r, 'y) app_state_scheme, unit, raft_loop_error) op" where
  "apply_conf_change_v2 L e s =
     (case decode_conf_change_v2 L (e_data e) of
        Ok cc \<Rightarrow> apply_decoded_conf_change L (ConfChangeV2 cc) e s
      | Err err \<Rightarrow> (Ok (), s)
      | Panic \<Rightarrow> (Panic, s))"

text \<open>The body of the loop of \<open>apply_entries\<close>, and the loop.\<close>

definition apply_entry ::
    "('t, 'm, 'r, 'z) raft_libs_scheme \<Rightarrow> entry \<Rightarrow>
     (('t, 'm, 'r, 'y) app_state_scheme, unit, raft_loop_error) op" where
  "apply_entry L e =
     (if e_data e = [] then retO ()
      else case e_type e of
             EntryNormal \<Rightarrow> apply_normal_entry L e
           | EntryConfChange \<Rightarrow> apply_conf_change L e
           | EntryConfChangeV2 \<Rightarrow> apply_conf_change_v2 L e)"

fun apply_entries ::
    "('t, 'm, 'r, 'z) raft_libs_scheme \<Rightarrow> entry list \<Rightarrow>
     (('t, 'm, 'r, 'y) app_state_scheme, unit, raft_loop_error) op" where
  "apply_entries L [] = retO ()"
| "apply_entries L (e # es) = bindO (apply_entry L e) (\<lambda>_. apply_entries L es)"

text \<open>The node of the loop uses the default codec, bincode.\<close>

definition restore_snapshot ::
    "('t, 'm, 'r, 'z) raft_libs_scheme \<Rightarrow> bytes \<Rightarrow>
     (('t, 'm, 'r, 'y) app_state_scheme, unit, raft_loop_error) op" where
  "restore_snapshot L snapshot_data s =
     (case restore_from_snapshot (bincode_codec_decode L) snapshot_data (kv_node s) of
        (r, k) \<Rightarrow>
          (map_err (\<lambda>e. OtherError (''Failed to restore snapshot: '' @ show_snapshot_error e)) r,
           s\<lparr>kv_node := k\<rparr>))"

section \<open>The interface of an applicator\<close>

text \<open>
  What the ready processor relies on. Applying succeeds and keeps the invariant, what raft
  must not lose (\<open>durable\<close>) and everything the applicator does not own (\<open>rest\<close>), and its
  effect on the state machine (\<open>view\<close>) is that of the entries in order; restoring keeps them too and
  fails, if it fails, without touching the storage.
\<close>

locale entry_applicator =
  fixes lib :: bool
    and inv :: "'s \<Rightarrow> bool"
    and durable :: "'s \<Rightarrow> 'd"
    and rest :: "'s \<Rightarrow> 'y"
    and view :: "'s \<Rightarrow> 'v"
    and effect :: "entry \<Rightarrow> 'v \<Rightarrow> 'v"
    and apply_es :: "entry list \<Rightarrow> ('s, unit, raft_loop_error) op"
    and restore :: "bytes \<Rightarrow> ('s, unit, raft_loop_error) op"
  assumes apply_es_ok: "lib \<Longrightarrow> inv s \<Longrightarrow>
      \<exists>s'. apply_es es s = (Ok (), s') \<and> inv s' \<and> durable s' = durable s \<and> rest s' = rest s \<and>
           view s' = fold effect es (view s)"
    and restore_keeps: "lib \<Longrightarrow> inv s \<Longrightarrow> restore b s = (r, s') \<Longrightarrow>
      inv s' \<and> durable s' = durable s \<and> rest s' = rest s \<and> (r = Ok () \<or> (\<exists>m. r = Err (OtherError m)))"

section \<open>Lemmas\<close>

text \<open>The third-party functions called here return: no panic.\<close>

definition apply_total :: "('t, 'm, 'r, 'z) raft_libs_scheme \<Rightarrow> bool" where
  "apply_total L \<longleftrightarrow>
     (\<forall>b. prost_decode L b \<noteq> Panic) \<and> (\<forall>b. bincode_decode_map L b \<noteq> Panic) \<and>
     (\<forall>b. decode_conf_change L b \<noteq> Panic) \<and> (\<forall>b. decode_conf_change_v2 L b \<noteq> Panic) \<and>
     (\<forall>st cc w. fst (raw_apply_conf_change L st cc w) \<noteq> Panic)"

definition apply_ok ::
    "('t, 'm, 'r, 'z) raft_libs_scheme \<Rightarrow> ('t \<Rightarrow> bytes \<rightharpoonup> bytes) \<Rightarrow> ('t \<Rightarrow> bytes \<rightharpoonup> bytes) \<Rightarrow> bool" where
  "apply_ok L V D \<longleftrightarrow> storage_ok L V D \<and> bincode_ok L \<and> apply_total L"

definition app_inv ::
    "('t, 'm, 'r, 'z) raft_libs_scheme \<Rightarrow> ('t \<Rightarrow> bytes \<rightharpoonup> bytes) \<Rightarrow> ('t \<Rightarrow> bytes \<rightharpoonup> bytes) \<Rightarrow>
     ('t, 'm, 'r, 'y) app_state_scheme \<Rightarrow> bool" where
  "app_inv L V D s \<longleftrightarrow>
     storage_inv L V D (raft_store (raft_node_of s)) \<and>
     callbacks_inv L (raft_node_of s) \<and>
     bt_wf (kv (kv_node s))"

text \<open>What raft itself must not lose: hard state, log and snapshot.\<close>

definition app_durable ::
    "('t, 'm, 'r, 'z) raft_libs_scheme \<Rightarrow> ('t \<Rightarrow> bytes \<rightharpoonup> bytes) \<Rightarrow>
     ('t, 'm, 'r, 'y) app_state_scheme \<Rightarrow>
     hard_state option \<times> ((u64 \<rightharpoonup> entry) \<times> snapshot option) option" where
  "app_durable L V s =
     (case storage_initial_state L (raft_store (raft_node_of s)) of
        Ok (hs, cs) \<Rightarrow> Some hs | _ \<Rightarrow> None,
      storage_log L V (raft_store (raft_node_of s)))"

text \<open>The effect of an entry on the abstract map, and of a list of entries.\<close>

definition entry_effect ::
    "('t, 'm, 'r, 'z) raft_libs_scheme \<Rightarrow> entry \<Rightarrow> (string \<rightharpoonup> string) \<Rightarrow> (string \<rightharpoonup> string)" where
  "entry_effect L e \<sigma> =
     (if e_data e = [] \<or> e_type e \<noteq> EntryNormal then \<sigma>
      else case prost_decode L (e_data e) of
             Ok c \<Rightarrow> (case cmd c of Some (CmdPut k v) \<Rightarrow> \<sigma>(k \<mapsto> v) | None \<Rightarrow> \<sigma>)
           | _ \<Rightarrow> \<sigma>)"

lemma answer_callback_frame [frame_simps]:
  "kv_node (answer_callback c r s) = kv_node s"
  "updates (answer_callback c r s) = updates s"
  "raft_store (raft_node_of (answer_callback c r s)) = raft_store (raft_node_of s)"
  "raw (raft_node_of (answer_callback c r s)) = raw (raft_node_of s)"
  "callbacks (raft_node_of (answer_callback c r s)) = (callbacks (raft_node_of s))(c := None)"
  "replies (answer_callback c r s) = replies s @
     (case callbacks (raft_node_of s) c of Some cb \<Rightarrow> [PutReply cb r] | None \<Rightarrow> [])"
  "app_state.more (answer_callback c r s) = app_state.more s"
  by (simp_all add: answer_callback_def take_callback_def send_reply_def Let_def split: option.split)

lemma answer_callback_inv:
  "callbacks_inv L (raft_node_of s) \<Longrightarrow> callbacks_inv L (raft_node_of (answer_callback c r s))"
  using callbacks_inv_take [of L "raft_node_of s" c]
  by (simp add: answer_callback_def take_callback_def send_reply_def Let_def split: option.split)

lemma notify_frame [frame_simps]:
  "kv_node (notify_kv_update L e s) = kv_node s"
  "raft_store (raft_node_of (notify_kv_update L e s)) = raft_store (raft_node_of s)"
  "raw (raft_node_of (notify_kv_update L e s)) = raw (raft_node_of s)"
  "app_state.more (notify_kv_update L e s) = app_state.more s"
  by (simp_all add: notify_kv_update_def send_update_def frame_simps
      split: result.split option.split kv_cmd.split)

lemma notify_inv:
  "callbacks_inv L (raft_node_of s) \<Longrightarrow> callbacks_inv L (raft_node_of (notify_kv_update L e s))"
  by (simp add: notify_kv_update_def send_update_def answer_callback_inv
      split: result.split option.split kv_cmd.split)

lemma storage_op_inv:
  "callbacks_inv L (raft_node_of s) \<Longrightarrow> callbacks_inv L (raft_node_of (snd (storage_op f s)))"
  by (simp add: callbacks_inv_def frame_simps)

text \<open>
  What the caller of a proposal is told when its entry is applied (\<open>None\<close>: nothing), and
  the answers this gives with the callbacks pending.
\<close>

definition entry_answer ::
    "('t, 'm, 'r, 'z) raft_libs_scheme \<Rightarrow> entry \<Rightarrow> (unit, string) result option" where
  "entry_answer L e =
     (if e_data e = [] \<or> e_type e \<noteq> EntryNormal then None
      else case prost_decode L (e_data e) of
             Ok c \<Rightarrow> if cmd c = None then None else Some (Ok ())
           | Err m \<Rightarrow> Some (Err (''Apply failed: '' @ m))
           | Panic \<Rightarrow> None)"

definition entry_replies ::
    "('t, 'm, 'r, 'z) raft_libs_scheme \<Rightarrow> (bytes \<rightharpoonup> oneshot) \<Rightarrow> entry \<Rightarrow> reply list" where
  "entry_replies L cbs e =
     (case entry_answer L e of
        Some r \<Rightarrow> (case cbs (e_context e) of Some cb \<Rightarrow> [PutReply cb r] | None \<Rightarrow> [])
      | None \<Rightarrow> [])"

definition answered ::
    "('t, 'm, 'r, 'z) raft_libs_scheme \<Rightarrow> entry \<Rightarrow> (bytes \<rightharpoonup> oneshot) \<Rightarrow> (bytes \<rightharpoonup> oneshot)" where
  "answered L e cbs = (if entry_answer L e = None then cbs else cbs(e_context e := None))"

text \<open>One entry applied, seen through the abstract state.\<close>

definition applied_step ::
    "('t, 'm, 'r, 'z) raft_libs_scheme \<Rightarrow> ('t \<Rightarrow> bytes \<rightharpoonup> bytes) \<Rightarrow> ('t \<Rightarrow> bytes \<rightharpoonup> bytes) \<Rightarrow> entry \<Rightarrow>
     ('t, 'm, 'r, 'y) app_state_scheme \<Rightarrow> ('t, 'm, 'r, 'y) app_state_scheme \<Rightarrow> bool" where
  "applied_step L V D e s s' \<longleftrightarrow>
     app_inv L V D s' \<and> app_durable L V s' = app_durable L V s \<and> app_state.more s' = app_state.more s \<and>
     kv_abs (kv_node s') = entry_effect L e (kv_abs (kv_node s)) \<and>
     replies s' = replies s @ entry_replies L (callbacks (raft_node_of s)) e \<and>
     callbacks (raft_node_of s') = answered L e (callbacks (raft_node_of s)) \<and>
     (e_type e = EntryNormal \<and> e_data e \<noteq> [] \<longrightarrow>
        storage_applied_index (raft_store (raft_node_of s')) = e_index e)"

lemma mark_applied:
  assumes "storage_ok L V D" and "app_inv L V D s"
  shows "\<exists>st. storage_op (storage_set_applied_index L i) s =
        (Ok (), s\<lparr>raft_node_of := (raft_node_of s)\<lparr>raft_store := st\<rparr>\<rparr>) \<and>
      storage_inv L V D st \<and> storage_applied_index st = i \<and>
      storage_initial_state L st = storage_initial_state L (raft_store (raft_node_of s)) \<and>
      storage_log L V st = storage_log L V (raft_store (raft_node_of s))"
  using store.set_applied_ok [OF assms(1), of "raft_store (raft_node_of s)" i] assms(2)
  by (auto simp: app_inv_def)

lemma apply_normal_ok:
  assumes L: "apply_ok L V D" and s: "app_inv L V D s"
    and e: "e_data e \<noteq> []" "e_type e = EntryNormal"
  shows "\<exists>s'. apply_normal_entry L e s = (Ok (), s') \<and> applied_step L V D e s s'"
proof -
  have sok: "storage_ok L V D" and total: "prost_decode L b \<noteq> Panic" for b
    using L by (auto simp: apply_ok_def apply_total_def)
  obtain r k where k: "apply_kv_command L (e_data e) (kv_node s) = (r, k)" by fastforce
  define t where "t = (case r of
      Err err \<Rightarrow> answer_callback (e_context e) (Err (''Apply failed: '' @ err)) (s\<lparr>kv_node := k\<rparr>)
    | _ \<Rightarrow> notify_kv_update L e (s\<lparr>kv_node := k\<rparr>))"
  have r: "r \<noteq> Panic"
    using k total [of "e_data e"]
    by (auto simp: apply_kv_command_def codec_decode_def bindO_def
        split: result.splits option.splits kv_cmd.splits)
  then have run: "apply_normal_entry L e s = storage_op (storage_set_applied_index L (e_index e)) t"
    by (cases r) (simp_all add: apply_normal_entry_def k t_def)
  have eff: "kv_abs k = entry_effect L e (kv_abs (kv_node s))"
    using k r
    by (cases "prost_decode L (e_data e)")
      (auto simp: e entry_effect_def apply_kv_command_def codec_decode_def split: option.splits kv_cmd.splits)
  have t_frame: "kv_node t = k" "raft_store (raft_node_of t) = raft_store (raft_node_of s)"
    "app_state.more t = app_state.more s"
    by (cases r; simp add: t_def frame_simps)+
  have t_out: "replies t = replies s @ entry_replies L (callbacks (raft_node_of s)) e \<and>
      callbacks (raft_node_of t) = answered L e (callbacks (raft_node_of s))"
  proof (cases "prost_decode L (e_data e)")
    case (Ok c)
    then have "\<exists>u. r = Ok u"
      using k by (auto simp: apply_kv_command_def codec_decode_def split: option.splits kv_cmd.splits)
    with Ok show ?thesis
      by (auto simp: t_def notify_kv_update_def codec_decode_def entry_replies_def entry_answer_def e
          answered_def frame_simps send_update_def split: option.split kv_cmd.split)
  next
    case (Err m)
    then have "r = Err m"
      using k by (simp add: apply_kv_command_err)
    with Err show ?thesis
      by (simp add: t_def entry_replies_def entry_answer_def e answered_def frame_simps)
  qed (use total in blast)
  have "callbacks_inv L (raft_node_of t)"
    using s r by (cases r) (auto simp: t_def app_inv_def notify_inv answer_callback_inv)
  moreover have "bt_wf (kv k)"
    using s apply_kv_command_wf [OF _ k] by (simp add: app_inv_def)
  ultimately have "app_inv L V D t"
    using s by (simp add: app_inv_def t_frame)
  from mark_applied [OF sok this, of "e_index e"] obtain st where
    st: "storage_op (storage_set_applied_index L (e_index e)) t =
        (Ok (), t\<lparr>raft_node_of := (raft_node_of t)\<lparr>raft_store := st\<rparr>\<rparr>)"
    "storage_inv L V D st" "storage_applied_index st = e_index e"
    "storage_initial_state L st = storage_initial_state L (raft_store (raft_node_of t))"
    "storage_log L V st = storage_log L V (raft_store (raft_node_of t))" by blast
  with \<open>app_inv L V D t\<close> t_frame t_out eff show ?thesis
    by (simp add: run applied_step_def app_inv_def app_durable_def callbacks_inv_def)
qed

lemma apply_decoded_conf_change_ok:
  assumes L: "apply_ok L V D" and s: "app_inv L V D s" and e: "e_type e \<noteq> EntryNormal"
  shows "\<exists>s'. apply_decoded_conf_change L cc e s = (Ok (), s') \<and> applied_step L V D e s s'"
proof -
  have sok: "storage_ok L V D" using L by (simp add: apply_ok_def)
  obtain r w where w: "raw_apply_conf_change L (raft_store (raft_node_of s)) cc (raw (raft_node_of s)) = (r, w)"
    by fastforce
  let ?s = "s\<lparr>raft_node_of := (raft_node_of s)\<lparr>raw := w\<rparr>\<rparr>"
  have on: "on_node (on_raw (\<lambda>st. raw_apply_conf_change L st cc)) s = (r, ?s)"
    by (simp add: on_node_def on_raw_def w)
  have r: "r \<noteq> Panic" using L w unfolding apply_ok_def apply_total_def by (metis fst_conv)
  have none: "entry_effect L e = (\<lambda>\<sigma>. \<sigma>)" "entry_answer L e = None"
    using e by (simp_all add: entry_effect_def fun_eq_iff entry_answer_def)
  show ?thesis
  proof (cases r)
    case (Ok cs)
    have inv: "storage_inv L V D (raft_store (raft_node_of s))" using s by (simp add: app_inv_def)
    from store.set_conf_applied [OF sok inv, of cs "e_index e"] obtain st' hs cs0 where
      st: "storage_initial_state L (raft_store (raft_node_of s)) = Ok (hs, cs0)"
      "bindO (storage_set_conf_state L cs) (\<lambda>_. storage_set_applied_index L (e_index e))
         (raft_store (raft_node_of s)) = (Ok (), st')"
      "storage_inv L V D st'" "storage_initial_state L st' = Ok (hs, cs)"
      "storage_log L V st' = storage_log L V (raft_store (raft_node_of s))" by blast
    then have "bindO (storage_op (storage_set_conf_state L cs))
        (\<lambda>_. storage_op (storage_set_applied_index L (e_index e))) ?s =
        (Ok (), ?s\<lparr>raft_node_of := (raft_node_of ?s)\<lparr>raft_store := st'\<rparr>\<rparr>)"
      by (auto simp: bindO_eq_Ok)
    with s st Ok none e show ?thesis
      by (simp add: apply_decoded_conf_change_def on applied_step_def app_inv_def app_durable_def
          callbacks_inv_def entry_replies_def answered_def)
  next
    case (Err x)
    with s none e show ?thesis
      by (simp add: apply_decoded_conf_change_def on applied_step_def app_inv_def app_durable_def
          callbacks_inv_def entry_replies_def answered_def)
  qed (use r in blast)
qed

lemma applied_step_skip:
  assumes "app_inv L V D s" and "e_data e = [] \<or> e_type e \<noteq> EntryNormal"
  shows "applied_step L V D e s s"
  using assms
  by (auto simp: applied_step_def entry_effect_def entry_replies_def entry_answer_def answered_def)

lemma apply_entry_ok:
  assumes L: "apply_ok L V D" and s: "app_inv L V D s"
  shows "\<exists>s'. apply_entry L e s = (Ok (), s') \<and> applied_step L V D e s s'"
proof (cases "e_data e = []")
  case True
  with applied_step_skip [OF s] show ?thesis by (simp add: apply_entry_def)
next
  case False
  have total: "decode_conf_change L (e_data e) \<noteq> Panic" "decode_conf_change_v2 L (e_data e) \<noteq> Panic"
    using L by (auto simp: apply_ok_def apply_total_def)
  show ?thesis
  proof (cases "e_type e")
    case EntryNormal
    with False apply_normal_ok [OF L s False] show ?thesis by (simp add: apply_entry_def)
  next
    case EntryConfChange
    with False total(1) apply_decoded_conf_change_ok [OF L s, of e] applied_step_skip [OF s, of e]
    show ?thesis
      by (cases "decode_conf_change L (e_data e)") (simp_all add: apply_entry_def apply_conf_change_def)
  next
    case EntryConfChangeV2
    with False total(2) apply_decoded_conf_change_ok [OF L s, of e] applied_step_skip [OF s, of e]
    show ?thesis
      by (cases "decode_conf_change_v2 L (e_data e)")
        (simp_all add: apply_entry_def apply_conf_change_v2_def)
  qed
qed

section \<open>A batch\<close>

fun batch_replies ::
    "('t, 'm, 'r, 'z) raft_libs_scheme \<Rightarrow> (bytes \<rightharpoonup> oneshot) \<Rightarrow> entry list \<Rightarrow> reply list" where
  "batch_replies L cbs [] = []"
| "batch_replies L cbs (e # es) = entry_replies L cbs e @ batch_replies L (answered L e cbs) es"

lemma apply_entries_ok:
  assumes L: "apply_ok L V D"
  shows "app_inv L V D s \<Longrightarrow>
    \<exists>s'. apply_entries L es s = (Ok (), s') \<and> app_inv L V D s' \<and> app_durable L V s' = app_durable L V s \<and>
      app_state.more s' = app_state.more s \<and>
      kv_abs (kv_node s') = fold (entry_effect L) es (kv_abs (kv_node s)) \<and>
      replies s' = replies s @ batch_replies L (callbacks (raft_node_of s)) es \<and>
      callbacks (raft_node_of s') = fold (answered L) es (callbacks (raft_node_of s)) \<and>
      ((\<forall>e \<in> set es. e_type e = EntryNormal) \<longrightarrow>
         storage_applied_index (raft_store (raft_node_of s')) =
           (case filter (\<lambda>e. e_data e \<noteq> []) es of
              [] \<Rightarrow> storage_applied_index (raft_store (raft_node_of s))
            | xs \<Rightarrow> e_index (last xs)))"
proof (induction es arbitrary: s)
  case Nil
  then show ?case by simp
next
  case (Cons e es)
  obtain t where t: "apply_entry L e s = (Ok (), t)" "applied_step L V D e s t"
    using apply_entry_ok [OF L Cons.prems] by blast
  have skip: "e_data e = [] \<Longrightarrow> t = s" using t(1) by (simp add: apply_entry_def)
  have "app_inv L V D t" using t(2) by (simp add: applied_step_def)
  from Cons.IH [OF this] t show ?case
    by (cases "e_data e = []")
      (auto simp: applied_step_def skip split: list.splits)
qed

lemma restore_snapshot_keeps:
  assumes L: "apply_ok L V D" and s: "app_inv L V D s" and r: "restore_snapshot L b s = (r, s')"
  shows "app_inv L V D s' \<and> app_durable L V s' = app_durable L V s \<and> app_state.more s' = app_state.more s \<and>
    (r = Ok () \<or> (\<exists>m. r = Err (OtherError m)))"
proof -
  have bin: "bincode_ok L" and total: "bincode_decode_map L b \<noteq> Panic"
    using L by (auto simp: apply_ok_def apply_total_def)
  have np: "bincode_codec_decode L b \<noteq> Panic"
    using total by (auto simp: bincode_codec_decode_def bindR_eq_Panic)
  show ?thesis
  proof (cases "bincode_codec_decode L b")
    case (Ok m)
    then have "bt_wf m" using bincode_codec.dec_wf [OF bin] by blast
    with Ok r s show ?thesis
      by (auto simp: restore_snapshot_def restore_from_snapshot_def app_inv_def app_durable_def)
  next
    case (Err e)
    with r s show ?thesis
      by (auto simp: restore_snapshot_def restore_from_snapshot_def app_inv_def app_durable_def)
  qed (use np in blast)
qed

interpretation kv_applicator:
  entry_applicator "apply_ok L V D" "app_inv L V D" "app_durable L V" app_state.more
    "\<lambda>s. kv_abs (kv_node s)" "entry_effect L" "apply_entries L" "restore_snapshot L" for L V D
  by unfold_locales (use apply_entries_ok in blast, fact restore_snapshot_keeps)

lemma answered_other: "e_context e \<noteq> c \<Longrightarrow> answered L e cbs c = cbs c"
  by (simp add: answered_def)

lemma batch_replies_distinct:
  assumes "distinct (map e_context (filter (\<lambda>e. entry_answer L e \<noteq> None) es))"
  shows "batch_replies L cbs es = concat (map (entry_replies L cbs) es)"
  using assms
proof (induction es arbitrary: cbs)
  case (Cons e es)
  have "entry_replies L (answered L e cbs) x = entry_replies L cbs x" if "x \<in> set es" for x
    using Cons.prems that
    by (cases "entry_answer L x"; cases "entry_answer L e")
      (force simp: entry_replies_def answered_def image_iff)+
  then have eq: "map (entry_replies L (answered L e cbs)) es = map (entry_replies L cbs) es" by simp
  have "batch_replies L (answered L e cbs) es = concat (map (entry_replies L (answered L e cbs)) es)"
    using Cons by (auto split: if_splits)
  then show ?case unfolding eq by simp
qed simp

lemma fold_answered:
  "fold (answered L) es cbs c =
     (if \<exists>e \<in> set es. entry_answer L e \<noteq> None \<and> e_context e = c then None else cbs c)"
proof (induction es arbitrary: cbs)
  case (Cons e es)
  then show ?case by (auto simp: answered_def)
qed simp

section \<open>Properties\<close>

definition sample_app ::
    "sample_raw \<Rightarrow> (bytes \<rightharpoonup> oneshot) \<Rightarrow> (sample_tree, sample_mem, sample_raw) app_state" where
  "sample_app w cbs = \<lparr>raft_node_of = (sample_node w)\<lparr>callbacks := cbs, uuids := 2\<rparr>,
     kv_node = node_new, updates = [], replies = []\<rparr>"

definition sample_put :: "u64 \<Rightarrow> string \<Rightarrow> string \<Rightarrow> bytes \<Rightarrow> entry" where
  "sample_put i k v ctx = \<lparr>e_type = EntryNormal, e_term = 1, e_index = i,
     e_data = flat_enc [k, v], e_context = ctx\<rparr>"

lemma prost_ok_sel: "prost_decode (sample_raft_libs img) = sample_cmd_decode"
  by (simp add: sample_raft_defs sample_store_libs_def sample_disk_libs_def sample_kv_libs_def)

lemma sample_put_decode:
  "prost_decode (sample_raft_libs img) (e_data (sample_put i k v ctx)) = Ok \<lparr>cmd = Some (CmdPut k v)\<rparr>"
  by (simp add: prost_ok_sel sample_put_def sample_cmd_decode_def flat_dec_enc del: flat_enc.simps)

lemma sample_apply_ok: "apply_ok (sample_raft_libs img) map_of map_of"
proof -
  have "bincode_ok (sample_raft_libs img)"
    using sample_bincode_ok
    by (simp add: bincode_ok_def sample_raft_defs sample_store_libs_def sample_disk_libs_def)
  moreover have "apply_total (sample_raft_libs img)"
    by (auto simp: apply_total_def prost_ok_sel sample_cmd_decode_def sample_raft_defs
        sample_store_libs_def sample_disk_libs_def sample_kv_libs_def sample_map_decode_def bindR_eq_Panic
        split: option.split list.split)
  ultimately show ?thesis by (simp add: apply_ok_def sample_raft_storage_ok)
qed

lemma sample_app_inv:
  "dom cbs \<subseteq> {[], [0]} \<Longrightarrow> app_inv (sample_raft_libs img) map_of map_of (sample_app w cbs)"
  by (auto simp: app_inv_def sample_app_def sample_node_def callbacks_inv_def node_new_def
      sample_raft_defs lessThan_Suc numeral_2_eq_2)

text \<open>
  C13. The state machine: applying a batch succeeds and its effect on the key-value map is
  the commands of its normal entries in order, undecodable ones counting for nothing;
  nothing else of the node's state has a part in it. So two nodes with the same map that
  apply the same entries have the same map after, whatever their storage, callbacks and
  roles are.
\<close>

theorem apply_entries_state_machine:
  assumes "apply_ok L V D" and "app_inv L V D s1" and "app_inv L V D s2"
    and "kv_abs (kv_node s1) = kv_abs (kv_node s2)"
  shows "\<exists>s1' s2'. apply_entries L es s1 = (Ok (), s1') \<and> apply_entries L es s2 = (Ok (), s2') \<and>
    kv_abs (kv_node s1') = fold (entry_effect L) es (kv_abs (kv_node s1)) \<and>
    kv_node s1' = kv_node s2'"
proof -
  obtain s1' where s1': "apply_entries L es s1 = (Ok (), s1')" "app_inv L V D s1'"
    "kv_abs (kv_node s1') = fold (entry_effect L) es (kv_abs (kv_node s1))"
    using apply_entries_ok [OF assms(1,2)] by blast
  obtain s2' where s2': "apply_entries L es s2 = (Ok (), s2')" "app_inv L V D s2'"
    "kv_abs (kv_node s2') = fold (entry_effect L) es (kv_abs (kv_node s2))"
    using apply_entries_ok [OF assms(1,3)] by blast
  have "kv_node s1' = kv_node s2'"
    using s1'(2,3) s2'(2,3) assms(4) by (intro node_ext) (simp_all add: app_inv_def)
  with s1' s2' show ?thesis by blast
qed

theorem apply_entries_state_machine_witness:
  "let L = sample_raft_libs (\<lambda>_. []);
       es = [sample_put 1 ''a'' ''x'' [], sample_put 2 ''b'' ''y'' [0], sample_put 3 ''a'' ''z'' [1]] in
   \<exists>s1 s2. apply_entries L es (sample_app sample_raw_leader [[] \<mapsto> 7]) = (Ok (), s1) \<and>
     apply_entries L es (sample_app (sample_raw_leader\<lparr>sr_role := Follower\<rparr>) Map.empty) = (Ok (), s2) \<and>
     kv_abs (kv_node s1) = [''a'' \<mapsto> ''z'', ''b'' \<mapsto> ''y''] \<and> kv_node s1 = kv_node s2"
proof -
  let ?L = "sample_raft_libs (\<lambda>_. [])"
  let ?es = "[sample_put 1 ''a'' ''x'' [], sample_put 2 ''b'' ''y'' [0], sample_put 3 ''a'' ''z'' [1]]"
  let ?s = "sample_app sample_raw_leader [[] \<mapsto> 7]"
  have eff: "entry_effect ?L (sample_put i k v ctx) \<sigma> = \<sigma>(k \<mapsto> v)" for i k v ctx \<sigma>
  proof -
    have "e_data (sample_put i k v ctx) \<noteq> []" "e_type (sample_put i k v ctx) = EntryNormal"
      by (simp_all add: sample_put_def del: flat_enc.simps)
    then show ?thesis by (simp add: entry_effect_def sample_put_decode)
  qed
  have kv: "kv_abs (kv_node (sample_app w cbs)) = Map.empty" for w cbs
    by (simp add: sample_app_def)
  have "\<exists>s1 s2. apply_entries ?L ?es ?s = (Ok (), s1) \<and>
      apply_entries ?L ?es (sample_app (sample_raw_leader\<lparr>sr_role := Follower\<rparr>) Map.empty) = (Ok (), s2) \<and>
      kv_abs (kv_node s1) = fold (entry_effect ?L) ?es (kv_abs (kv_node ?s)) \<and> kv_node s1 = kv_node s2"
    by (intro apply_entries_state_machine [OF sample_apply_ok sample_app_inv sample_app_inv])
      (simp_all add: kv)
  moreover have "fold (entry_effect ?L) ?es (kv_abs (kv_node ?s)) = [''a'' \<mapsto> ''z'', ''b'' \<mapsto> ''y'']"
    by (simp add: kv eff fun_upd_twist)
  ultimately show ?thesis unfolding Let_def by (simp only:)
qed

text \<open>
  C20. Answers to callers: when no two commands of a batch have the same id, each caller
  waiting for one of them is answered exactly once, in order, with \<open>Ok\<close> if the command
  was applied and with the error if it did not decode, and is forgotten; every other
  caller goes on waiting.
\<close>

theorem callers_answered_once:
  assumes "apply_ok L V D" and "app_inv L V D s"
    and "distinct (map e_context (filter (\<lambda>e. entry_answer L e \<noteq> None) es))"
  shows "\<exists>s'. apply_entries L es s = (Ok (), s') \<and>
    replies s' = replies s @ concat (map (entry_replies L (callbacks (raft_node_of s))) es) \<and>
    (\<forall>c. callbacks (raft_node_of s') c =
       (if \<exists>e \<in> set es. entry_answer L e \<noteq> None \<and> e_context e = c then None
        else callbacks (raft_node_of s) c))"
proof -
  obtain s' where "apply_entries L es s = (Ok (), s')"
    "replies s' = replies s @ batch_replies L (callbacks (raft_node_of s)) es"
    "callbacks (raft_node_of s') = fold (answered L) es (callbacks (raft_node_of s))"
    using apply_entries_ok [OF assms(1,2)] by blast
  then show ?thesis
    by (intro exI [of _ s']) (simp add: batch_replies_distinct [OF assms(3)] fold_answered)
qed

theorem callers_answered_once_witness:
  "let L = sample_raft_libs (\<lambda>_. []);
       es = [sample_put 1 ''a'' ''x'' [], sample_put 2 ''b'' ''y'' [0]] in
   \<exists>s'. apply_entries L es (sample_app sample_raw_leader [[0] \<mapsto> 7]) = (Ok (), s') \<and>
     replies s' = [PutReply 7 (Ok ())]"
proof -
  let ?L = "sample_raft_libs (\<lambda>_. [])"
  let ?es = "[sample_put 1 ''a'' ''x'' [], sample_put 2 ''b'' ''y'' [0]]"
  have ans: "entry_answer ?L (sample_put i k v ctx) = Some (Ok ())"
    "e_context (sample_put i k v ctx) = ctx" for i k v ctx
  proof -
    have "e_data (sample_put i k v ctx) \<noteq> []" "e_type (sample_put i k v ctx) = EntryNormal"
      by (simp_all add: sample_put_def del: flat_enc.simps)
    then show "entry_answer ?L (sample_put i k v ctx) = Some (Ok ())"
      by (simp add: entry_answer_def sample_put_decode)
  qed (simp add: sample_put_def)
  have "callbacks (raft_node_of (sample_app sample_raw_leader [[0] \<mapsto> 7])) = [[0] \<mapsto> 7]"
    "replies (sample_app sample_raw_leader [[0] \<mapsto> 7]) = []"
    by (simp_all add: sample_app_def)
  then show ?thesis
    using callers_answered_once [OF sample_apply_ok [of "\<lambda>_. []"]
        sample_app_inv [where cbs = "[[0] \<mapsto> 7]" and w = sample_raw_leader], where es = ?es]
    by (auto simp: Let_def ans entry_replies_def)
qed

text \<open>
  The applied index after a batch of normal entries is that of the last one with
  data. Entries without data, such as the one a new leader appends, do not move it, so it
  can stay behind the commit index for good.
\<close>

theorem applied_index_after_batch:
  assumes "apply_ok L V D" and "app_inv L V D s" and "\<forall>e \<in> set es. e_type e = EntryNormal"
  shows "\<exists>s'. apply_entries L es s = (Ok (), s') \<and> app_durable L V s' = app_durable L V s \<and>
    rs_applied_index (get_state L (raft_node_of s')) =
      (case filter (\<lambda>e. e_data e \<noteq> []) es of
         [] \<Rightarrow> rs_applied_index (get_state L (raft_node_of s))
       | xs \<Rightarrow> e_index (last xs))"
proof -
  obtain s' where "apply_entries L es s = (Ok (), s')" "app_durable L V s' = app_durable L V s"
    "storage_applied_index (raft_store (raft_node_of s')) =
       (case filter (\<lambda>e. e_data e \<noteq> []) es of
          [] \<Rightarrow> storage_applied_index (raft_store (raft_node_of s)) | xs \<Rightarrow> e_index (last xs))"
    using apply_entries_ok [OF assms(1,2), of es] assms(3) by blast
  moreover have "rs_applied_index (get_state L n) = storage_applied_index (raft_store n)" for n
    by (simp add: get_state_def)
  ultimately show ?thesis by (intro exI [of _ s']) (simp only: simp_thms)
qed

theorem applied_index_after_batch_witness:
  "let L = sample_raft_libs (\<lambda>_. []) in
   \<exists>s'. apply_entries L [sample_put 4 ''a'' ''x'' [], sample_entry 5 2]
          (sample_app sample_raw_leader Map.empty) = (Ok (), s') \<and>
     rs_applied_index (get_state L (raft_node_of s')) = 4"
  using applied_index_after_batch [OF sample_apply_ok [of "\<lambda>_. []"]
      sample_app_inv [where cbs = Map.empty and w = sample_raw_leader],
      where es = "[sample_put 4 ''a'' ''x'' [], sample_entry 5 2]"]
  by (auto simp: sample_put_def sample_entry_def Let_def simp del: flat_enc.simps)

end
