(* ===== verification/Ready_Processor.thy ===== *)
theory Ready_Processor
  imports Entry_Applicator
begin

text \<open>
  One round of the ready loop, \<^verbatim>\<open>crates/raft-core/src/ready_processor.rs\<close>: send, persist,
  send what had to wait for it, apply, report, advance, and the same again for what the
  crate hands out in answer.

  \<open>process_ready\<close> is generic in the transport (\<open>tsend\<close>) and in the applicator (\<open>apply_es\<close>,
  \<open>restore\<close>), as the code is. Its general facts are proved in the locale of the
  applicator, and hold of the key-value applicator by its interpretation.
\<close>

section \<open>State\<close>

record ('t, 'm, 'r, 'x) loop_state = "('t, 'm, 'r) app_state" +
  loop_transport :: 'x
  previous_leader_id :: "u64 option"

section \<open>The steps\<close>

definition send_batch ::
    "(u64 \<Rightarrow> message \<Rightarrow> ('x, unit, transport_error) op) \<Rightarrow> message list \<Rightarrow>
     (('t, 'm, 'r, 'x) loop_state, unit, raft_loop_error) op" where
  "send_batch tsend messages s =
     (case send_messages tsend messages (loop_transport s) of
        (r, x) \<Rightarrow> (map_err TransportFailed r, s\<lparr>loop_transport := x\<rparr>))"

text \<open>The camera of the message is U+1F4F8, four bytes.\<close>

definition snapshot_message :: "u64 \<Rightarrow> u64 \<Rightarrow> string" where
  "snapshot_message index tm =
     [CHR 0xF0, CHR 0x9F, CHR 0x93, CHR 0xB8] @ '' Applied snapshot at index '' @ show_u64 index @
     '' (term '' @ show_u64 tm @ '')''"

definition process_snapshot ::
    "('t, 'm, 'r, 'z) raft_libs_scheme \<Rightarrow>
     (bytes \<Rightarrow> (('t, 'm, 'r, 'x) loop_state, unit, raft_loop_error) op) \<Rightarrow> snapshot \<Rightarrow>
     (('t, 'm, 'r, 'x) loop_state, unit, raft_loop_error) op" where
  "process_snapshot L restore snap =
     bindO (storage_op (storage_apply_snapshot L snap)) (\<lambda>_.
     bindO (restore (sn_data snap)) (\<lambda>_.
     bindO (storage_op (storage_set_applied_index L (snap_index snap))) (\<lambda>_ s.
     (Ok (), send_update (SystemMessage (snapshot_message (snap_index snap) (snap_term snap))) s))))"

text \<open>The arrow of the message is U+2192, three bytes.\<close>

definition leader_message :: "u64 \<Rightarrow> raft_state \<Rightarrow> string" where
  "leader_message prev rs =
     (if prev = 0 then
        ''New leader elected: '' @ show_u64 (rs_leader_id rs) @ '' (term '' @ show_u64 (rs_term rs) @ '')''
      else
        ''Leadership changed: '' @ show_u64 prev @ '' '' @ [CHR 0xE2, CHR 0x86, CHR 0x92] @ '' '' @
        show_u64 (rs_leader_id rs) @ '' (term '' @ show_u64 (rs_term rs) @ '')'')"

definition update_tui_state ::
    "('t, 'm, 'r, 'z) raft_libs_scheme \<Rightarrow> ('t, 'm, 'r, 'x) loop_state \<Rightarrow> ('t, 'm, 'r, 'x) loop_state" where
  "update_tui_state L s =
     (let rs = get_state L (raft_node_of s);
          s = (case previous_leader_id s of
                 Some prev \<Rightarrow>
                   if prev \<noteq> rs_leader_id rs \<and> rs_leader_id rs \<noteq> 0
                   then send_update (SystemMessage (leader_message prev rs)) s else s
               | None \<Rightarrow> s);
          s = s\<lparr>previous_leader_id := Some (rs_leader_id rs)\<rparr>
      in send_update (RaftStateUpdate rs) s)"

text \<open>\<open>ready()\<close> and \<open>advance(ready)\<close> of the crate, on the loop's state.\<close>

definition take_ready ::
    "('t, 'm, 'r, 'z) raft_libs_scheme \<Rightarrow> (('t, 'm, 'r, 'x) loop_state, ready, raft_loop_error) op" where
  "take_ready L s =
     (case raw_ready L (raft_store (raft_node_of s)) (raw (raft_node_of s)) of
        (rd, w) \<Rightarrow> (Ok rd, s\<lparr>raft_node_of := (raft_node_of s)\<lparr>raw := w\<rparr>\<rparr>))"

definition advance_ready ::
    "('t, 'm, 'r, 'z) raft_libs_scheme \<Rightarrow> ready \<Rightarrow>
     (('t, 'm, 'r, 'x) loop_state, light_ready, raft_loop_error) op" where
  "advance_ready L rd s =
     (case raw_advance L (raft_store (raft_node_of s)) rd (raw (raft_node_of s)) of
        (light, w) \<Rightarrow> (Ok light, s\<lparr>raft_node_of := (raft_node_of s)\<lparr>raw := w\<rparr>\<rparr>))"

definition append_entries ::
    "('t, 'm, 'r, 'z) raft_libs_scheme \<Rightarrow> entry list \<Rightarrow>
     (('t, 'm, 'r, 'x) loop_state, unit, raft_loop_error) op" where
  "append_entries L es = storage_op (storage_append L es)"

definition persist_hardstate ::
    "('t, 'm, 'r, 'z) raft_libs_scheme \<Rightarrow> hard_state \<Rightarrow>
     (('t, 'm, 'r, 'x) loop_state, unit, raft_loop_error) op" where
  "persist_hardstate L hs = storage_op (storage_set_hardstate L hs)"

text \<open>
  Steps 2 to 4: snapshot, entries, hard state. The \<open>take_\<close> methods leave an empty list in
  the \<open>Ready\<close> that \<open>advance\<close> gets.
\<close>

definition persist_ready ::
    "('t, 'm, 'r, 'z) raft_libs_scheme \<Rightarrow>
     (bytes \<Rightarrow> (('t, 'm, 'r, 'x) loop_state, unit, raft_loop_error) op) \<Rightarrow> ready \<Rightarrow>
     (('t, 'm, 'r, 'x) loop_state, unit, raft_loop_error) op" where
  "persist_ready L restore rd =
     bindO (if snapshot_is_empty L (ry_snapshot rd) then retO ()
            else process_snapshot L restore (ry_snapshot rd)) (\<lambda>_.
     bindO (if ry_entries rd = [] then retO ()
            else append_entries L (ry_entries rd)) (\<lambda>_.
     case ry_hs rd of
       Some hs \<Rightarrow> persist_hardstate L hs
     | None \<Rightarrow> retO ()))"

lemmas persist_ready_defs = persist_ready_def append_entries_def persist_hardstate_def

text \<open>Steps 5 to 8, once everything is persisted.\<close>

definition finish_ready ::
    "('t, 'm, 'r, 'z) raft_libs_scheme \<Rightarrow>
     (u64 \<Rightarrow> message \<Rightarrow> ('x, unit, transport_error) op) \<Rightarrow>
     (entry list \<Rightarrow> (('t, 'm, 'r, 'x) loop_state, unit, raft_loop_error) op) \<Rightarrow> ready \<Rightarrow>
     (('t, 'm, 'r, 'x) loop_state, unit, raft_loop_error) op" where
  "finish_ready L tsend apply_es rd =
     bindO (send_batch tsend (ry_persisted_messages rd)) (\<lambda>_.
     bindO (if ry_committed_entries rd = [] then retO ()
            else apply_es (ry_committed_entries rd)) (\<lambda>_.
     bindO (\<lambda>s. (Ok (), update_tui_state L s)) (\<lambda>_.
     bindO (advance_ready L
              (rd\<lparr>ry_messages := [], ry_persisted_messages := [], ry_committed_entries := []\<rparr>)) (\<lambda>light.
     bindO (send_batch tsend (lr_messages light)) (\<lambda>_.
     if lr_committed_entries light = [] then retO ()
     else apply_es (lr_committed_entries light))))))"

definition process_ready ::
    "('t, 'm, 'r, 'z) raft_libs_scheme \<Rightarrow>
     (u64 \<Rightarrow> message \<Rightarrow> ('x, unit, transport_error) op) \<Rightarrow>
     (entry list \<Rightarrow> (('t, 'm, 'r, 'x) loop_state, unit, raft_loop_error) op) \<Rightarrow>
     (bytes \<Rightarrow> (('t, 'm, 'r, 'x) loop_state, unit, raft_loop_error) op) \<Rightarrow>
     (('t, 'm, 'r, 'x) loop_state, unit, raft_loop_error) op" where
  "process_ready L tsend apply_es restore =
     bindO (take_ready L) (\<lambda>rd.
     bindO (send_batch tsend (ry_messages rd)) (\<lambda>_.
     bindO (persist_ready L restore rd) (\<lambda>_.
     finish_ready L tsend apply_es rd)))"

section \<open>Frames\<close>

lemma send_batch_frame [frame_simps]:
  "raft_node_of (snd (send_batch tsend ms s)) = raft_node_of s"
  "kv_node (snd (send_batch tsend ms s)) = kv_node s"
  "updates (snd (send_batch tsend ms s)) = updates s"
  "replies (snd (send_batch tsend ms s)) = replies s"
  "previous_leader_id (snd (send_batch tsend ms s)) = previous_leader_id s"
  by (simp_all add: send_batch_def split: prod.split)

lemma update_tui_state_frame [frame_simps]:
  "raft_node_of (update_tui_state L s) = raft_node_of s"
  "kv_node (update_tui_state L s) = kv_node s"
  "replies (update_tui_state L s) = replies s"
  "loop_transport (update_tui_state L s) = loop_transport s"
  "previous_leader_id (update_tui_state L s) = Some (raw_leader_id L (raw (raft_node_of s)))"
  by (simp_all add: update_tui_state_def Let_def send_update_def get_state_def split: option.split)

lemma loop_rest_eq:
  "app_state.more s = app_state.more (t :: ('t, 'm, 'r, 'x) loop_state) \<longleftrightarrow>
     loop_transport s = loop_transport t \<and> previous_leader_id s = previous_leader_id t"
  by (cases s; cases t) simp

section \<open>What has to be persisted\<close>

text \<open>
  What a \<open>Ready\<close> asks to be persisted, as the list of its steps: storing the snapshot, taking
  its map, recording how far it goes and telling the TUI; appending the entries; writing the
  hard state. The list runs until a step does not succeed.
\<close>

fun run_steps :: "('s, unit, 'e) op list \<Rightarrow> ('s, unit, 'e) op" where
  "run_steps [] = retO ()"
| "run_steps (f # fs) = bindO f (\<lambda>_. run_steps fs)"

definition snapshot_steps ::
    "('t, 'm, 'r, 'z) raft_libs_scheme \<Rightarrow>
     (bytes \<Rightarrow> (('t, 'm, 'r, 'x) loop_state, unit, raft_loop_error) op) \<Rightarrow> snapshot \<Rightarrow>
     (('t, 'm, 'r, 'x) loop_state, unit, raft_loop_error) op list" where
  "snapshot_steps L restore snap =
     [storage_op (storage_apply_snapshot L snap),
      restore (sn_data snap),
      storage_op (storage_set_applied_index L (snap_index snap)),
      \<lambda>s. (Ok (), send_update (SystemMessage (snapshot_message (snap_index snap) (snap_term snap))) s)]"

definition persist_steps ::
    "('t, 'm, 'r, 'z) raft_libs_scheme \<Rightarrow>
     (bytes \<Rightarrow> (('t, 'm, 'r, 'x) loop_state, unit, raft_loop_error) op) \<Rightarrow> ready \<Rightarrow>
     (('t, 'm, 'r, 'x) loop_state, unit, raft_loop_error) op list" where
  "persist_steps L restore rd =
     (if snapshot_is_empty L (ry_snapshot rd) then [] else snapshot_steps L restore (ry_snapshot rd)) @
     (if ry_entries rd = [] then [] else [storage_op (storage_append L (ry_entries rd))]) @
     (case ry_hs rd of Some hs \<Rightarrow> [storage_op (storage_set_hardstate L hs)] | None \<Rightarrow> [])"

lemma run_steps_append:
  "run_steps (fs @ gs) = bindO (run_steps fs) (\<lambda>_. run_steps gs)"
  by (induction fs) (auto simp: bindO_def fun_eq_iff split: prod.split result.split)

lemma run_steps_single: "run_steps [f] s = f s"
  by (cases "f s"; cases "fst (f s)") (auto simp: bindO_def)

lemma run_steps_snapshot: "run_steps (snapshot_steps L restore snap) = process_snapshot L restore snap"
  by (auto simp: snapshot_steps_def process_snapshot_def bindO_def fun_eq_iff
      split: prod.split result.split)

lemma run_steps_one: "run_steps [f] = f"
  by (rule ext) (rule run_steps_single)

lemma bindO_unit: "bindO f (\<lambda>_. Pair (Ok ())) = f" "bindO f retO = f"
  by (auto simp: bindO_def fun_eq_iff split: prod.split result.split)

lemma persist_ready_steps: "persist_ready L restore rd = run_steps (persist_steps L restore rd)"
  by (cases "ry_hs rd")
    (simp_all add: persist_ready_defs persist_steps_def run_steps_append run_steps_snapshot
      run_steps_one bindO_unit fun_eq_iff del: run_steps.simps(2))

text \<open>The first step that does not succeed ends the run, with its own result.\<close>

lemma run_steps_stops:
  assumes "run_steps pre s = (Ok (), t)" and "f t = (r, u)" and "r \<noteq> Ok ()"
  shows "run_steps (pre @ f # post) s = (r, u)"
  using assms by (cases r) (auto simp: run_steps_append bindO_def)

text \<open>Storing and restoring touch the store, the map and what the TUI is told, nothing else.\<close>

definition persist_frame :: "('t, 'm, 'r, 'x) loop_state \<Rightarrow> ('t, 'm, 'r, 'x) loop_state \<Rightarrow> bool" where
  "persist_frame s s' \<longleftrightarrow>
     loop_transport s' = loop_transport s \<and> previous_leader_id s' = previous_leader_id s \<and>
     raw (raft_node_of s') = raw (raft_node_of s) \<and>
     callbacks (raft_node_of s') = callbacks (raft_node_of s) \<and> replies s' = replies s"

lemma persist_step_frame:
  assumes "f \<in> set (persist_steps L (restore_snapshot L) rd)" and "f s = (r, s')"
  shows "persist_frame s s'"
  using assms
  by (auto simp: persist_frame_def persist_steps_def snapshot_steps_def storage_op_def send_update_def
      restore_snapshot_def split: if_splits option.splits prod.splits result.splits)

lemma run_steps_frame:
  assumes "\<forall>f \<in> set fs. \<forall>s r s'. f s = (r, s') \<longrightarrow> persist_frame s s'" and "run_steps fs s = (r, s')"
  shows "persist_frame s s'"
  using assms
proof (induction fs arbitrary: s)
  case Nil
  then show ?case by (simp add: persist_frame_def)
next
  case (Cons f fs)
  obtain q t where t: "f s = (q, t)" by fastforce
  with Cons.prems(1) have "persist_frame s t" by (metis list.set_intros(1))
  moreover have "persist_frame t s'" if "q = Ok u" for u
    using Cons.IH [of t] Cons.prems t that by (simp add: bindO_def)
  ultimately show ?case
    using Cons.prems(2) t by (cases q) (auto simp: bindO_def persist_frame_def)
qed

section \<open>Finishing a round, for any applicator\<close>

text \<open>A transport that returns, whatever it answers: sending a batch then succeeds.\<close>

definition returns :: "(u64 \<Rightarrow> message \<Rightarrow> ('x, unit, transport_error) op) \<Rightarrow> bool" where
  "returns tsend \<longleftrightarrow> (\<forall>to m x. fst (tsend to m x) \<noteq> Panic)"

definition after_sending ::
    "(u64 \<Rightarrow> message \<Rightarrow> ('x, unit, transport_error) op) \<Rightarrow> message list \<Rightarrow> 'x \<Rightarrow> 'x" where
  "after_sending tsend ms x = snd (send_messages tsend ms x)"

lemma send_messages_returns:
  "returns tsend \<Longrightarrow> send_messages tsend ms x = (Ok (), after_sending tsend ms x)"
proof (induction ms arbitrary: x)
  case (Cons m ms)
  obtain r y where t: "tsend (m_to m) m x = (r, y)" by fastforce
  with Cons.prems have "r \<noteq> Panic" unfolding returns_def by (metis fst_conv)
  with t Cons show ?case by (cases r) (simp_all add: after_sending_def)
qed (simp add: after_sending_def)

lemma after_sending_append:
  "returns tsend \<Longrightarrow>
   after_sending tsend (ms @ ns) x = after_sending tsend ns (after_sending tsend ms x)"
proof (induction ms arbitrary: x)
  case (Cons m ms)
  obtain r y where t: "tsend (m_to m) m x = (r, y)" by fastforce
  with Cons.prems have "r \<noteq> Panic" unfolding returns_def by (metis fst_conv)
  with t Cons show ?case by (cases r) (simp_all add: after_sending_def)
qed (simp add: after_sending_def)

lemma send_batch_returns:
  "returns tsend \<Longrightarrow>
   send_batch tsend ms s = (Ok (), s\<lparr>loop_transport := after_sending tsend ms (loop_transport s)\<rparr>)"
  by (simp add: send_batch_def send_messages_returns)

text \<open>
  An applicator in the loop: what it speaks of does not depend on the transport, on the
  consensus state and on what the TUI is told, and it does not own the transport.
\<close>

locale loop_applicator =
  entry_applicator lib inv durable rest view effect apply_es restore
  for lib :: bool
    and inv :: "('t, 'm, 'r, 'x) loop_state \<Rightarrow> bool"
    and durable :: "('t, 'm, 'r, 'x) loop_state \<Rightarrow> 'd"
    and rest :: "('t, 'm, 'r, 'x) loop_state \<Rightarrow> 'y"
    and view :: "('t, 'm, 'r, 'x) loop_state \<Rightarrow> 'v"
    and effect and apply_es and restore +
  fixes L :: "('t, 'm, 'r, 'z) raft_libs_scheme"
  assumes rest_transport: "rest s = rest t \<Longrightarrow> loop_transport s = loop_transport t"
    and rest_leader: "rest s = rest t \<Longrightarrow> previous_leader_id s = previous_leader_id t"
    and stable_transport:
      "inv (s\<lparr>loop_transport := x\<rparr>) = inv s \<and> durable (s\<lparr>loop_transport := x\<rparr>) = durable s \<and>
       view (s\<lparr>loop_transport := x\<rparr>) = view s"
    and stable_raw:
      "inv (s\<lparr>raft_node_of := (raft_node_of s)\<lparr>raw := w\<rparr>\<rparr>) = inv s \<and>
       durable (s\<lparr>raft_node_of := (raft_node_of s)\<lparr>raw := w\<rparr>\<rparr>) = durable s \<and>
       view (s\<lparr>raft_node_of := (raft_node_of s)\<lparr>raw := w\<rparr>\<rparr>) = view s"
    and stable_tui:
      "inv (update_tui_state L s) = inv s \<and> durable (update_tui_state L s) = durable s \<and>
       view (update_tui_state L s) = view s"
begin

lemma apply_if_any:
  assumes "lib" and "inv s"
  shows "\<exists>s'. (if es = [] then retO () else apply_es es) s = (Ok (), s') \<and> inv s' \<and>
    durable s' = durable s \<and> loop_transport s' = loop_transport s \<and>
    previous_leader_id s' = previous_leader_id s \<and> view s' = fold effect es (view s)"
proof (cases es)
  case Nil
  with assms(2) show ?thesis by simp
next
  case (Cons e es')
  obtain s' where s': "apply_es es s = (Ok (), s')" "inv s'" "durable s' = durable s"
    "rest s' = rest s" "view s' = fold effect es (view s)"
    using apply_es_ok [OF assms, of es] by blast
  with Cons rest_transport [OF s'(4)] rest_leader [OF s'(4)] show ?thesis by simp
qed

lemma finish_ready_run:
  assumes lib: "lib" and inv: "inv s" and ret: "returns tsend"
  obtains t light w s' where
    "(if ry_committed_entries rd = [] then retO () else apply_es (ry_committed_entries rd))
       (s\<lparr>loop_transport := after_sending tsend (ry_persisted_messages rd) (loop_transport s)\<rparr>) = (Ok (), t)"
    "raw_advance L (raft_store (raft_node_of t))
       (rd\<lparr>ry_messages := [], ry_persisted_messages := [], ry_committed_entries := []\<rparr>)
       (raw (raft_node_of t)) = (light, w)"
    "(if lr_committed_entries light = [] then retO () else apply_es (lr_committed_entries light))
       ((update_tui_state L t)\<lparr>raft_node_of := (raft_node_of t)\<lparr>raw := w\<rparr>,
          loop_transport := after_sending tsend (lr_messages light) (loop_transport t)\<rparr>) = (Ok (), s')"
    "finish_ready L tsend apply_es rd s = (Ok (), s')" "inv s'" "durable s' = durable s"
    "loop_transport s' =
       after_sending tsend (ry_persisted_messages rd @ lr_messages light) (loop_transport s)"
    "view s' = fold effect (ry_committed_entries rd @ lr_committed_entries light) (view s)"
    "previous_leader_id s' = Some (raw_leader_id L (raw (raft_node_of t)))"
proof -
  let ?rd = "rd\<lparr>ry_messages := [], ry_persisted_messages := [], ry_committed_entries := []\<rparr>"
  let ?s1 = "s\<lparr>loop_transport := after_sending tsend (ry_persisted_messages rd) (loop_transport s)\<rparr>"
  have s1: "send_batch tsend (ry_persisted_messages rd) s = (Ok (), ?s1)"
    by (rule send_batch_returns [OF ret])
  obtain t where t: "(if ry_committed_entries rd = [] then retO () else
       apply_es (ry_committed_entries rd)) ?s1 = (Ok (), t)" "inv t" "durable t = durable s"
    "loop_transport t = after_sending tsend (ry_persisted_messages rd) (loop_transport s)"
    "view t = fold effect (ry_committed_entries rd) (view s)"
    using apply_if_any [OF lib, of ?s1 "ry_committed_entries rd"] inv stable_transport by auto
  let ?s3 = "update_tui_state L t"
  obtain light w where adv: "raw_advance L (raft_store (raft_node_of t)) ?rd (raw (raft_node_of t)) =
      (light, w)" by fastforce
  let ?s4 = "?s3\<lparr>raft_node_of := (raft_node_of ?s3)\<lparr>raw := w\<rparr>\<rparr>"
  let ?s5 = "?s4\<lparr>loop_transport := after_sending tsend (lr_messages light) (loop_transport ?s4)\<rparr>"
  have s5: "inv ?s5" "durable ?s5 = durable s" "view ?s5 = view t"
    using t(2,3) stable_tui [of t] stable_raw [where s = ?s3 and w = w]
      stable_transport [where s = ?s4]
    by (simp_all only:)
  obtain s6 where s6: "(if lr_committed_entries light = [] then retO () else
       apply_es (lr_committed_entries light)) ?s5 = (Ok (), s6)" "inv s6" "durable s6 = durable ?s5"
    "loop_transport s6 = loop_transport ?s5" "previous_leader_id s6 = previous_leader_id ?s5"
    "view s6 = fold effect (lr_committed_entries light) (view ?s5)"
    using apply_if_any [OF lib s5(1)] by blast
  have run: "finish_ready L tsend apply_es rd s = (Ok (), s6)"
    using s1 t(1) s6(1)
    by (simp add: finish_ready_def bindO_def advance_ready_def adv
        send_batch_returns [OF ret] update_tui_state_frame split: if_splits)
  have tr: "loop_transport s6 =
      after_sending tsend (ry_persisted_messages rd @ lr_messages light) (loop_transport s)"
    by (simp add: s6(4) t(4) after_sending_append [OF ret] update_tui_state_frame)
  have view: "view s6 = fold effect (ry_committed_entries rd @ lr_committed_entries light) (view s)"
    unfolding s6(6) s5(3) t(5) by simp
  have lead: "previous_leader_id s6 = Some (raw_leader_id L (raw (raft_node_of t)))"
    by (simp add: s6(5) update_tui_state_frame)
  have dur: "durable s6 = durable s" unfolding s6(3) s5(2) ..
  have last: "(if lr_committed_entries light = [] then retO () else apply_es (lr_committed_entries light))
      (?s3\<lparr>raft_node_of := (raft_node_of t)\<lparr>raw := w\<rparr>,
        loop_transport := after_sending tsend (lr_messages light) (loop_transport t)\<rparr>) = (Ok (), s6)"
    using s6(1) by (simp only: update_tui_state_frame loop_state.select_convs loop_state.update_convs
        app_state.update_convs) (simp add: update_tui_state_frame)
  show ?thesis by (rule that [OF t(1) adv last run s6(2) dur tr view lead])
qed

lemma finish_ready_ok:
  assumes lib: "lib" and inv: "inv s" and ret: "returns tsend"
  shows "\<exists>s' light. finish_ready L tsend apply_es rd s = (Ok (), s') \<and> inv s' \<and>
    durable s' = durable s \<and>
    loop_transport s' =
      after_sending tsend (ry_persisted_messages rd @ lr_messages light) (loop_transport s) \<and>
    view s' = fold effect (ry_committed_entries rd @ lr_committed_entries light) (view s) \<and>
    (\<exists>(n :: ('t, 'm, 'r) raft_node) w. raw_advance L (raft_store n)
       (rd\<lparr>ry_messages := [], ry_persisted_messages := [], ry_committed_entries := []\<rparr>) (raw n) = (light, w) \<and>
       previous_leader_id s' = Some (raw_leader_id L (raw n)))"
  by (rule finish_ready_run [OF assms, of rd]) blast

end

lemma app_stable:
  fixes s :: "('t, 'm, 'r, 'x) loop_state"
  shows "app_inv L V D (s\<lparr>loop_transport := x\<rparr>) = app_inv L V D s"
    "app_inv L V D (s\<lparr>raft_node_of := (raft_node_of s)\<lparr>raw := w\<rparr>\<rparr>) = app_inv L V D s"
    "app_inv L V D (update_tui_state L s) = app_inv L V D s"
    "app_durable L V (s\<lparr>loop_transport := x\<rparr>) = app_durable L V s"
    "app_durable L V (s\<lparr>raft_node_of := (raft_node_of s)\<lparr>raw := w\<rparr>\<rparr>) = app_durable L V s"
    "app_durable L V (update_tui_state L s) = app_durable L V s"
  by (simp_all add: app_inv_def app_durable_def callbacks_inv_def update_tui_state_frame)

interpretation kv_loop:
  loop_applicator "apply_ok L V D" "app_inv L V D" "app_durable L V" app_state.more
    "\<lambda>s. kv_abs (kv_node s)" "entry_effect L" "apply_entries L" "restore_snapshot L" L for L V D
  by unfold_locales
    (simp_all add: loop_rest_eq app_stable update_tui_state_frame)

section \<open>Persisting on disk\<close>

abbreviation with_store ::
    "('t, 'm) raft_storage \<Rightarrow> ('t, 'm, 'r, 'x) loop_state \<Rightarrow> ('t, 'm, 'r, 'x) loop_state" where
  "with_store st s \<equiv> s\<lparr>raft_node_of := (raft_node_of s)\<lparr>raft_store := st\<rparr>\<rparr>"

text \<open>What a \<open>Ready\<close> asks to be persisted, on the abstract store.\<close>

definition spec_persist ::
    "('t, 'm, 'r, 'z) raft_libs_scheme \<Rightarrow> ready \<Rightarrow> disk_spec \<Rightarrow> disk_spec" where
  "spec_persist L rd \<sigma> =
     (let snap = ry_snapshot rd;
          \<sigma> = (if snapshot_is_empty L snap then \<sigma>
               else (spec_apply_snapshot snap \<sigma>)\<lparr>sp_applied := snap_index snap\<rparr>);
          \<sigma> = spec_append (ry_entries rd) \<sigma>
      in case ry_hs rd of Some hs \<Rightarrow> \<sigma>\<lparr>sp_hard := hs\<rparr> | None \<Rightarrow> \<sigma>)"

text \<open>The key-value map after the snapshot of a \<open>Ready\<close>, if there is one.\<close>

definition restored_kv ::
    "('t, 'm, 'r, 'z) raft_libs_scheme \<Rightarrow> ready \<Rightarrow> (string \<rightharpoonup> string) \<Rightarrow> (string \<rightharpoonup> string)" where
  "restored_kv L rd \<sigma> =
     (if snapshot_is_empty L (ry_snapshot rd) then \<sigma>
      else case bincode_codec_decode L (sn_data (ry_snapshot rd)) of
             Ok m \<Rightarrow> bt_get m | _ \<Rightarrow> \<sigma>)"

definition snapshot_readable :: "('t, 'm, 'r, 'z) raft_libs_scheme \<Rightarrow> ready \<Rightarrow> bool" where
  "snapshot_readable L rd \<longleftrightarrow>
     snapshot_is_empty L (ry_snapshot rd) \<or>
     is_ok (bincode_codec_decode L (sn_data (ry_snapshot rd)))"

lemma app_inv_disk:
  "raft_store (raft_node_of s) = Disk d \<Longrightarrow>
   app_inv L V D s \<longleftrightarrow>
     disk_inv L V d \<and> disk_durable V D d \<and> callbacks_inv L (raft_node_of s) \<and> bt_wf (kv (kv_node s))"
  by (auto simp: app_inv_def)

lemma process_snapshot_ok:
  assumes L: "apply_ok L V D" and s: "app_inv L V D s" and d: "raft_store (raft_node_of s) = Disk d"
    and m: "bincode_codec_decode L (sn_data snap) = Ok m"
  shows "\<exists>s' d'. process_snapshot L (restore_snapshot L) snap s = (Ok (), s') \<and> app_inv L V D s' \<and>
    raft_store (raft_node_of s') = Disk d' \<and>
    disk_abs L V d' = (spec_apply_snapshot snap (disk_abs L V d))\<lparr>sp_applied := snap_index snap\<rparr> \<and>
    loop_transport s' = loop_transport s \<and> raw (raft_node_of s') = raw (raft_node_of s) \<and>
    kv_abs (kv_node s') = bt_get m"
proof -
  have ok: "disk_ok L V D" and inv: "disk_inv L V d" "disk_durable V D d" and wf: "bt_wf m"
    using L s m bincode_codec.dec_wf [of L "sn_data snap" m]
    by (auto simp: apply_ok_def storage_ok_def app_inv_disk [OF d])
  obtain d1 where d1: "disk_apply_snapshot L snap d = (Ok (), d1)"
    "disk_abs L V d1 = spec_apply_snapshot snap (disk_abs L V d)" "disk_inv L V d1" "disk_durable V D d1"
    using disk_apply_snapshot_refines [OF ok inv(1)] by blast
  obtain d2 where d2: "disk_set_applied_index L (snap_index snap) d1 = (Ok (), d2)"
    "disk_abs L V d2 = (disk_abs L V d1)\<lparr>sp_applied := snap_index snap\<rparr>" "disk_inv L V d2"
    "disk_durable V D d2"
    using disk_set_applied_index_refines [OF ok d1(3,4)] by blast
  let ?s1 = "(with_store (Disk d1) s)\<lparr>kv_node := (kv_node s)\<lparr>kv := m\<rparr>\<rparr>"
  have r1: "storage_op (storage_apply_snapshot L snap) s = (Ok (), with_store (Disk d1) s)"
    by (simp add: d on_disk_def d1(1))
  have r2: "restore_snapshot L (sn_data snap) (with_store (Disk d1) s) = (Ok (), ?s1)"
    by (simp add: restore_snapshot_def restore_from_snapshot_def m)
  have r3: "storage_op (storage_set_applied_index L (snap_index snap)) ?s1 =
      (Ok (), with_store (Disk d2) ?s1)"
    by (simp add: on_disk_def d2(1))
  have "process_snapshot L (restore_snapshot L) snap s =
      (Ok (), send_update (SystemMessage (snapshot_message (snap_index snap) (snap_term snap)))
        (with_store (Disk d2) ?s1))"
    by (simp only: process_snapshot_def bindO_def r1 r2 r3 prod.case result.case)
  with d1 d2 s wf show ?thesis
    by (auto simp: app_inv_def send_update_def callbacks_inv_def kv_abs_def)
qed

lemma persist_ready_ok:
  assumes L: "apply_ok L V D" and s: "app_inv L V D s" and d: "raft_store (raft_node_of s) = Disk d"
    and snap: "snapshot_readable L rd"
  shows "\<exists>s' d'. persist_ready L (restore_snapshot L) rd s = (Ok (), s') \<and> app_inv L V D s' \<and>
    raft_store (raft_node_of s') = Disk d' \<and> disk_abs L V d' = spec_persist L rd (disk_abs L V d) \<and>
    loop_transport s' = loop_transport s \<and> raw (raft_node_of s') = raw (raft_node_of s) \<and>
    kv_abs (kv_node s') = restored_kv L rd (kv_abs (kv_node s))"
proof -
  let ?\<sigma> = "if snapshot_is_empty L (ry_snapshot rd) then disk_abs L V d
    else (spec_apply_snapshot (ry_snapshot rd) (disk_abs L V d))
      \<lparr>sp_applied := snap_index (ry_snapshot rd)\<rparr>"
  have ok: "disk_ok L V D" using L by (simp add: apply_ok_def storage_ok_def)
  have "\<exists>s1 d1. (if snapshot_is_empty L (ry_snapshot rd) then retO ()
        else process_snapshot L (restore_snapshot L) (ry_snapshot rd)) s = (Ok (), s1) \<and>
      app_inv L V D s1 \<and> raft_store (raft_node_of s1) = Disk d1 \<and> disk_abs L V d1 = ?\<sigma> \<and>
      loop_transport s1 = loop_transport s \<and> raw (raft_node_of s1) = raw (raft_node_of s) \<and>
      kv_abs (kv_node s1) = restored_kv L rd (kv_abs (kv_node s))"
    using s d snap process_snapshot_ok [OF L s d, of "ry_snapshot rd"]
    by (cases "snapshot_is_empty L (ry_snapshot rd)")
      (auto simp: snapshot_readable_def is_ok_iff restored_kv_def)
  then obtain s1 d1 where s1: "(if snapshot_is_empty L (ry_snapshot rd) then retO ()
        else process_snapshot L (restore_snapshot L) (ry_snapshot rd)) s = (Ok (), s1)"
    "app_inv L V D s1" "raft_store (raft_node_of s1) = Disk d1" "disk_abs L V d1 = ?\<sigma>"
    "loop_transport s1 = loop_transport s" "raw (raft_node_of s1) = raw (raft_node_of s)"
    "kv_abs (kv_node s1) = restored_kv L rd (kv_abs (kv_node s))"
    by blast
  have inv1: "disk_inv L V d1" "disk_durable V D d1"
    using s1(2) by (simp_all add: app_inv_disk [OF s1(3)])
  have "\<exists>d2. (if ry_entries rd = [] then retO () else storage_op (storage_append L (ry_entries rd))) s1 =
      (Ok (), with_store (Disk d2) s1) \<and> disk_abs L V d2 = spec_append (ry_entries rd) ?\<sigma> \<and>
      disk_inv L V d2 \<and> disk_durable V D d2"
  proof (cases "ry_entries rd = []")
    case True
    have "with_store (Disk d1) s1 = s1" by (simp add: s1(3) [symmetric])
    with True s1(4) inv1 show ?thesis by (intro exI [of _ d1]) (simp add: spec_append_def)
  next
    case False
    from disk_append_refines [OF ok inv1, of "ry_entries rd"] False s1(3,4) show ?thesis
      by (auto simp: on_disk_def)
  qed
  then obtain d2 where d2: "(if ry_entries rd = [] then retO ()
      else storage_op (storage_append L (ry_entries rd))) s1 = (Ok (), with_store (Disk d2) s1)"
    "disk_abs L V d2 = spec_append (ry_entries rd) ?\<sigma>" "disk_inv L V d2" "disk_durable V D d2" by blast
  have "\<exists>d3. (case ry_hs rd of Some hs \<Rightarrow> storage_op (storage_set_hardstate L hs) | None \<Rightarrow> retO ())
      (with_store (Disk d2) s1) = (Ok (), with_store (Disk d3) s1) \<and>
      disk_abs L V d3 = spec_persist L rd (disk_abs L V d) \<and> disk_inv L V d3 \<and> disk_durable V D d3"
  proof (cases "ry_hs rd")
    case None
    with d2 show ?thesis by (intro exI [of _ d2]) (simp add: spec_persist_def Let_def)
  next
    case (Some hs)
    from disk_set_hardstate_refines [OF ok d2(3,4), of hs] Some d2(2) show ?thesis
      by (auto simp: on_disk_def spec_persist_def Let_def)
  qed
  then obtain d3 where d3: "(case ry_hs rd of Some hs \<Rightarrow> storage_op (storage_set_hardstate L hs)
      | None \<Rightarrow> retO ()) (with_store (Disk d2) s1) = (Ok (), with_store (Disk d3) s1)"
    "disk_abs L V d3 = spec_persist L rd (disk_abs L V d)" "disk_inv L V d3" "disk_durable V D d3" by blast
  have "persist_ready L (restore_snapshot L) rd s = (Ok (), with_store (Disk d3) s1)"
    by (simp only: persist_ready_defs bindO_def s1(1) d2(1) d3(1) prod.case result.case)
  moreover have "app_inv L V D (with_store (Disk d3) s1)"
    using s1(2) d3(3,4) by (simp add: app_inv_def callbacks_inv_def)
  ultimately show ?thesis using s1(5-7) d3(2) by auto
qed

lemma apply_entries_if: "(if es = [] then retO () else apply_entries L es) = apply_entries L es"
  by simp

text \<open>A round whose \<open>Ready\<close> is stored: what is left of it is \<open>finish_ready\<close>.\<close>

lemma process_ready_stages:
  assumes L: "apply_ok L V D" and s: "app_inv L V D s" and d: "raft_store (raft_node_of s) = Disk d"
    and ret: "returns tsend"
    and rd: "raw_ready L (Disk d) (raw (raft_node_of s)) = (rd, w)" and snap: "snapshot_readable L rd"
  obtains s2 d2 where
    "persist_ready L (restore_snapshot L) rd (s\<lparr>raft_node_of := (raft_node_of s)\<lparr>raw := w\<rparr>,
       loop_transport := after_sending tsend (ry_messages rd) (loop_transport s)\<rparr>) = (Ok (), s2)"
    "app_inv L V D s2" "raft_store (raft_node_of s2) = Disk d2"
    "disk_abs L V d2 = spec_persist L rd (disk_abs L V d)" "raw (raft_node_of s2) = w"
    "loop_transport s2 = after_sending tsend (ry_messages rd) (loop_transport s)"
    "kv_abs (kv_node s2) = restored_kv L rd (kv_abs (kv_node s))"
    "process_ready L tsend (apply_entries L) (restore_snapshot L) s =
       finish_ready L tsend (apply_entries L) rd s2"
proof -
  let ?s1 = "s\<lparr>raft_node_of := (raft_node_of s)\<lparr>raw := w\<rparr>,
    loop_transport := after_sending tsend (ry_messages rd) (loop_transport s)\<rparr>"
  have "app_inv L V D ?s1" using s by (simp add: app_inv_def callbacks_inv_def)
  then obtain s2 d2 where s2: "persist_ready L (restore_snapshot L) rd ?s1 = (Ok (), s2)"
    "app_inv L V D s2" "raft_store (raft_node_of s2) = Disk d2"
    "disk_abs L V d2 = spec_persist L rd (disk_abs L V d)"
    "loop_transport s2 = after_sending tsend (ry_messages rd) (loop_transport s)"
    "raw (raft_node_of s2) = w"
    "kv_abs (kv_node s2) = restored_kv L rd (kv_abs (kv_node s))"
    using persist_ready_ok [OF L, of ?s1 d rd] d snap by auto
  have "process_ready L tsend (apply_entries L) (restore_snapshot L) s =
      finish_ready L tsend (apply_entries L) rd s2"
    using s2(1)
    by (simp add: process_ready_def bindO_def take_ready_def d rd send_batch_returns [OF ret])
  with s2 show ?thesis using that by blast
qed

section \<open>Properties\<close>

text \<open>
  C11. Nothing is promised that is not on disk: when any step of persisting a \<open>Ready\<close> does not
  succeed, be it storing the snapshot, restoring its map, recording its index, appending the
  entries or writing the hard state (a vote or a term, also when there is nothing else to
  store), the round ends at that step with its result, whatever steps stand before and
  behind it and with any applicator. With the applicator of the key-value map: the only
  messages handed to the transport are those that need no persistence, the crate is not
  advanced, no caller is answered and none forgotten.
\<close>

theorem failed_persist_sends_nothing:
  assumes "raw_ready L (raft_store (raft_node_of s)) (raw (raft_node_of s)) = (rd, w)"
    and "send_messages tsend (ry_messages rd) (loop_transport s) = (Ok (), x)"
    and "persist_steps L restore rd = before @ f # behind"
    and "run_steps before (s\<lparr>raft_node_of := (raft_node_of s)\<lparr>raw := w\<rparr>, loop_transport := x\<rparr>) = (Ok (), s1)"
    and "f s1 = (r, s2)" and "r \<noteq> Ok ()"
  shows "process_ready L tsend apply_es restore s = (r, s2) \<and>
    (restore = restore_snapshot L \<longrightarrow>
       loop_transport s2 = x \<and> raw (raft_node_of s2) = w \<and>
       callbacks (raft_node_of s2) = callbacks (raft_node_of s) \<and> replies s2 = replies s)"
proof
  let ?s = "s\<lparr>raft_node_of := (raft_node_of s)\<lparr>raw := w\<rparr>, loop_transport := x\<rparr>"
  have steps: "run_steps (persist_steps L restore rd) ?s = (r, s2)"
    unfolding assms(3) by (rule run_steps_stops [OF assms(4), where f = f, OF assms(5,6)])
  have "send_batch tsend (ry_messages rd) (s\<lparr>raft_node_of := (raft_node_of s)\<lparr>raw := w\<rparr>\<rparr>) = (Ok (), ?s)"
    by (simp add: send_batch_def assms(2))
  with steps assms(6) show "process_ready L tsend apply_es restore s = (r, s2)"
    by (cases r) (simp_all add: process_ready_def bindO_def take_ready_def assms(1) persist_ready_steps)
  show "restore = restore_snapshot L \<longrightarrow>
       loop_transport s2 = x \<and> raw (raft_node_of s2) = w \<and>
       callbacks (raft_node_of s2) = callbacks (raft_node_of s) \<and> replies s2 = replies s"
  proof
    assume "restore = restore_snapshot L"
    with persist_step_frame [of _ L rd] have "persist_frame ?s s2"
      by (intro run_steps_frame [OF _ steps]) blast
    then show "loop_transport s2 = x \<and> raw (raft_node_of s2) = w \<and>
        callbacks (raft_node_of s2) = callbacks (raft_node_of s) \<and> replies s2 = replies s"
      by (simp add: persist_frame_def)
  qed
qed

definition sample_loop ::
    "sample_raw \<Rightarrow> (sample_tree, sample_mem) raft_storage \<Rightarrow> (u64, message list) btree_map \<Rightarrow>
     (sample_tree, sample_mem, sample_raw, message list local_transport) loop_state" where
  "sample_loop w st peers =
     \<lparr>raft_node_of = (sample_node w)\<lparr>raft_store := st\<rparr>, kv_node = node_new, updates = [], replies = [],
      loop_transport = \<lparr>lt_node_id = 1, lt_peers = peers\<rparr>, previous_leader_id = None\<rparr>"

definition sample_round :: ready where
  "sample_round = sample_ready\<lparr>ry_messages := [sample_message 2 1], ry_entries := [sample_entry 1 1],
     ry_hs := Some (hard_state_default\<lparr>hs_term := 1\<rparr>), ry_persisted_messages := [sample_message 3 1]\<rparr>"

definition sample_vote :: ready where
  "sample_vote = sample_ready\<lparr>ry_messages := [sample_message 2 1],
     ry_hs := Some (hard_state_default\<lparr>hs_term := 1, hs_vote := 3\<rparr>),
     ry_persisted_messages := [sample_message 3 1]\<rparr>"

theorem failed_persist_sends_nothing_witness:
  "let L = (sample_raft_libs (\<lambda>_. []))\<lparr>sled_flush := (\<lambda>t. (Err ''disk full'', t))\<rparr>;
       s = sample_loop (sample_raw_leader\<lparr>sr_ready := Some sample_vote\<rparr>) (Disk sample_fresh)
             [(2, []), (3, [])] in
   \<exists>s'. process_ready L (local_send sample_chan) (apply_entries L) (restore_snapshot L) s =
        (Err (StorageError (store_other ''disk full'')), s') \<and>
     local_sent (\<lambda>c. c) (loop_transport s') 2 = [(sample_message 2 1)\<lparr>m_from := 1\<rparr>] \<and>
     local_sent (\<lambda>c. c) (loop_transport s') 3 = []"
proof -
  let ?L = "(sample_raft_libs (\<lambda>_. []))\<lparr>sled_flush := (\<lambda>t. (Err ''disk full'', t))\<rparr>"
  let ?w = "sample_raw_leader\<lparr>sr_ready := Some sample_vote\<rparr>"
  let ?s = "sample_loop ?w (Disk sample_fresh) [(2, []), (3, [])]"
  let ?x = "\<lparr>lt_node_id = 1, lt_peers = [(2, [(sample_message 2 1)\<lparr>m_from := 1\<rparr>]), (3, [])]\<rparr>"
  let ?hs = "hard_state_default\<lparr>hs_term := 1, hs_vote := 3\<rparr>"
  let ?s1 = "?s\<lparr>raft_node_of := (raft_node_of ?s)\<lparr>raw := sample_raw_leader\<lparr>sr_ready := None\<rparr>\<rparr>,
    loop_transport := ?x\<rparr>"
  have rd: "raw_ready ?L (raft_store (raft_node_of ?s)) (raw (raft_node_of ?s)) =
      (sample_vote, sample_raw_leader\<lparr>sr_ready := None\<rparr>)"
    by (simp add: sample_raft_defs sample_loop_def sample_node_def sample_vote_def sample_ready_def)
  have ms: "send_messages (local_send sample_chan) (ry_messages sample_vote) (loop_transport ?s) = (Ok (), ?x)"
    by (simp add: sample_vote_def sample_loop_def local_send_def bt_get_eq sample_chan_def
        sample_message_def)
  have steps: "persist_steps ?L (restore_snapshot ?L) sample_vote =
      [] @ storage_op (storage_set_hardstate ?L ?hs) # []"
    by (simp add: persist_steps_def sample_raft_defs sample_vote_def sample_ready_def snapshot_default_def
        get_metadata_def snapshot_metadata_default_def)
  obtain s2 where "storage_op (storage_set_hardstate ?L ?hs) ?s1 =
      (Err (StorageError (store_other ''disk full'')), s2)"
    by (simp add: storage_op_def sample_loop_def sample_node_def on_disk_def disk_set_hardstate_def bindO_def
        on_meta_def sample_raft_defs sample_store_libs_def sample_disk_libs_def del: flat_enc.simps)
  from failed_persist_sends_nothing [OF rd ms steps _ this, of "apply_entries ?L"]
  show ?thesis
    unfolding Let_def by (auto simp: local_sent_def bt_get_eq)
qed

text \<open>
  C12. A round on a disk store that works: it succeeds, in the stages of the code. After the
  immediate messages, snapshot, entries and hard state are stored as the \<open>Ready\<close> has them, and
  stay stored through everything that follows; the messages that waited for the disk are
  sent and the committed entries applied; the crate is then advanced, with what is left of
  that \<open>Ready\<close>, and the messages and committed entries of the very \<open>LightReady\<close> it returns are
  sent and applied in turn. So the transport is given the three batches, and the map is
  the snapshot's, or the old one, with the committed entries of both applied in order. The
  hard state stored is that of the \<open>Ready\<close> also when the \<open>LightReady\<close> brings a new commit index.
\<close>

theorem process_ready_ok:
  assumes "apply_ok L V D" and "app_inv L V D s" and "raft_store (raft_node_of s) = Disk d"
    and "returns tsend"
    and "raw_ready L (Disk d) (raw (raft_node_of s)) = (rd, w)" and "snapshot_readable L rd"
  shows "\<exists>s1 s2 light w' s'.
    persist_ready L (restore_snapshot L) rd (s\<lparr>raft_node_of := (raft_node_of s)\<lparr>raw := w\<rparr>,
      loop_transport := after_sending tsend (ry_messages rd) (loop_transport s)\<rparr>) = (Ok (), s1) \<and>
    apply_entries L (ry_committed_entries rd)
      (s1\<lparr>loop_transport := after_sending tsend (ry_persisted_messages rd) (loop_transport s1)\<rparr>) = (Ok (), s2) \<and>
    raw_advance L (raft_store (raft_node_of s2))
      (rd\<lparr>ry_messages := [], ry_persisted_messages := [], ry_committed_entries := []\<rparr>)
      (raw (raft_node_of s2)) = (light, w') \<and>
    apply_entries L (lr_committed_entries light)
      ((update_tui_state L s2)\<lparr>raft_node_of := (raft_node_of s2)\<lparr>raw := w'\<rparr>,
        loop_transport := after_sending tsend (lr_messages light) (loop_transport s2)\<rparr>) = (Ok (), s') \<and>
    process_ready L tsend (apply_entries L) (restore_snapshot L) s = (Ok (), s') \<and>
    app_inv L V D s' \<and>
    app_durable L V s' = (Some (sp_hard (spec_persist L rd (disk_abs L V d))),
      Some (sp_log (spec_persist L rd (disk_abs L V d)), sp_snap (spec_persist L rd (disk_abs L V d)))) \<and>
    loop_transport s' = after_sending tsend
      (ry_messages rd @ ry_persisted_messages rd @ lr_messages light) (loop_transport s) \<and>
    kv_abs (kv_node s') = fold (entry_effect L) (ry_committed_entries rd @ lr_committed_entries light)
      (restored_kv L rd (kv_abs (kv_node s)))"
proof -
  have ok: "disk_ok L V D" using assms(1) by (simp add: apply_ok_def storage_ok_def)
  obtain s1 d1 where s1: "persist_ready L (restore_snapshot L) rd (s\<lparr>raft_node_of := (raft_node_of s)\<lparr>raw := w\<rparr>,
       loop_transport := after_sending tsend (ry_messages rd) (loop_transport s)\<rparr>) = (Ok (), s1)"
    "app_inv L V D s1" "raft_store (raft_node_of s1) = Disk d1"
    "disk_abs L V d1 = spec_persist L rd (disk_abs L V d)"
    "loop_transport s1 = after_sending tsend (ry_messages rd) (loop_transport s)"
    "kv_abs (kv_node s1) = restored_kv L rd (kv_abs (kv_node s))"
    and run: "process_ready L tsend (apply_entries L) (restore_snapshot L) s =
       finish_ready L tsend (apply_entries L) rd s1"
    by (rule process_ready_stages [OF assms])
  obtain s2 and light :: light_ready and w' s' where
    s2: "apply_entries L (ry_committed_entries rd)
      (s1\<lparr>loop_transport := after_sending tsend (ry_persisted_messages rd) (loop_transport s1)\<rparr>) = (Ok (), s2)"
    and adv: "raw_advance L (raft_store (raft_node_of s2))
      (rd\<lparr>ry_messages := [], ry_persisted_messages := [], ry_committed_entries := []\<rparr>)
      (raw (raft_node_of s2)) = (light, w')"
    and last: "apply_entries L (lr_committed_entries light)
      ((update_tui_state L s2)\<lparr>raft_node_of := (raft_node_of s2)\<lparr>raw := w'\<rparr>,
        loop_transport := after_sending tsend (lr_messages light) (loop_transport s2)\<rparr>) = (Ok (), s')"
    and s': "finish_ready L tsend (apply_entries L) rd s1 = (Ok (), s')" "app_inv L V D s'"
      "app_durable L V s' = app_durable L V s1"
      "loop_transport s' =
         after_sending tsend (ry_persisted_messages rd @ lr_messages light) (loop_transport s1)"
      "kv_abs (kv_node s') = fold (entry_effect L) (ry_committed_entries rd @ lr_committed_entries light)
         (kv_abs (kv_node s1))"
    by (rule kv_loop.finish_ready_run [OF assms(1) s1(2) assms(4), of rd]) (simp only: apply_entries_if)
  have "disk_inv L V d1" using s1(2) by (simp add: app_inv_disk [OF s1(3)])
  then have dur: "app_durable L V s' = (Some (sp_hard (spec_persist L rd (disk_abs L V d))),
      Some (sp_log (spec_persist L rd (disk_abs L V d)), sp_snap (spec_persist L rd (disk_abs L V d))))"
    unfolding s'(3) by (simp add: app_durable_def s1(3,4) disk_initial_state_abs [OF ok])
  have sent: "loop_transport s' = after_sending tsend
      (ry_messages rd @ ry_persisted_messages rd @ lr_messages light) (loop_transport s)"
    by (simp add: s'(4) s1(5) after_sending_append [OF assms(4)])
  show ?thesis
    using s1(1) s2 adv last s'(2,5) dur sent
    by (intro exI [of _ s1] exI [of _ s2] exI [of _ light] exI [of _ w'] exI [of _ s'])
      (simp add: run s'(1) s1(6))
qed

lemma sample_returns: "returns (local_send sample_chan)"
  by (auto simp: returns_def local_send_def sample_chan_def split: option.split)

lemma sample_raft_disk_inv: "disk_inv (sample_raft_libs img) map_of sample_fresh"
  by (simp add: disk_inv_def disk_abs_def entries_inv_def sample_fresh_def)

lemma sample_loop_inv: "app_inv (sample_raft_libs img) map_of map_of (sample_loop w (Disk sample_fresh) p)"
  using sample_raft_disk_inv [of img] sample_fresh_durable
  by (simp add: app_inv_def sample_loop_def sample_node_def callbacks_inv_def node_new_def)

theorem process_ready_ok_witness:
  "let L = sample_raft_libs (\<lambda>_. []);
       s = sample_loop (sample_raw_leader\<lparr>sr_ready := Some sample_round\<rparr>) (Disk sample_fresh)
             [(2, []), (3, [])] in
   \<exists>s'. process_ready L (local_send sample_chan) (apply_entries L) (restore_snapshot L) s = (Ok (), s') \<and>
     fst (app_durable L map_of s') = Some (hard_state_default\<lparr>hs_term := 1\<rparr>)"
proof -
  let ?L = "sample_raft_libs (\<lambda>_. [])"
  let ?s = "sample_loop (sample_raw_leader\<lparr>sr_ready := Some sample_round\<rparr>) (Disk sample_fresh)
    [(2, []), (3, [])]"
  have rd: "raw_ready ?L (Disk sample_fresh) (raw (raft_node_of ?s)) =
      (sample_round, sample_raw_leader\<lparr>sr_ready := None\<rparr>)"
    by (simp add: sample_raft_defs sample_loop_def sample_node_def sample_round_def sample_ready_def)
  have sn: "snapshot_readable ?L sample_round"
    by (simp add: snapshot_readable_def sample_raft_defs sample_round_def sample_ready_def
        snapshot_default_def get_metadata_def snapshot_metadata_default_def)
  have st: "raft_store (raft_node_of ?s) = Disk sample_fresh"
    by (simp add: sample_loop_def)
  have "sp_hard (spec_persist ?L sample_round \<sigma>) = hard_state_default\<lparr>hs_term := 1\<rparr>" for \<sigma>
    by (simp add: spec_persist_def sample_round_def Let_def)
  with process_ready_ok [OF sample_apply_ok sample_loop_inv st sample_returns rd sn]
  show ?thesis unfolding Let_def by auto
qed

end
