(* ===== verification/Command_Handler.thy ===== *)
theory Command_Handler
  imports Entry_Applicator
begin

text \<open>
  The commands of the TUI and of gRPC, \<^verbatim>\<open>crates/raft-core/src/command_handler.rs\<close>.
\<close>

section \<open>Texts\<close>

fun show_role :: "state_role \<Rightarrow> string" where
  "show_role Follower = ''Follower''"
| "show_role Candidate = ''Candidate''"
| "show_role Leader = ''Leader''"
| "show_role PreCandidate = ''PreCandidate''"

definition newline :: string where
  "newline = [CHR 0x0A]"

definition status_message :: "raft_state \<Rightarrow> string" where
  "status_message rs =
     ''STATUS:'' @ newline @
     ''  Node ID: '' @ show_u64 (rs_node_id rs) @ newline @
     ''  Term: '' @ show_u64 (rs_term rs) @ newline @
     ''  Role: '' @ show_role (rs_role rs) @ newline @
     ''  Leader ID: '' @ show_u64 (rs_leader_id rs) @ newline @
     ''  Cluster Size: '' @ show_nat (rs_cluster_size rs) @ '' nodes'' @ newline @
     ''  Commit Index: '' @ show_u64 (rs_commit_index rs) @ newline @
     ''  Applied Index: '' @ show_u64 (rs_applied_index rs)"

definition not_leader_error :: "u64 \<Rightarrow> string" where
  "not_leader_error leader_id = ''Not leader: '' @ show_u64 leader_id"

definition leader_hint :: "u64 \<Rightarrow> string" where
  "leader_hint leader_id =
     (if leader_id = 0 then ''no leader elected yet'' else ''leader is node '' @ show_u64 leader_id)"

section \<open>Operations\<close>

text \<open>Both answers of the gRPC PUT after a proposal are the same to the caller: none yet.\<close>

fun handle_rpc_command ::
    "('t, 'm, 'r, 'z) raft_libs_scheme \<Rightarrow> rpc_command \<Rightarrow>
     (('t, 'm, 'r, 'y) app_state_scheme, unit, raft_loop_error) op" where
  "handle_rpc_command L (RpcPut key val resp) s =
     (if \<not> is_leader L (raft_node_of s) then
        let state = get_state L (raft_node_of s) in
        (Ok (), send_reply (PutReply resp (Err (not_leader_error (rs_leader_id state)))) s)
      else
        (case on_node (propose_command L key val (Some resp)) s of
           (Ok u, s') \<Rightarrow> (Ok (), s')
         | (Err e, s') \<Rightarrow> (Ok (), s')
         | (Panic, s') \<Rightarrow> (Panic, s')))"
| "handle_rpc_command L (RpcGet key resp) s =
     (let val = bt_get (get_internal_map (kv_node s)) key in
      (Ok (), send_reply (GetReply resp val) s))"

fun handle_user_command ::
    "('t, 'm, 'r, 'z) raft_libs_scheme \<Rightarrow> user_command \<Rightarrow>
     (('t, 'm, 'r, 'y) app_state_scheme, unit, raft_loop_error) op" where
  "handle_user_command L (UserPut key val) s =
     (case on_node (propose_command L key val None) s of
        (Ok u, s') \<Rightarrow>
          (Ok (), send_update (SystemMessage (''Proposed: PUT '' @ key @ '' = '' @ val)) s')
      | (Err ProposalDropped, s') \<Rightarrow>
          let state = get_state L (raft_node_of s') in
          (Ok (), send_update (SystemMessage (''ERROR: Not leader ('' @
             leader_hint (rs_leader_id state) @ '') - writes must go to leader'')) s')
      | (Err e, s') \<Rightarrow>
          (Ok (), send_update (SystemMessage (''Error: Failed to propose PUT ('' @
             show_raft_error L e @ '')'')) s')
      | (Panic, s') \<Rightarrow> (Panic, s'))"
| "handle_user_command L UserCampaign s =
     (case on_node (on_raw (raw_campaign L)) s of
        (Err e, s') \<Rightarrow> (Ok (), s')
      | (Ok u, s') \<Rightarrow> (Ok (), send_update (SystemMessage ''Starting election campaign'') s')
      | (Panic, s') \<Rightarrow> (Panic, s'))"
| "handle_user_command L UserStatus s =
     (Ok (), send_update (SystemMessage (status_message (get_state L (raft_node_of s)))) s)"
| "handle_user_command L c s =
     (case apply_user_command c (kv_node s) of
        (output, k) \<Rightarrow>
          let s' = s\<lparr>kv_node := k\<rparr> in
          (Ok (), case output of
                    Text t \<Rightarrow> send_update (SystemMessage t) s'
                  | NoOutput \<Rightarrow> s'))"

fun handle ::
    "('t, 'm, 'r, 'z) raft_libs_scheme \<Rightarrow> server_command \<Rightarrow>
     (('t, 'm, 'r, 'y) app_state_scheme, unit, raft_loop_error) op" where
  "handle L (User c) = handle_user_command L c"
| "handle L (Rpc c) = handle_rpc_command L c"

section \<open>Lemmas\<close>

lemma propose_store: "propose_command L k v cb n = (r, n') \<Longrightarrow> raft_store n' = raft_store n"
proof -
  assume "propose_command L k v cb n = (r, n')"
  then have "n' = snd (propose_command L k v cb n)" by simp
  then show ?thesis
    by (cases cb; cases "encode_put_command L k v :: (bytes, raft_error) result")
      (simp_all add: propose_command_def Let_def)
qed

lemma on_node_propose:
  assumes "on_node (propose_command L k v cb) s = (r, s')"
  shows "kv_node s' = kv_node s" "replies s' = replies s" "updates s' = updates s"
    "app_state.more s' = app_state.more s"
    "raft_store (raft_node_of s') = raft_store (raft_node_of s)"
    "callbacks_inv L (raft_node_of s) \<Longrightarrow> callbacks_inv L (raft_node_of s')"
    "propose_command L k v cb (raft_node_of s) = (r, raft_node_of s')"
  using assms
  by (auto simp: on_node_def propose_store propose_callbacks_inv split: prod.splits)

lemma send_frame [frame_simps]:
  "kv_node (send_update u s) = kv_node s" "raft_node_of (send_update u s) = raft_node_of s"
  "replies (send_update u s) = replies s" "updates (send_update u s) = updates s @ [u]"
  "app_state.more (send_update u s) = app_state.more s"
  "kv_node (send_reply p s) = kv_node s" "raft_node_of (send_reply p s) = raft_node_of s"
  "replies (send_reply p s) = replies s @ [p]" "updates (send_reply p s) = updates s"
  "app_state.more (send_reply p s) = app_state.more s"
  by (simp_all add: send_update_def send_reply_def)

text \<open>What no command does.\<close>

definition untouched ::
    "('t, 'm, 'r, 'z) raft_libs_scheme \<Rightarrow> ('t, 'm, 'r, 'y) app_state_scheme \<Rightarrow>
     ('t, 'm, 'r, 'y) app_state_scheme \<Rightarrow> bool" where
  "untouched L s s' \<longleftrightarrow>
     kv_node s' = kv_node s \<and> raft_store (raft_node_of s') = raft_store (raft_node_of s) \<and>
     app_state.more s' = app_state.more s \<and>
     (callbacks_inv L (raft_node_of s) \<longrightarrow> callbacks_inv L (raft_node_of s'))"

lemma handle_rpc_untouched:
  assumes "handle_rpc_command L c s = (r, s')"
  shows "untouched L s s' \<and> (\<forall>e. r \<noteq> Err e) \<and> updates s' = updates s"
  using assms
  by (cases c)
    (auto simp: untouched_def Let_def frame_simps on_node_propose
      split: if_splits prod.splits result.splits)

lemma on_node_on_raw:
  "on_node (on_raw f) s = (r, s') \<Longrightarrow>
   s' = s\<lparr>raft_node_of := (raft_node_of s)\<lparr>raw := raw (raft_node_of s')\<rparr>\<rparr>"
  by (auto simp: on_node_def on_raw_def split: prod.splits)

lemma handle_user_untouched:
  assumes "handle_user_command L c s = (r, s')"
  shows "untouched L s s' \<and> (\<forall>e. r \<noteq> Err e) \<and> replies s' = replies s"
proof (cases c)
  case (UserPut k v)
  with assms show ?thesis
    by (auto simp: untouched_def Let_def frame_simps on_node_propose
        split: prod.splits result.splits raft_error.splits)
next
  case UserCampaign
  obtain r0 t where t: "on_node (on_raw (raw_campaign L)) s = (r0, t)" by fastforce
  have same: "kv_node t = kv_node s \<and> raft_store (raft_node_of t) = raft_store (raft_node_of s) \<and>
      replies t = replies s \<and> app_state.more t = app_state.more s \<and>
      callbacks (raft_node_of t) = callbacks (raft_node_of s) \<and> uuids (raft_node_of t) = uuids (raft_node_of s)"
    by (subst (1 2 3 4 5 6) on_node_on_raw [OF t]) simp
  then have "callbacks_inv L (raft_node_of t) = callbacks_inv L (raft_node_of s)"
    by (simp add: callbacks_inv_def)
  with same UserCampaign assms t show ?thesis
    by (cases r0) (auto simp: untouched_def frame_simps)
qed (use assms in \<open>auto simp: untouched_def frame_simps Let_def\<close>)

lemma handle_untouched:
  "handle L c s = (r, s') \<Longrightarrow> untouched L s s' \<and> (\<forall>e. r \<noteq> Err e)"
  using handle_rpc_untouched [of L _ s r s'] handle_user_untouched [of L _ s r s']
  by (cases c) auto

section \<open>Properties\<close>

text \<open>
  A command changes replicated data by proposing and in no other way: whatever the
  command and whatever the crate answers, the handler leaves the key-value map, the
  storage and the transport as they were, keeps the callbacks under ids that were drawn,
  and returns no error, so no command ends the ready loop. TUI commands answer no caller
  and RPC commands tell the TUI nothing.
\<close>

theorem commands_only_propose:
  fixes s s' :: "('t, 'm, 'r, 'y) app_state_scheme"
  assumes "handle L c s = (r, s')"
  shows "kv_node s' = kv_node s \<and> raft_store (raft_node_of s') = raft_store (raft_node_of s) \<and>
    app_state.more s' = app_state.more s \<and>
    (callbacks_inv L (raft_node_of s) \<longrightarrow> callbacks_inv L (raft_node_of s')) \<and>
    (r = Ok () \<or> r = Panic) \<and>
    (case c of User u \<Rightarrow> replies s' = replies s | Rpc q \<Rightarrow> updates s' = updates s)"
proof -
  have "r = Ok () \<or> r = Panic"
    using handle_untouched [OF assms] by (cases r) auto
  moreover have "case c of User u \<Rightarrow> replies s' = replies s | Rpc q \<Rightarrow> updates s' = updates s"
    using assms handle_rpc_untouched [of L _ s r s'] handle_user_untouched [of L _ s r s']
    by (cases c) auto
  ultimately show ?thesis
    using handle_untouched [OF assms] by (auto simp: untouched_def)
qed

theorem commands_only_propose_witness:
  "let L = sample_raft_libs (\<lambda>_. []); s = sample_app sample_raw_leader Map.empty in
   \<exists>s'. handle L (User (UserGet ''k'')) s = (Ok (), s') \<and> kv_node s' = kv_node s"
proof -
  let ?L = "sample_raft_libs (\<lambda>_. [])" and ?s = "sample_app sample_raw_leader Map.empty"
  obtain s' where "handle ?L (User (UserGet ''k'')) ?s = (Ok (), s')"
    by simp
  with commands_only_propose [OF this] show ?thesis by auto
qed

text \<open>
  C28. The gRPC PUT. On a node that is not the leader the caller is told at once who is,
  as \<open>Not leader: <id>\<close>, and nothing else happens. On the leader the caller is not
  answered: it waits under the id the proposal travels with. That is so too when the
  crate refuses the proposal: the error goes to the log only, and the caller, whose
  sender stays in the map, is left waiting rather than seeing a closed channel.
\<close>

theorem rpc_put_outcomes:
  assumes "prost_ok L" and "inj (uuid_v4 L)" and "callbacks_inv L (raft_node_of s)"
  shows "(\<not> is_leader L (raft_node_of s) \<longrightarrow>
      handle L (Rpc (RpcPut key val resp)) s =
        (Ok (), s\<lparr>replies := replies s @
           [PutReply resp (Err (''Not leader: '' @ show_u64 (raw_leader_id L (raw (raft_node_of s)))))]\<rparr>)) \<and>
    (is_leader L (raft_node_of s) \<longrightarrow>
      (\<exists>ctx data q s'.
         raw_propose L (raft_store (raft_node_of s)) ctx data (raw (raft_node_of s)) =
           (q, raw (raft_node_of s')) \<and>
         callbacks (raft_node_of s) ctx = None \<and>
         prost_decode L data = Ok \<lparr>cmd = Some (CmdPut key val)\<rparr> \<and>
         handle L (Rpc (RpcPut key val resp)) s = (if q = Panic then Panic else Ok (), s') \<and>
         replies s' = replies s \<and>
         callbacks (raft_node_of s') = (callbacks (raft_node_of s))(ctx \<mapsto> resp)))"
proof (intro conjI impI)
  assume "\<not> is_leader L (raft_node_of s)"
  then show "handle L (Rpc (RpcPut key val resp)) s =
      (Ok (), s\<lparr>replies := replies s @
         [PutReply resp (Err (''Not leader: '' @ show_u64 (raw_leader_id L (raw (raft_node_of s)))))]\<rparr>)"
    by (simp add: Let_def get_state_def not_leader_error_def send_reply_def)
next
  assume lead: "is_leader L (raft_node_of s)"
  let ?n = "raft_node_of s"
  let ?ctx = "uuid_v4 L (uuids ?n)"
  obtain data where d: "prost_decode L data = Ok \<lparr>cmd = Some (CmdPut key val)\<rparr>"
    "propose_command L key val (Some resp) ?n =
      (case raw_propose L (raft_store ?n) ?ctx data (raw ?n) of
         (r, w) \<Rightarrow> (r, ?n\<lparr>raw := w, uuids := Suc (uuids ?n),
           callbacks := (case Some resp of Some c \<Rightarrow> (callbacks ?n)(?ctx \<mapsto> c) | None \<Rightarrow> callbacks ?n)\<rparr>))"
    using propose_leader [OF assms(1) lead] by blast
  obtain q w where q: "raw_propose L (raft_store ?n) ?ctx data (raw ?n) = (q, w)" by fastforce
  let ?s = "s\<lparr>raft_node_of := ?n\<lparr>raw := w, uuids := Suc (uuids ?n),
    callbacks := (callbacks ?n)(?ctx \<mapsto> resp)\<rparr>\<rparr>"
  have "on_node (propose_command L key val (Some resp)) s = (q, ?s)"
    using d(2) q by (simp add: on_node_def)
  then have "handle L (Rpc (RpcPut key val resp)) s = (if q = Panic then Panic else Ok (), ?s)"
    using lead by (cases q) simp_all
  with d(1) q callbacks_inv_fresh [OF assms(2,3)]
  show "\<exists>ctx data q s'.
      raw_propose L (raft_store ?n) ctx data (raw ?n) = (q, raw (raft_node_of s')) \<and>
      callbacks ?n ctx = None \<and> prost_decode L data = Ok \<lparr>cmd = Some (CmdPut key val)\<rparr> \<and>
      handle L (Rpc (RpcPut key val resp)) s = (if q = Panic then Panic else Ok (), s') \<and>
      replies s' = replies s \<and> callbacks (raft_node_of s') = (callbacks ?n)(ctx \<mapsto> resp)"
    by (intro exI [of _ ?ctx] exI [of _ data] exI [of _ q] exI [of _ ?s]) simp
qed

theorem rpc_put_outcomes_witness:
  "let L = sample_raft_libs (\<lambda>_. []);
       s = sample_app (sample_raw_leader\<lparr>sr_busy := True\<rparr>) Map.empty in
   \<exists>s' ctx. handle L (Rpc (RpcPut ''k'' ''v'' 7)) s = (Ok (), s') \<and>
     fst (raw_propose L (raft_store (raft_node_of s)) ctx [] (raw (raft_node_of s))) = Err ProposalDropped \<and>
     replies s' = [] \<and> callbacks (raft_node_of s') ctx = Some 7"
proof -
  let ?L = "sample_raft_libs (\<lambda>_. [])"
  let ?s = "sample_app (sample_raw_leader\<lparr>sr_busy := True\<rparr>) Map.empty"
  have lead: "is_leader ?L (raft_node_of ?s)"
    by (simp add: is_leader_def sample_raft_defs sample_app_def sample_node_def sample_raw_leader_def)
  have inv: "callbacks_inv ?L (raft_node_of ?s)"
    by (simp add: callbacks_inv_def sample_app_def)
  have busy: "raw_propose ?L st ctx data (raw (raft_node_of ?s)) =
      (Err ProposalDropped, raw (raft_node_of ?s))" for st ctx data
    by (simp add: sample_raft_defs sample_app_def sample_node_def)
  from rpc_put_outcomes [OF sample_raft_prost sample_raft_uuid inv, of "''k''" "''v''" 7] lead
  obtain ctx s' where "handle ?L (Rpc (RpcPut ''k'' ''v'' 7)) ?s = (Ok (), s')"
    "replies s' = replies ?s" "callbacks (raft_node_of s') = (callbacks (raft_node_of ?s))(ctx \<mapsto> 7)"
    by (auto simp only: busy prod.inject split: if_splits)
  then show ?thesis
    unfolding Let_def busy
    by (intro exI [of _ s'] exI [of _ ctx]) (simp add: sample_app_def)
qed

end
