(* ===== verification/Raft_Driver.thy ===== *)
theory Raft_Driver
  imports Ready_Processor Command_Handler
begin

text \<open>
  The driver, \<^verbatim>\<open>crates/raft-core/src/raft_loop.rs\<close>: each turn of its loop receives one input
  or none, ticks the clock of the crate when it is due, and runs a round when the crate has
  one ready. Then its builder, \<^verbatim>\<open>builder.rs\<close>.

  The \<open>select!\<close> over the channels is the sequence of what it gives, one input per turn;
  whether the tick is due is part of the sequence, since it depends on the clock.
\<close>

section \<open>One turn\<close>

datatype loop_input =
    InCommand server_command
  | InCommandClosed
  | InMessage message
  | InMessageClosed
  | InShutdown
  | InTimeout

datatype loop_control = Continue | Stop

definition handle_raft_message ::
    "('t, 'm, 'r, 'z) raft_libs_scheme \<Rightarrow> message \<Rightarrow>
     (('t, 'm, 'r, 'x) loop_state, unit, raft_loop_error) op" where
  "handle_raft_message L msg s =
     (case on_node (on_raw (\<lambda>st. raw_step L st msg)) s of
        (Panic, s') \<Rightarrow> (Panic, s')
      | (r, s') \<Rightarrow> (Ok (), s'))"

fun receive_input ::
    "('t, 'm, 'r, 'z) raft_libs_scheme \<Rightarrow> loop_input \<Rightarrow>
     (('t, 'm, 'r, 'x) loop_state, loop_control, raft_loop_error) op" where
  "receive_input L (InCommand c) = bindO (handle L c) (\<lambda>_. retO Continue)"
| "receive_input L InCommandClosed = liftR (Err CommandChannelClosed)"
| "receive_input L (InMessage msg) = bindO (handle_raft_message L msg) (\<lambda>_. retO Continue)"
| "receive_input L InMessageClosed = liftR (Err MessageChannelClosed)"
| "receive_input L InShutdown = retO Stop"
| "receive_input L InTimeout = retO Continue"

definition tick_if ::
    "('t, 'm, 'r, 'z) raft_libs_scheme \<Rightarrow> bool \<Rightarrow>
     (('t, 'm, 'r, 'x) loop_state, unit, raft_loop_error) op" where
  "tick_if L due s =
     (Ok (), if due
             then s\<lparr>raft_node_of := (raft_node_of s)
                      \<lparr>raw := raw_tick L (raft_store (raft_node_of s)) (raw (raft_node_of s))\<rparr>\<rparr>
             else s)"

definition driver_process_ready ::
    "('t, 'm, 'r, 'z) raft_libs_scheme \<Rightarrow>
     (u64 \<Rightarrow> message \<Rightarrow> ('x, unit, transport_error) op) \<Rightarrow>
     (('t, 'm, 'r, 'x) loop_state, unit, raft_loop_error) op" where
  "driver_process_ready L tsend = process_ready L tsend (apply_entries L) (restore_snapshot L)"

definition loop_turn ::
    "('t, 'm, 'r, 'z) raft_libs_scheme \<Rightarrow>
     (u64 \<Rightarrow> message \<Rightarrow> ('x, unit, transport_error) op) \<Rightarrow> loop_input \<times> bool \<Rightarrow>
     (('t, 'm, 'r, 'x) loop_state, loop_control, raft_loop_error) op" where
  "loop_turn L tsend = (\<lambda>(inp, due).
     bindO (receive_input L inp) (\<lambda>control.
       case control of
         Stop \<Rightarrow> retO Stop
       | Continue \<Rightarrow>
           bindO (tick_if L due) (\<lambda>_ s.
             if \<not> raw_has_ready L (raft_store (raft_node_of s)) (raw (raft_node_of s)) then (Ok Continue, s)
             else bindO (driver_process_ready L tsend) (\<lambda>_. retO Continue) s)))"

text \<open>
  \<open>run\<close>, on a finite sequence of inputs: \<open>Ok Continue\<close> when the loop is still running at its
  end, \<open>Ok Stop\<close> when it returned \<open>Ok(())\<close>.
\<close>

fun driver_run ::
    "('t, 'm, 'r, 'z) raft_libs_scheme \<Rightarrow>
     (u64 \<Rightarrow> message \<Rightarrow> ('x, unit, transport_error) op) \<Rightarrow> (loop_input \<times> bool) list \<Rightarrow>
     (('t, 'm, 'r, 'x) loop_state, loop_control, raft_loop_error) op" where
  "driver_run L tsend [] = retO Continue"
| "driver_run L tsend (i # ins) =
     bindO (loop_turn L tsend i) (\<lambda>control.
       case control of Stop \<Rightarrow> retO Stop | Continue \<Rightarrow> driver_run L tsend ins)"

text \<open>\<open>from_parts\<close>: a new driver has seen no leader and said nothing.\<close>

definition driver_init ::
    "('t, 'm, 'r) raft_node \<Rightarrow> node \<Rightarrow> 'x \<Rightarrow> ('t, 'm, 'r, 'x) loop_state" where
  "driver_init n k x =
     \<lparr>raft_node_of = n, kv_node = k, updates = [], replies = [], loop_transport = x,
      previous_leader_id = None\<rparr>"

section \<open>The loop as a transition system\<close>

inductive driver_step ::
    "('t, 'm, 'r, 'z) raft_libs_scheme \<Rightarrow>
     (u64 \<Rightarrow> message \<Rightarrow> ('x, unit, transport_error) op) \<Rightarrow>
     ('t, 'm, 'r, 'x) loop_state \<Rightarrow> ('t, 'm, 'r, 'x) loop_state \<Rightarrow> bool"
  for L tsend where
  turn: "loop_turn L tsend i s = (r, s') \<Longrightarrow> driver_step L tsend s s'"

inductive driver_reachable ::
    "('t, 'm, 'r, 'z) raft_libs_scheme \<Rightarrow>
     (u64 \<Rightarrow> message \<Rightarrow> ('x, unit, transport_error) op) \<Rightarrow>
     ('t, 'm, 'r, 'x) loop_state \<Rightarrow> ('t, 'm, 'r, 'x) loop_state \<Rightarrow> bool"
  for L tsend s0 where
  start: "driver_reachable L tsend s0 s0"
| step: "driver_reachable L tsend s0 s \<Longrightarrow> driver_step L tsend s s' \<Longrightarrow>
         driver_reachable L tsend s0 s'"

inductive_cases driver_stepE: "driver_step L tsend s s'"

inductive_simps driver_step_iff: "driver_step L tsend s s'"

section \<open>The builder\<close>

datatype builder_error =
    MissingRaftNode | MissingKvNode | MissingCmdRx | MissingMsgRx | MissingStateTx
  | MissingTransport | MissingShutdownRx

fun show_builder_error :: "builder_error \<Rightarrow> string" where
  "show_builder_error MissingRaftNode = ''RaftNode is required''"
| "show_builder_error MissingKvNode = ''KvNode is required''"
| "show_builder_error MissingCmdRx = ''Command receiver is required''"
| "show_builder_error MissingMsgRx = ''Message receiver is required''"
| "show_builder_error MissingStateTx = ''State sender is required''"
| "show_builder_error MissingTransport = ''Transport is required''"
| "show_builder_error MissingShutdownRx = ''Shutdown receiver is required''"

text \<open>The channel ends are handles of a type of their own each.\<close>

record ('n, 'c, 'q, 'u, 'x, 'h) driver_builder =
  b_raft_node :: "'n option"
  b_kv_node :: "node option"
  b_cmd_rx :: "'c option"
  b_msg_rx :: "'q option"
  b_state_tx :: "'u option"
  b_transport :: "'x option"
  b_shutdown_rx :: "'h option"

record ('n, 'c, 'q, 'u, 'x, 'h) driver_parts =
  d_raft_node :: 'n
  d_kv_node :: node
  d_cmd_rx :: 'c
  d_msg_rx :: 'q
  d_state_tx :: 'u
  d_transport :: 'x
  d_shutdown_rx :: 'h

definition builder_new :: "('n, 'c, 'q, 'u, 'x, 'h) driver_builder" where
  "builder_new = \<lparr>b_raft_node = None, b_kv_node = None, b_cmd_rx = None, b_msg_rx = None,
     b_state_tx = None, b_transport = None, b_shutdown_rx = None\<rparr>"

definition set_raft_node where
  "set_raft_node n (b :: ('n, 'c, 'q, 'u, 'x, 'h) driver_builder) = b\<lparr>b_raft_node := Some n\<rparr>"

definition set_kv_node where
  "set_kv_node n (b :: ('n, 'c, 'q, 'u, 'x, 'h) driver_builder) = b\<lparr>b_kv_node := Some n\<rparr>"

definition set_cmd_rx where
  "set_cmd_rx rx (b :: ('n, 'c, 'q, 'u, 'x, 'h) driver_builder) = b\<lparr>b_cmd_rx := Some rx\<rparr>"

definition set_msg_rx where
  "set_msg_rx rx (b :: ('n, 'c, 'q, 'u, 'x, 'h) driver_builder) = b\<lparr>b_msg_rx := Some rx\<rparr>"

definition set_state_tx where
  "set_state_tx tx (b :: ('n, 'c, 'q, 'u, 'x, 'h) driver_builder) = b\<lparr>b_state_tx := Some tx\<rparr>"

definition set_transport where
  "set_transport t (b :: ('n, 'c, 'q, 'u, 'x, 'h) driver_builder) = b\<lparr>b_transport := Some t\<rparr>"

definition set_shutdown_rx where
  "set_shutdown_rx rx (b :: ('n, 'c, 'q, 'u, 'x, 'h) driver_builder) = b\<lparr>b_shutdown_rx := Some rx\<rparr>"

definition build ::
    "('n, 'c, 'q, 'u, 'x, 'h) driver_builder \<Rightarrow>
     (('n, 'c, 'q, 'u, 'x, 'h) driver_parts, builder_error) result" where
  "build b =
     bindR (ok_or (b_raft_node b) MissingRaftNode) (\<lambda>raft_node.
     bindR (ok_or (b_kv_node b) MissingKvNode) (\<lambda>kv_node.
     bindR (ok_or (b_cmd_rx b) MissingCmdRx) (\<lambda>cmd_rx.
     bindR (ok_or (b_msg_rx b) MissingMsgRx) (\<lambda>msg_rx.
     bindR (ok_or (b_state_tx b) MissingStateTx) (\<lambda>state_tx.
     bindR (ok_or (b_transport b) MissingTransport) (\<lambda>transport.
     bindR (ok_or (b_shutdown_rx b) MissingShutdownRx) (\<lambda>shutdown_rx.
     Ok \<lparr>d_raft_node = raft_node, d_kv_node = kv_node, d_cmd_rx = cmd_rx, d_msg_rx = msg_rx,
         d_state_tx = state_tx, d_transport = transport, d_shutdown_rx = shutdown_rx\<rparr>)))))))"

section \<open>Properties\<close>

text \<open>
  The builder: it builds exactly when all seven parts were given, with the parts
  given last, and otherwise names a part that is missing, the first one in the order of
  the declaration; setting a part can be done in any order.
\<close>

theorem build_spec:
  "(\<exists>d. build b = Ok d) =
     (b_raft_node b \<noteq> None \<and> b_kv_node b \<noteq> None \<and> b_cmd_rx b \<noteq> None \<and> b_msg_rx b \<noteq> None \<and>
      b_state_tx b \<noteq> None \<and> b_transport b \<noteq> None \<and> b_shutdown_rx b \<noteq> None) \<and>
   build b \<noteq> Panic \<and>
   (build (b\<lparr>b_raft_node := None\<rparr>) = Err MissingRaftNode) \<and>
   build (set_shutdown_rx h (set_transport t (set_state_tx u (set_msg_rx q (set_cmd_rx c
     (set_kv_node k (set_raft_node n builder_new))))))) =
     Ok \<lparr>d_raft_node = n, d_kv_node = k, d_cmd_rx = c, d_msg_rx = q, d_state_tx = u, d_transport = t,
         d_shutdown_rx = h\<rparr> \<and>
   set_kv_node k (set_raft_node n b) = set_raft_node n (set_kv_node k b)"
proof -
  have "(\<exists>d. build b = Ok d) =
      (b_raft_node b \<noteq> None \<and> b_kv_node b \<noteq> None \<and> b_cmd_rx b \<noteq> None \<and> b_msg_rx b \<noteq> None \<and>
       b_state_tx b \<noteq> None \<and> b_transport b \<noteq> None \<and> b_shutdown_rx b \<noteq> None)" "build b \<noteq> Panic"
    by (cases b; rename_tac a1 a2 a3 a4 a5 a6 a7; case_tac a1; case_tac a2; case_tac a3; case_tac a4;
        case_tac a5; case_tac a6; case_tac a7; simp add: build_def)+
  then show ?thesis
    by (simp add: build_def set_raft_node_def set_kv_node_def set_cmd_rx_def set_msg_rx_def
        set_state_tx_def set_transport_def set_shutdown_rx_def builder_new_def)
qed

end
