(* ===== verification/Loop_Invariant.thy ===== *)
theory Loop_Invariant
  imports Raft_Driver
begin

text \<open>
  Invariants of the driver: what a predicate on its state has to be kept by for every round
  of the ready loop, and every turn after its input, to keep it, whatever the crate, the
  storage and the network answer and however the round ends.
\<close>

definition after_input ::
    "('t, 'm, 'r, 'z) raft_libs_scheme \<Rightarrow>
     (u64 \<Rightarrow> message \<Rightarrow> ('x, unit, transport_error) op) \<Rightarrow> bool \<Rightarrow> loop_control \<Rightarrow>
     (('t, 'm, 'r, 'x) loop_state, loop_control, raft_loop_error) op" where
  "after_input L tsend due control =
     (case control of
        Stop \<Rightarrow> retO Stop
      | Continue \<Rightarrow>
          bindO (tick_if L due) (\<lambda>_ s.
            if \<not> raw_has_ready L (raft_store (raft_node_of s)) (raw (raft_node_of s)) then (Ok Continue, s)
            else bindO (driver_process_ready L tsend) (\<lambda>_. retO Continue) s))"

lemma loop_turn_eq:
  "loop_turn L tsend (inp, due) = bindO (receive_input L inp) (after_input L tsend due)"
  unfolding loop_turn_def after_input_def [abs_def] by simp

lemma keeps_if: "(b \<Longrightarrow> keeps P f) \<Longrightarrow> (\<not> b \<Longrightarrow> keeps P g) \<Longrightarrow> keeps P (if b then f else g)"
  by simp

section \<open>Invariants that know what the crate hands out\<close>

text \<open>
  What the crate hands out to be applied: the data of a snapshot, and committed entries. A
  round takes what it was handed one by one, in this order.
\<close>

datatype handed_item = Snapshot_data bytes | Committed entry

definition ready_items :: "('t, 'm, 'r, 'z) raft_libs_scheme \<Rightarrow> ready \<Rightarrow> handed_item list" where
  "ready_items L rd =
     (if snapshot_is_empty L (ry_snapshot rd) then [] else [Snapshot_data (sn_data (ry_snapshot rd))]) @
     map Committed (ry_committed_entries rd)"

definition light_items :: "light_ready \<Rightarrow> handed_item list" where
  "light_items light = map Committed (lr_committed_entries light)"

text \<open>However \<open>m\<close> ends, it leads from \<open>P\<close> to \<open>Q\<close>.\<close>

definition leads :: "('s \<Rightarrow> bool) \<Rightarrow> ('s, 'a, 'e) op \<Rightarrow> ('s \<Rightarrow> bool) \<Rightarrow> bool" where
  "leads P m Q \<longleftrightarrow> (\<forall>s r s'. P s \<longrightarrow> m s = (r, s') \<longrightarrow> Q s')"

lemma leadsI: "(\<And>s r s'. P s \<Longrightarrow> m s = (r, s') \<Longrightarrow> Q s') \<Longrightarrow> leads P m Q"
  by (auto simp: leads_def)

lemma leadsD: "leads P m Q \<Longrightarrow> P s \<Longrightarrow> m s = (r, s') \<Longrightarrow> Q s'"
  by (auto simp: leads_def)

lemma keeps_leads: "keeps P m \<longleftrightarrow> leads P m P"
  by (auto simp: keeps_def leads_def)

lemma leads_bindO:
  assumes "leads P m Q" and "\<And>a. leads Q (f a) R" and "\<And>s. Q s \<Longrightarrow> R s"
  shows "leads P (bindO m f) R"
proof (rule leadsI)
  fix s r s'
  assume s: "P s" and r: "bindO m f s = (r, s')"
  obtain x t where t: "m s = (x, t)" by fastforce
  then have "Q t" by (rule leadsD [OF assms(1) s])
  with r t assms(3) show "R s'" by (cases x) (auto dest: leadsD [OF assms(2)])
qed

text \<open>\<open>P q s\<close>: the invariant holds of \<open>s\<close> with the items of \<open>q\<close> still to be applied to it.\<close>

locale round_invariant =
  fixes L :: "('t, 'm, 'r, 'z) raft_libs_scheme"
    and P :: "handed_item list \<Rightarrow> ('t, 'm, 'r, 'x) loop_state \<Rightarrow> bool"
  assumes of_dropped: "P (i # q) s \<Longrightarrow> P q s"
    and of_stored: "P q s \<Longrightarrow> P q (with_store st s)"
    and of_transport: "P q s \<Longrightarrow> P q (s\<lparr>loop_transport := x\<rparr>)"
    and of_update: "P q s \<Longrightarrow> P q (send_update u s)"
    and of_tui: "P q s \<Longrightarrow> P q (update_tui_state L s)"
    and of_tick: "P q s \<Longrightarrow> P q (s\<lparr>raft_node_of := (raft_node_of s)
      \<lparr>raw := raw_tick L (raft_store (raft_node_of s)) (raw (raft_node_of s))\<rparr>\<rparr>)"
    and of_ready: "P [] s \<Longrightarrow> take_ready L s = (Ok rd, s') \<Longrightarrow> P (ready_items L rd) s'"
    and of_advance: "P [] s \<Longrightarrow> advance_ready L rd s = (Ok light, s') \<Longrightarrow> P (light_items light) s'"
    and of_conf_change: "P q s \<Longrightarrow> on_node (on_raw (\<lambda>st. raw_apply_conf_change L st cc)) s = (x', s') \<Longrightarrow>
      P q s'"
    and of_entry: "P (Committed e # q) s \<Longrightarrow> e_type e = EntryNormal \<Longrightarrow> e_data e \<noteq> [] \<Longrightarrow>
      apply_normal_entry L e s = (r, s') \<Longrightarrow> P q s'"
    and of_restored: "P (Snapshot_data b # q) s \<Longrightarrow> bincode_codec_decode L b = Ok m \<Longrightarrow>
      P q (s\<lparr>kv_node := (kv_node s)\<lparr>kv := m\<rparr>\<rparr>)"
begin

lemma of_rest: "P (is @ q) s \<Longrightarrow> P q s"
  by (induction "is") (auto intro: of_dropped)

lemma storage_op_keeps: "keeps (P q) (storage_op f)"
  by (rule keepsI) (auto simp: storage_op_def split: prod.splits intro: of_stored)

lemma apply_decoded_keeps: "keeps (P q) (apply_decoded_conf_change L cc e)"
proof (rule keepsI)
  fix s r s'
  assume s: "P q s" and r: "apply_decoded_conf_change L cc e s = (r, s')"
  obtain x t where t: "on_node (on_raw (\<lambda>st. raw_apply_conf_change L st cc)) s = (x, t)" by fastforce
  have "P q t" by (rule of_conf_change [OF s t])
  moreover have "keeps (P q) (bindO (storage_op (storage_set_conf_state L cs))
      (\<lambda>_. storage_op (storage_set_applied_index L (e_index e))))" for cs
    by (intro keeps_bindO storage_op_keeps)
  ultimately show "P q s'"
    using r t by (cases x) (auto simp: apply_decoded_conf_change_def dest: keepsD)
qed

lemma apply_entry_leads: "leads (P (Committed e # q)) (apply_entry L e) (P q)"
proof (rule leadsI)
  fix s r s'
  assume s: "P (Committed e # q) s" and r: "apply_entry L e s = (r, s')"
  show "P q s'"
  proof (cases "e_type e = EntryNormal \<and> e_data e \<noteq> []")
    case True
    with r have "apply_normal_entry L e s = (r, s')" by (simp add: apply_entry_def)
    with s True show ?thesis by (auto intro: of_entry)
  next
    case False
    have "keeps (P q) (apply_conf_change L e)" "keeps (P q) (apply_conf_change_v2 L e)"
      by (rule keepsI; auto simp: apply_conf_change_def apply_conf_change_v2_def
          dest: keepsD [OF apply_decoded_keeps] split: result.splits)+
    with False r of_dropped [OF s] show ?thesis
      by (auto simp: apply_entry_def dest: keepsD split: if_splits entry_type.splits)
  qed
qed

lemma apply_entries_leads: "leads (P (map Committed es @ q)) (apply_entries L es) (P q)"
proof (induction es)
  case Nil
  show ?case by (rule leadsI) simp
next
  case (Cons e es)
  show ?case
    unfolding apply_entries.simps list.map append_Cons
    by (rule leads_bindO [OF apply_entry_leads Cons.IH]) (rule of_rest)
qed

lemma restore_leads: "leads (P (Snapshot_data b # q)) (restore_snapshot L b) (P q)"
  by (rule leadsI)
    (auto simp: restore_snapshot_def restore_from_snapshot_def bindO_def
      split: prod.splits result.splits intro: of_restored of_dropped)

lemma send_batch_keeps: "keeps (P q) (send_batch tsend ms)"
  by (rule keepsI) (auto simp: send_batch_def split: prod.splits intro: of_transport)

lemma process_snapshot_leads:
  "leads (P (Snapshot_data (sn_data snap) # q)) (process_snapshot L (restore_snapshot L) snap) (P q)"
proof -
  have "keeps (P q) (\<lambda>s. (Ok (), send_update u s))" for u
    by (rule keepsI) (auto intro: of_update)
  then have "keeps (P q) (bindO (storage_op f) (\<lambda>_ s. (Ok (), send_update u s)))" for f u
    by (intro keeps_bindO storage_op_keeps)
  note rest = this [unfolded keeps_leads]
  show ?thesis
    unfolding process_snapshot_def
    by (rule leads_bindO [OF storage_op_keeps [unfolded keeps_leads]
          leads_bindO [OF restore_leads rest] of_dropped])
qed

lemma persist_leads:
  "leads (P (ready_items L rd)) (persist_ready L (restore_snapshot L) rd)
     (P (map Committed (ry_committed_entries rd)))"
proof -
  let ?q = "map Committed (ry_committed_entries rd)"
  have snap: "leads (P (ready_items L rd)) (if snapshot_is_empty L (ry_snapshot rd) then retO ()
      else process_snapshot L (restore_snapshot L) (ry_snapshot rd)) (P ?q)"
  proof (cases "snapshot_is_empty L (ry_snapshot rd)")
    case True
    then show ?thesis by (auto simp: ready_items_def intro: leadsI)
  next
    case False
    with process_snapshot_leads [of "ry_snapshot rd" ?q] show ?thesis by (simp add: ready_items_def)
  qed
  have "keeps (P ?q) (bindO (if ry_entries rd = [] then retO () else append_entries L (ry_entries rd)) (\<lambda>_.
      case ry_hs rd of Some hs \<Rightarrow> persist_hardstate L hs | None \<Rightarrow> retO ()))"
    unfolding append_entries_def persist_hardstate_def
    by (auto intro!: keeps_bindO storage_op_keeps split: option.split)
  note rest = this [unfolded keeps_leads]
  show ?thesis unfolding persist_ready_def by (rule leads_bindO [OF snap rest])
qed

lemma apply_batch_leads:
  "leads (P (map Committed es)) (if es = [] then retO () else apply_entries L es) (P [])"
  using apply_entries_leads [of es "[]"] by (cases "es = []") (auto intro: leadsI)

lemma finish_leads:
  "leads (P (map Committed (ry_committed_entries rd))) (finish_ready L tsend (apply_entries L) rd) (P [])"
proof -
  have all: "P q s \<Longrightarrow> P [] s" for q s using of_rest [of q "[]" s] by simp
  have tui: "leads (P []) (\<lambda>s. (Ok (), update_tui_state L s)) (P [])"
    by (rule leadsI) (auto intro: of_tui)
  note send = send_batch_keeps [unfolded keeps_leads]
  have light: "leads (P (light_items light)) (bindO (send_batch tsend (lr_messages light)) (\<lambda>_.
      if lr_committed_entries light = [] then retO () else apply_entries L (lr_committed_entries light))) (P [])"
    for light
    unfolding light_items_def by (rule leads_bindO [OF send apply_batch_leads all])
  have advance: "leads (P []) (bindO (advance_ready L rd') (\<lambda>light.
      bindO (send_batch tsend (lr_messages light)) (\<lambda>_.
      if lr_committed_entries light = [] then retO () else apply_entries L (lr_committed_entries light)))) (P [])"
    for rd'
  proof (rule leadsI)
    fix s r s'
    assume s: "P [] s" and r: "bindO (advance_ready L rd') (\<lambda>light.
      bindO (send_batch tsend (lr_messages light)) (\<lambda>_. if lr_committed_entries light = [] then retO ()
        else apply_entries L (lr_committed_entries light))) s = (r, s')"
    obtain l t where t: "advance_ready L rd' s = (Ok l, t)"
      by (cases "raw_advance L (raft_store (raft_node_of s)) rd' (raw (raft_node_of s))")
        (simp add: advance_ready_def)
    show "P [] s'" by (rule leadsD [OF light of_advance [OF s t]]) (use r t in simp)
  qed
  show ?thesis
    unfolding finish_ready_def
    by (rule leads_bindO [OF send leads_bindO [OF apply_batch_leads leads_bindO [OF tui advance]] all])
qed

lemma process_ready_keeps: "keeps (P []) (driver_process_ready L tsend)"
proof (rule keepsI)
  fix s r s'
  assume s: "P [] s" and r: "driver_process_ready L tsend s = (r, s')"
  obtain rd t where t: "take_ready L s = (Ok rd, t)"
    by (cases "raw_ready L (raft_store (raft_node_of s)) (raw (raft_node_of s))") (simp add: take_ready_def)
  have all: "P q s \<Longrightarrow> P [] s" for q s using of_rest [of q "[]" s] by simp
  have "leads (P (ready_items L rd)) (bindO (send_batch tsend (ry_messages rd)) (\<lambda>_.
      bindO (persist_ready L (restore_snapshot L) rd) (\<lambda>_.
      finish_ready L tsend (apply_entries L) rd))) (P [])"
    by (rule leads_bindO [OF send_batch_keeps [unfolded keeps_leads] leads_bindO [OF persist_leads finish_leads all] all])
  with of_ready [OF s t] r t show "P [] s'"
    by (auto simp: driver_process_ready_def process_ready_def dest: leadsD)
qed

lemma after_input_keeps: "keeps (P []) (after_input L tsend due control)"
proof -
  have tick: "keeps (P []) (tick_if L due)"
    by (rule keepsI) (auto simp: tick_if_def intro: of_tick)
  have "keeps (P []) (bindO (driver_process_ready L tsend) (\<lambda>_. retO Continue))"
    by (intro keeps_bindO process_ready_keeps keeps_retO)
  then have round: "keeps (P [])
      (\<lambda>s. if \<not> raw_has_ready L (raft_store (raft_node_of s)) (raw (raft_node_of s)) then (Ok Continue, s)
           else bindO (driver_process_ready L tsend) (\<lambda>_. retO Continue) s)"
    by (auto intro!: keepsI dest: keepsD split: if_splits)
  show ?thesis
  proof (cases control)
    case Continue
    show ?thesis
      unfolding after_input_def Continue loop_control.case by (intro keeps_bindO tick round)
  next
    case Stop
    show ?thesis
      unfolding after_input_def Stop loop_control.case by (intro keeps_retO)
  qed
qed

text \<open>A turn that begins with an input keeps what taking the input establishes.\<close>

lemma turn_keeps:
  assumes "receive_input L inp s = (x, t)" and "P [] t" and "loop_turn L tsend (inp, due) s = (r, s')"
  shows "P [] s'"
proof (cases x)
  case (Ok control)
  with assms(1,3) have "after_input L tsend due control t = (r, s')" by (simp add: loop_turn_eq)
  with assms(2) show ?thesis by (rule keepsD [OF after_input_keeps])
qed (use assms in \<open>simp_all add: loop_turn_eq\<close>)

end

section \<open>Invariants that do not\<close>

text \<open>
  An invariant that holds whatever the crate answers: it is kept by any new state of the
  crate, and by the parts of applying an entry.
\<close>

locale loop_invariant =
  fixes L :: "('t, 'm, 'r, 'z) raft_libs_scheme"
    and P :: "('t, 'm, 'r, 'x) loop_state \<Rightarrow> bool"
  assumes with_raw: "P s \<Longrightarrow> P (s\<lparr>raft_node_of := (raft_node_of s)\<lparr>raw := w\<rparr>\<rparr>)"
    and with_stored: "P s \<Longrightarrow> P (with_store st s)"
    and with_transport: "P s \<Longrightarrow> P (s\<lparr>loop_transport := x\<rparr>)"
    and with_update: "P s \<Longrightarrow> P (send_update u s)"
    and with_tui: "P s \<Longrightarrow> P (update_tui_state L s)"
    and with_answer: "P s \<Longrightarrow> P (answer_callback c r s)"
    and with_applied: "P s \<Longrightarrow> apply_kv_command L b (kv_node s) = (q, k) \<Longrightarrow> P (s\<lparr>kv_node := k\<rparr>)"
    and with_restored: "P s \<Longrightarrow> bincode_codec_decode L b = Ok m \<Longrightarrow>
      P (s\<lparr>kv_node := (kv_node s)\<lparr>kv := m\<rparr>\<rparr>)"
begin

lemma keeps_storage_op: "keeps P (storage_op f)"
  by (rule keepsI) (auto simp: storage_op_def split: prod.splits intro: with_stored)

lemma keeps_on_raw: "keeps P (on_node (on_raw f))"
  by (rule keepsI) (auto simp: on_node_def on_raw_def split: prod.splits intro: with_raw)

lemma with_notify: "P s \<Longrightarrow> P (notify_kv_update L e s)"
  by (simp add: notify_kv_update_def with_answer with_update split: result.split option.split kv_cmd.split)

lemma keeps_apply_normal: "keeps P (apply_normal_entry L e)"
proof (rule keepsI)
  fix s r s'
  assume s: "P s" and r: "apply_normal_entry L e s = (r, s')"
  obtain q k where k: "apply_kv_command L (e_data e) (kv_node s) = (q, k)" by fastforce
  note ks = with_applied [OF s k]
  show "P s'"
  proof (cases q)
    case (Ok u)
    with r k have "storage_op (storage_set_applied_index L (e_index e))
        (notify_kv_update L e (s\<lparr>kv_node := k\<rparr>)) = (r, s')"
      by (simp add: apply_normal_entry_def)
    with with_notify [OF ks] show ?thesis by (rule keepsD [OF keeps_storage_op])
  next
    case (Err x)
    with r k have "storage_op (storage_set_applied_index L (e_index e))
        (answer_callback (e_context e) (Err (''Apply failed: '' @ x)) (s\<lparr>kv_node := k\<rparr>)) = (r, s')"
      by (simp add: apply_normal_entry_def)
    with with_answer [OF ks] show ?thesis by (rule keepsD [OF keeps_storage_op])
  next
    case Panic
    with r k ks show ?thesis by (simp add: apply_normal_entry_def)
  qed
qed

end

sublocale loop_invariant \<subseteq> rounds: round_invariant L "\<lambda>q. P"
  by unfold_locales
    (auto simp: take_ready_def advance_ready_def split: prod.splits
      intro: with_raw with_stored with_transport with_update with_tui with_restored
        keepsD [OF keeps_on_raw] keepsD [OF keeps_apply_normal])

end
