(* ===== verification/Driver_Safety.thy ===== *)
theory Driver_Safety
  imports Loop_Invariant
begin

text \<open>
  What holds of the driver over any run: invariants that need nothing of the crate, the
  storage and the network, and what holds when they work.
\<close>

section \<open>The callers' invariant\<close>

text \<open>
  \<open>U\<close> are the oneshot senders received so far. Nobody is answered twice, a caller still
  waiting has not been answered, no two callers wait under one id, and only senders
  received are used; the key-value map is a proper one.
\<close>

definition caller_inv ::
    "('t, 'm, 'r, 'z) raft_libs_scheme \<Rightarrow> oneshot set \<Rightarrow> ('t, 'm, 'r, 'y) app_state_scheme \<Rightarrow> bool" where
  "caller_inv L U s \<longleftrightarrow>
     bt_wf (kv (kv_node s)) \<and>
     distinct (map reply_to (replies s)) \<and>
     reply_to ` set (replies s) \<subseteq> U \<and>
     inj_on (callbacks (raft_node_of s)) (dom (callbacks (raft_node_of s))) \<and>
     ran (callbacks (raft_node_of s)) \<subseteq> U - reply_to ` set (replies s)"

text \<open>It speaks of three components only.\<close>

lemma caller_inv_cong:
  assumes "kv_node s' = kv_node s" and "replies s' = replies s"
    and "callbacks (raft_node_of s') = callbacks (raft_node_of s)"
  shows "caller_inv L U s' = caller_inv L U s"
  using assms by (simp add: caller_inv_def)

lemma ran_upd_None: "inj_on m (dom m) \<Longrightarrow> m c = Some v \<Longrightarrow> ran (m(c := None)) = ran m - {v}"
  by (auto simp: ran_def inj_on_def dom_def) (metis option.inject)

lemma caller_inv_answer:
  assumes "caller_inv L U s"
  shows "caller_inv L U (answer_callback c r s)"
proof (cases "callbacks (raft_node_of s) c")
  case None
  then have "(callbacks (raft_node_of s))(c := None) = callbacks (raft_node_of s)" by auto
  with None assms show ?thesis
    by (subst caller_inv_cong [of _ s]) (simp_all add: frame_simps)
next
  case (Some cb)
  let ?m = "callbacks (raft_node_of s)"
  have inj: "inj_on ?m (dom ?m)" and ran: "ran ?m \<subseteq> U - reply_to ` set (replies s)"
    using assms by (simp_all add: caller_inv_def)
  have cb: "cb \<in> U - reply_to ` set (replies s)" using ran Some by (auto simp: ran_def)
  have "inj_on (?m(c := None)) (dom (?m(c := None)))"
    using inj by (auto simp: inj_on_def)
  moreover have "ran (?m(c := None)) \<subseteq> U - insert cb (reply_to ` set (replies s))"
    unfolding ran_upd_None [OF inj Some] using ran by blast
  ultimately show ?thesis
    using assms cb Some by (auto simp: caller_inv_def frame_simps)
qed

lemma caller_inv_kv: "caller_inv L U s \<Longrightarrow> bt_wf (kv k) \<Longrightarrow> caller_inv L U (s\<lparr>kv_node := k\<rparr>)"
  by (simp add: caller_inv_def)

lemma caller_inv_update: "caller_inv L U (send_update u s) = caller_inv L U s"
  by (rule caller_inv_cong) (simp_all add: frame_simps)

lemma caller_inv_wf: "caller_inv L U s \<Longrightarrow> bt_wf (kv (kv_node s))"
  by (simp add: caller_inv_def)

lemma caller_inv_tui: "caller_inv L U (update_tui_state L s) = caller_inv L U s"
  by (rule caller_inv_cong) (simp_all add: update_tui_state_frame)

interpretation callers: loop_invariant L "\<lambda>s. bincode_ok L \<and> caller_inv L U s" for L U
proof
  fix s b q k m
  assume s: "bincode_ok L \<and> caller_inv L U s"
  show "apply_kv_command L b (kv_node s) = (q, k) \<Longrightarrow> bincode_ok L \<and> caller_inv L U (s\<lparr>kv_node := k\<rparr>)"
    using s by (auto intro: caller_inv_kv apply_kv_command_wf dest: caller_inv_wf)
  show "bincode_codec_decode L b = Ok m \<Longrightarrow>
      bincode_ok L \<and> caller_inv L U (s\<lparr>kv_node := (kv_node s)\<lparr>kv := m\<rparr>\<rparr>)"
    using s by (auto intro!: caller_inv_kv dest: bincode_codec.dec_wf)
qed (simp_all add: caller_inv_answer caller_inv_update caller_inv_tui, simp_all add: caller_inv_def)

text \<open>A command brings its oneshot sender, if it has one.\<close>

fun command_oneshots :: "server_command \<Rightarrow> oneshot list" where
  "command_oneshots (Rpc (RpcPut k v resp)) = [resp]"
| "command_oneshots (Rpc (RpcGet k resp)) = [resp]"
| "command_oneshots (User c) = []"

fun input_oneshots :: "loop_input \<times> bool \<Rightarrow> oneshot list" where
  "input_oneshots (InCommand c, due) = command_oneshots c"
| "input_oneshots (_, due) = []"

lemma caller_inv_mono: "caller_inv L U s \<Longrightarrow> U \<subseteq> U' \<Longrightarrow> caller_inv L U' s"
  by (auto simp: caller_inv_def)

lemma caller_inv_reply:
  assumes "caller_inv L U s" and "reply_to p \<notin> U"
  shows "caller_inv L (insert (reply_to p) U) (send_reply p s)"
  using assms by (auto simp: caller_inv_def frame_simps)

lemma propose_callbacks:
  assumes "propose_command L k v cb n = (r, n')"
  shows "callbacks n' = callbacks n \<or>
    (\<exists>c. cb = Some c \<and> callbacks n' = (callbacks n)(uuid_v4 L (uuids n) \<mapsto> c))"
proof -
  have "n' = snd (propose_command L k v cb n)" using assms by simp
  then show ?thesis
    by (cases cb; cases "encode_put_command L k v :: (bytes, raft_error) result")
      (simp_all add: propose_command_def Let_def)
qed

lemma caller_inv_pending:
  assumes "caller_inv L U s" and "resp \<notin> U"
    and "kv_node s' = kv_node s" and "replies s' = replies s"
    and "callbacks (raft_node_of s') = (callbacks (raft_node_of s))(c \<mapsto> resp)"
  shows "caller_inv L (insert resp U) s'"
proof -
  let ?m = "callbacks (raft_node_of s)"
  have ran: "ran ?m \<subseteq> U - reply_to ` set (replies s)" and inj: "inj_on ?m (dom ?m)"
    and sub: "reply_to ` set (replies s) \<subseteq> U"
    using assms(1) by (simp_all add: caller_inv_def)
  have "resp \<notin> ran ?m" "resp \<notin> reply_to ` set (replies s)" using ran sub assms(2) by auto
  then have "inj_on (?m(c \<mapsto> resp)) (dom (?m(c \<mapsto> resp)))"
    using inj by (auto simp: inj_on_def ran_def)
  moreover have "ran (?m(c \<mapsto> resp)) \<subseteq> insert resp U - reply_to ` set (replies s)"
    using ran \<open>resp \<notin> reply_to ` set (replies s)\<close> by (auto simp: ran_def split: if_splits)
  ultimately show ?thesis
    using assms(1) sub by (auto simp: caller_inv_def assms(3-5))
qed

lemma user_keeps_callbacks:
  assumes r: "handle_user_command L u s = (r, s')"
  shows "callbacks (raft_node_of s') = callbacks (raft_node_of s)"
proof (cases u)
  case (UserPut k v)
  obtain x t where t: "on_node (propose_command L k v None) s = (x, t)" by fastforce
  have "raft_node_of s' = raft_node_of t"
    using r
    by (auto simp: UserPut t Let_def frame_simps split: result.splits raft_error.splits)
  with propose_callbacks [OF on_node_propose(7) [OF t]] show ?thesis by simp
next
  case UserCampaign
  obtain x t where t: "on_node (on_raw (raw_campaign L)) s = (x, t)" by fastforce
  have "raft_node_of s' = raft_node_of t"
    using r by (auto simp: UserCampaign t frame_simps split: result.splits)
  with on_node_on_raw [OF t] show ?thesis
    by (metis app_state.select_convs(1) app_state.surjective app_state.update_convs(1)
        raft_node.select_convs(3) raft_node.surjective raft_node.update_convs(1))
qed (use r in \<open>auto simp: frame_simps Let_def\<close>)

lemma caller_inv_handle:
  assumes s: "caller_inv L U s" and fresh: "set (command_oneshots c) \<inter> U = {}"
    and r: "handle L c s = (r, s')"
  shows "caller_inv L (U \<union> set (command_oneshots c)) s'"
proof (cases c)
  case (Rpc q)
  show ?thesis
  proof (cases q)
    case (RpcGet k resp)
    with Rpc r fresh caller_inv_reply [OF s, of "GetReply resp (bt_get (get_internal_map (kv_node s)) k)"]
    show ?thesis by auto
  next
    case (RpcPut k v resp)
    show ?thesis
    proof (cases "is_leader L (raft_node_of s)")
      case False
      with Rpc RpcPut r fresh caller_inv_reply [OF s, of "PutReply resp (Err (not_leader_error
          (rs_leader_id (get_state L (raft_node_of s)))))"]
      show ?thesis by (auto simp: Let_def)
    next
      case True
      obtain x t where t: "on_node (propose_command L k v (Some resp)) s = (x, t)" by fastforce
      have "s' = t" using r True by (cases x) (simp_all add: Rpc RpcPut t)
      have "callbacks (raft_node_of t) = callbacks (raft_node_of s) \<or>
          (\<exists>ctx. callbacks (raft_node_of t) = (callbacks (raft_node_of s))(ctx \<mapsto> resp))"
        using propose_callbacks [OF on_node_propose(7) [OF t]] by auto
      then have "caller_inv L (insert resp U) t"
      proof
        assume "callbacks (raft_node_of t) = callbacks (raft_node_of s)"
        then have "caller_inv L U t"
          using s caller_inv_cong [OF on_node_propose(1,2) [OF t]] by blast
        then show ?thesis by (rule caller_inv_mono) blast
      next
        assume "\<exists>ctx. callbacks (raft_node_of t) = (callbacks (raft_node_of s))(ctx \<mapsto> resp)"
        then show ?thesis
          using caller_inv_pending [OF s _ on_node_propose(1,2) [OF t]] fresh Rpc RpcPut by auto
      qed
      with \<open>s' = t\<close> Rpc RpcPut show ?thesis by simp
    qed
  qed
next
  case (User u)
  have same: "kv_node s' = kv_node s" "replies s' = replies s"
    using handle_user_untouched [of L u s r s'] r User by (simp_all add: untouched_def)
  have "callbacks (raft_node_of s') = callbacks (raft_node_of s)"
    using r User by (simp add: user_keeps_callbacks)
  with s same have "caller_inv L U s'" by (simp add: caller_inv_def)
  with User show ?thesis by simp
qed

lemma caller_inv_input:
  assumes s: "caller_inv L U s" and fresh: "set (input_oneshots (inp, due)) \<inter> U = {}"
    and r: "receive_input L inp s = (r, s')"
  shows "caller_inv L (U \<union> set (input_oneshots (inp, due))) s'"
proof (cases inp)
  case (InCommand c)
  obtain x t where t: "handle L c s = (x, t)" by fastforce
  have "s' = t" using r by (cases x) (simp_all add: InCommand bindO_def t)
  with caller_inv_handle [OF s _ t] fresh show ?thesis by (simp add: InCommand)
next
  case (InMessage m)
  obtain x t where t: "on_node (on_raw (\<lambda>st. raw_step L st m)) s = (x, t)" by fastforce
  have "s' = t" using r by (cases x) (simp_all add: InMessage bindO_def handle_raft_message_def t)
  moreover have "caller_inv L U t"
    using t s by (auto simp: on_node_def on_raw_def caller_inv_def split: prod.splits)
  ultimately show ?thesis by (simp add: InMessage)
qed (use s r in simp_all)

lemma caller_inv_turn:
  assumes L: "bincode_ok L" and s: "caller_inv L U s" and fresh: "set (input_oneshots i) \<inter> U = {}"
    and r: "loop_turn L tsend i s = (r, s')"
  shows "caller_inv L (U \<union> set (input_oneshots i)) s'"
proof -
  obtain inp due where i: "i = (inp, due)" by fastforce
  obtain x t where t: "receive_input L inp s = (x, t)" by fastforce
  have "caller_inv L (U \<union> set (input_oneshots i)) t"
    using caller_inv_input [OF s _ t] fresh by (simp add: i)
  with L r callers.rounds.turn_keeps [OF t] show ?thesis unfolding i by blast
qed

lemma caller_inv_run:
  assumes L: "bincode_ok L"
  shows "caller_inv L U s \<Longrightarrow> distinct (concat (map input_oneshots is)) \<Longrightarrow>
    set (concat (map input_oneshots is)) \<inter> U = {} \<Longrightarrow> driver_run L tsend is s = (r, s') \<Longrightarrow>
    caller_inv L (U \<union> set (concat (map input_oneshots is))) s'"
proof (induction "is" arbitrary: s U)
  case Nil
  then show ?case by simp
next
  case (Cons i "is")
  obtain x t where t: "loop_turn L tsend i s = (x, t)" by fastforce
  let ?U = "U \<union> set (input_oneshots i)"
  have inv: "caller_inv L ?U t"
    using caller_inv_turn [OF L Cons.prems(1) _ t] Cons.prems(3) by auto
  then have all: "caller_inv L (U \<union> set (concat (map input_oneshots (i # is)))) t"
    by (rule caller_inv_mono) auto
  show ?case
  proof (cases "x = Ok Continue")
    case True
    with Cons.prems(4) t have run: "driver_run L tsend is t = (r, s')" by simp
    have "caller_inv L (?U \<union> set (concat (map input_oneshots is))) s'"
      using Cons.prems(2,3) by (intro Cons.IH [OF inv _ _ run]) auto
    then show ?thesis by (simp add: Un_assoc)
  next
    case False
    then have "s' = t"
      using Cons.prems(4) t by (cases x; cases "x = Ok Stop") (auto split: loop_control.splits)
    with all show ?thesis by simp
  qed
qed

section \<open>Nobody is forgotten\<close>

text \<open>Every caller of \<open>W\<close> waits or has been answered.\<close>

definition callers_kept ::
    "('t, 'm, 'r, 'z) raft_libs_scheme \<Rightarrow> oneshot set \<Rightarrow> ('t, 'm, 'r, 'y) app_state_scheme \<Rightarrow> bool" where
  "callers_kept L W s \<longleftrightarrow>
     callbacks_inv L (raft_node_of s) \<and>
     W \<subseteq> ran (callbacks (raft_node_of s)) \<union> reply_to ` set (replies s)"

lemma callers_kept_frame:
  assumes "callers_kept L W s" and "callbacks (raft_node_of s') = callbacks (raft_node_of s)"
    and "uuids (raft_node_of s') = uuids (raft_node_of s)" and "replies s' = replies s"
  shows "callers_kept L W s'"
  using assms by (simp add: callers_kept_def callbacks_inv_def)

lemma callers_kept_answer:
  assumes "callers_kept L W s"
  shows "callers_kept L W (answer_callback c r s)"
proof -
  let ?m = "callbacks (raft_node_of s)"
  have "ran ?m \<subseteq> ran (?m(c := None)) \<union> set_option (?m c)"
    by (auto simp: ran_def)
  moreover have "reply_to ` set (replies (answer_callback c r s)) =
      reply_to ` set (replies s) \<union> set_option (?m c)"
    by (cases "?m c") (auto simp: frame_simps)
  moreover have "callbacks (raft_node_of (answer_callback c r s)) = ?m(c := None)"
    by (simp add: frame_simps)
  ultimately show ?thesis
    using assms answer_callback_inv [of L s c r] unfolding callers_kept_def by (simp only:) blast
qed

interpretation kept: loop_invariant L "callers_kept L W" for L W
proof
  fix s c r
  show "callers_kept L W s \<Longrightarrow> callers_kept L W (answer_callback c r s)" by (rule callers_kept_answer)
qed (simp_all add: callers_kept_def callbacks_inv_def frame_simps update_tui_state_frame)

lemma callers_kept_new:
  assumes "callers_kept L W s" and "callbacks_inv L (raft_node_of s')"
    and "callbacks (raft_node_of s') = (callbacks (raft_node_of s))(c \<mapsto> resp)"
    and "callbacks (raft_node_of s) c = None" and "replies s' = replies s"
  shows "callers_kept L (insert resp W) s'"
  using assms by (auto simp: callers_kept_def ran_map_upd)

lemma callers_kept_handle:
  assumes P: "prost_ok L" and U: "inj (uuid_v4 L)" and s: "callers_kept L W s"
    and r: "handle L c s = (r, s')"
  shows "callers_kept L (W \<union> set (command_oneshots c)) s'"
proof (cases c)
  case (Rpc q)
  have cb: "callbacks_inv L (raft_node_of s)" using s by (simp add: callers_kept_def)
  show ?thesis
  proof (cases q)
    case (RpcGet k resp)
    with Rpc r s show ?thesis by (auto simp: callers_kept_def frame_simps)
  next
    case (RpcPut k v resp)
    show ?thesis
    proof (cases "is_leader L (raft_node_of s)")
      case False
      with Rpc RpcPut r s show ?thesis by (auto simp: Let_def callers_kept_def frame_simps)
    next
      case True
      obtain x t where t: "on_node (propose_command L k v (Some resp)) s = (x, t)" by fastforce
      have "s' = t" using r True by (cases x) (simp_all add: Rpc RpcPut t)
      have "callbacks (raft_node_of t) = (callbacks (raft_node_of s))(uuid_v4 L (uuids (raft_node_of s)) \<mapsto> resp)"
        by (rule propose_leader [OF P True, of k v "Some resp"])
          (use on_node_propose(7) [OF t] in \<open>auto split: prod.splits\<close>)
      then have "callers_kept L (insert resp W) t"
        by (rule callers_kept_new [OF s on_node_propose(6) [OF t cb] _ callbacks_inv_fresh [OF U cb]
            on_node_propose(2) [OF t]])
      with \<open>s' = t\<close> Rpc RpcPut show ?thesis by simp
    qed
  qed
next
  case (User u)
  have "replies s' = replies s" "callbacks_inv L (raft_node_of s) \<longrightarrow> callbacks_inv L (raft_node_of s')"
    using handle_user_untouched [of L u s r s'] r User by (simp_all add: untouched_def)
  moreover have "callbacks (raft_node_of s') = callbacks (raft_node_of s)"
    using r User by (simp add: user_keeps_callbacks)
  ultimately show ?thesis using s User by (simp add: callers_kept_def)
qed

lemma callers_kept_turn:
  assumes "prost_ok L" and "inj (uuid_v4 L)" and s: "callers_kept L W s"
    and r: "loop_turn L tsend (inp, due) s = (r, s')"
  shows "callers_kept L (W \<union> set (input_oneshots (inp, due))) s'"
proof -
  obtain q t where t: "receive_input L inp s = (q, t)" by fastforce
  have "callers_kept L (W \<union> set (input_oneshots (inp, due))) t"
  proof (cases inp)
    case (InCommand c)
    obtain x u where u: "handle L c s = (x, u)" by fastforce
    with t have "t = u" by (cases x) (simp_all add: InCommand bindO_def)
    with callers_kept_handle [OF assms(1,2) s u] show ?thesis by (simp add: InCommand)
  next
    case (InMessage m)
    obtain x u where u: "on_node (on_raw (\<lambda>st. raw_step L st m)) s = (x, u)" by fastforce
    with t have "t = u" by (cases x) (simp_all add: InMessage bindO_def handle_raft_message_def)
    with keepsD [OF kept.keeps_on_raw s u] show ?thesis by (simp add: InMessage)
  qed (use s t in auto)
  with kept.rounds.turn_keeps [OF t _ r] show ?thesis by blast
qed

section \<open>When the libraries work, and when the crate does not\<close>

text \<open>
  A crate whose functions return and whose snapshots can all be decoded. How a turn and a run
  end is stated below without it, for any crate.
\<close>

definition crate_ok :: "('t, 'm, 'r, 'z) raft_libs_scheme \<Rightarrow> bool" where
  "crate_ok L \<longleftrightarrow>
     (\<forall>st c d w. fst (raw_propose L st c d w) \<noteq> Panic) \<and>
     (\<forall>st w. fst (raw_campaign L st w) \<noteq> Panic) \<and>
     (\<forall>st m w. fst (raw_step L st m w) \<noteq> Panic) \<and>
     (\<forall>st w. snapshot_readable L (fst (raw_ready L st w)))"

definition loop_inv ::
    "('t, 'm, 'r, 'z) raft_libs_scheme \<Rightarrow> ('t \<Rightarrow> bytes \<rightharpoonup> bytes) \<Rightarrow> ('t \<Rightarrow> bytes \<rightharpoonup> bytes) \<Rightarrow>
     ('t, 'm, 'r, 'x) loop_state \<Rightarrow> bool" where
  "loop_inv L V D s \<longleftrightarrow> app_inv L V D s \<and> (\<exists>d. raft_store (raft_node_of s) = Disk d)"

text \<open>Every transport of the interface returns.\<close>

context transport begin

lemma sending_returns: "lib \<Longrightarrow> returns tsend"
  unfolding returns_def by (metis fst_conv result.distinct(3,5) send_cases)

end

text \<open>A driver started on a readable disk is well formed.\<close>

lemma started_on_disk:
  fixes x :: 'x
  assumes L: "apply_ok L V D" and d: "storage_inv L V D (Disk d)"
    and nd: "raft_node_new L n peers (Disk d) = Ok nd"
  obtains d' where "raw_new L (raft_node_config n) (Disk d') = Ok (raw nd)"
    "disk_first_index L d = Ok 1 \<longrightarrow> disk_first_index L d' = Ok 1"
    "loop_inv L V D (driver_init nd node_new x)"
proof -
  have ok: "disk_ok L V D" using L by (simp add: apply_ok_def storage_ok_def)
  obtain d' where d': "disk_initialize L (conf_state_default\<lparr>voters := peers\<rparr>) d = (Ok (), d')"
    "disk_inv L V d'" "disk_durable V D d'" "disk_first_index L d = Ok 1 \<longrightarrow> disk_first_index L d' = Ok 1"
    using disk_initialize_ok [OF ok, of d "conf_state_default\<lparr>voters := peers\<rparr>"] d by auto
  from nd have st: "raft_store nd = Disk d'" "raw_new L (raft_node_config n) (Disk d') = Ok (raw nd)"
    by (auto simp: raft_node_new_def Let_def on_disk_def d'(1))
  have "callbacks_inv L nd" by (rule callbacks_inv_new [OF nd])
  with d'(2,3) st(1) have "loop_inv L V D (driver_init nd node_new x)"
    by (simp add: loop_inv_def app_inv_def driver_init_def node_new_def)
  with that [OF st(2) d'(4)] show ?thesis by blast
qed

text \<open>When the crate panics on the input of a turn: in the call of it that the input makes.\<close>

definition proposal_panics ::
    "('t, 'm, 'r, 'z) raft_libs_scheme \<Rightarrow> string \<Rightarrow> string \<Rightarrow> ('t, 'm, 'r) raft_node \<Rightarrow> bool" where
  "proposal_panics L k v n \<longleftrightarrow>
     is_leader L n \<and>
     (case (encode_put_command L k v :: (bytes, raft_error) result) of
        Ok data \<Rightarrow> fst (raw_propose L (raft_store n) (uuid_v4 L (uuids n)) data (raw n)) = Panic
      | _ \<Rightarrow> False)"

fun crate_panics ::
    "('t, 'm, 'r, 'z) raft_libs_scheme \<Rightarrow> loop_input \<Rightarrow> ('t, 'm, 'r, 'y) app_state_scheme \<Rightarrow> bool" where
  "crate_panics L (InMessage m) s =
     (fst (raw_step L (raft_store (raft_node_of s)) m (raw (raft_node_of s))) = Panic)"
| "crate_panics L (InCommand (Rpc (RpcPut k v resp))) s = proposal_panics L k v (raft_node_of s)"
| "crate_panics L (InCommand (User (UserPut k v))) s = proposal_panics L k v (raft_node_of s)"
| "crate_panics L (InCommand (User UserCampaign)) s =
     (fst (raw_campaign L (raft_store (raft_node_of s)) (raw (raft_node_of s))) = Panic)"
| "crate_panics L inp s = False"

lemma propose_panics:
  assumes "prost_ok L"
  shows "fst (propose_command L k v cb n) = Panic \<longleftrightarrow> proposal_panics L k v n"
proof (cases "is_leader L n")
  case True
  show ?thesis
    by (rule propose_leader [OF assms True, of k v cb])
      (use True in \<open>simp add: proposal_panics_def split: prod.split\<close>)
qed (simp add: propose_not_leader proposal_panics_def)

lemma handle_panics:
  assumes "prost_ok L" and "handle L c s = (r, s')"
  shows "r = (if crate_panics L (InCommand c) s then Panic else Ok ())"
proof -
  have p: "fst (on_node (propose_command L k v cb) s) = Panic \<longleftrightarrow> proposal_panics L k v (raft_node_of s)"
    for k v cb
    unfolding propose_panics [OF assms(1), symmetric, of k v _ cb] by (simp add: on_node_def split: prod.split)
  have q: "fst (on_node (on_raw (raw_campaign L)) s) = Panic \<longleftrightarrow>
      fst (raw_campaign L (raft_store (raft_node_of s)) (raw (raft_node_of s))) = Panic"
    by (simp add: on_node_def on_raw_def split: prod.split)
  have "fst (handle L c s) = Panic \<longleftrightarrow> crate_panics L (InCommand c) s"
  proof (cases c)
    case (User u)
    show ?thesis
    proof (cases u)
      case (UserPut k v)
      show ?thesis
        unfolding User UserPut crate_panics.simps p [of k v None, symmetric]
        by (auto simp: Let_def split: prod.splits result.splits raft_error.splits)
    next
      case UserCampaign
      show ?thesis
        unfolding User UserCampaign crate_panics.simps q [symmetric]
        by (auto split: prod.splits result.splits)
    qed (simp_all add: User Let_def split: prod.split)
  next
    case (Rpc x)
    show ?thesis
    proof (cases x)
      case (RpcPut k v resp)
      show ?thesis
        unfolding Rpc RpcPut crate_panics.simps p [of k v "Some resp", symmetric]
        by (auto simp: Let_def on_node_def propose_not_leader split: prod.splits result.splits)
    qed (simp add: Rpc Let_def)
  qed
  with assms(2) handle_untouched [OF assms(2)] show ?thesis by (cases r) auto
qed

lemma crate_ok_no_panic:
  assumes "crate_ok L"
  shows "\<not> crate_panics L inp s"
proof -
  have "\<not> proposal_panics L k v (raft_node_of s)" for k v
    using assms by (auto simp: crate_ok_def proposal_panics_def split: result.splits)
  with assms show ?thesis
    by (cases "(L, inp, s)" rule: crate_panics.cases) (auto simp: crate_ok_def)
qed

lemma handle_no_panic:
  "prost_ok L \<Longrightarrow> crate_ok L \<Longrightarrow> handle L c s = (r, s') \<Longrightarrow> r = Ok ()"
  using handle_panics [of L c s r s'] by (simp add: crate_ok_no_panic del: handle.simps crate_panics.simps)

lemma handle_loop_inv:
  assumes "handle L c s = (r, s')" and "loop_inv L V D s"
  shows "loop_inv L V D s'"
  using handle_untouched [OF assms(1)] assms(2)
  by (auto simp: untouched_def loop_inv_def app_inv_def)

text \<open>How a sequence of inputs ends the loop when nothing else does.\<close>

fun loop_outcome :: "loop_input list \<Rightarrow> (loop_control, raft_loop_error) result" where
  "loop_outcome [] = Ok Continue"
| "loop_outcome (InShutdown # is) = Ok Stop"
| "loop_outcome (InCommandClosed # is) = Err CommandChannelClosed"
| "loop_outcome (InMessageClosed # is) = Err MessageChannelClosed"
| "loop_outcome (_ # is) = loop_outcome is"

text \<open>What an input asks of the loop, and what the loop makes of it when the crate panics on it.\<close>

fun input_outcome :: "loop_input \<Rightarrow> (loop_control, raft_loop_error) result" where
  "input_outcome InShutdown = Ok Stop"
| "input_outcome InCommandClosed = Err CommandChannelClosed"
| "input_outcome InMessageClosed = Err MessageChannelClosed"
| "input_outcome _ = Ok Continue"

lemma loop_outcome_Cons:
  "loop_outcome (inp # is) = (if input_outcome inp = Ok Continue then loop_outcome is else input_outcome inp)"
  by (cases inp) simp_all

lemma panics_only_on_work: "crate_panics L inp s \<Longrightarrow> input_outcome inp = Ok Continue"
  by (cases inp) simp_all

lemma receive_input_outcome:
  assumes "prost_ok L" and s: "loop_inv L V D s"
  shows "\<exists>s'. receive_input L inp s = (if crate_panics L inp s then Panic else input_outcome inp, s') \<and>
    loop_inv L V D s'"
proof (cases inp)
  case (InCommand c)
  obtain r t where t: "handle L c s = (r, t)" by fastforce
  with handle_panics [OF assms(1) t] handle_loop_inv [OF t s] show ?thesis by (simp add: InCommand)
next
  case (InMessage m)
  obtain r w where w: "raw_step L (raft_store (raft_node_of s)) m (raw (raft_node_of s)) = (r, w)"
    by fastforce
  moreover have "loop_inv L V D (s\<lparr>raft_node_of := (raft_node_of s)\<lparr>raw := w\<rparr>\<rparr>)"
    using s by (simp add: loop_inv_def app_stable)
  ultimately show ?thesis
    by (cases r) (simp_all add: InMessage bindO_def handle_raft_message_def on_node_def on_raw_def)
qed (use s in simp_all)

lemma storage_log_disk: "storage_log L V st \<noteq> None \<Longrightarrow> \<exists>d. st = Disk d"
  by (cases st) simp_all

text \<open>
  A \<open>Ready\<close> whose snapshot cannot be decoded: raft passes on what another node sent it. The
  snapshot is stored, then the round ends with the error of the codec.
\<close>

definition restore_error :: "snapshot_error \<Rightarrow> raft_loop_error" where
  "restore_error e = OtherError (''Failed to restore snapshot: '' @ show_snapshot_error e)"

definition unreadable_snapshot ::
    "('t, 'm, 'r, 'z) raft_libs_scheme \<Rightarrow> ready \<Rightarrow> snapshot_error option" where
  "unreadable_snapshot L rd =
     (if snapshot_is_empty L (ry_snapshot rd) then None
      else case bincode_codec_decode L (sn_data (ry_snapshot rd)) of Err e \<Rightarrow> Some e | _ \<Rightarrow> None)"

lemma unreadable_snapshot_None:
  assumes "apply_ok L V D"
  shows "unreadable_snapshot L rd = None \<longleftrightarrow> snapshot_readable L rd"
proof -
  have "bincode_codec_decode L b \<noteq> Panic" for b
    using assms
    by (auto simp: apply_ok_def apply_total_def bincode_codec_decode_def bindR_eq_Panic)
  then show ?thesis
    by (auto simp: unreadable_snapshot_def snapshot_readable_def split: result.splits)
qed

lemma process_ready_unreadable:
  assumes L: "apply_ok L V D" and s: "app_inv L V D s" and d: "raft_store (raft_node_of s) = Disk d"
    and ret: "returns tsend"
    and rd: "raw_ready L (Disk d) (raw (raft_node_of s)) = (rd, w)" and e: "unreadable_snapshot L rd = Some e"
  shows "\<exists>s'. process_ready L tsend (apply_entries L) (restore_snapshot L) s = (Err (restore_error e), s') \<and>
    loop_inv L V D s' \<and> loop_transport s' = after_sending tsend (ry_messages rd) (loop_transport s)"
proof -
  let ?snap = "ry_snapshot rd"
  let ?s1 = "s\<lparr>raft_node_of := (raft_node_of s)\<lparr>raw := w\<rparr>,
    loop_transport := after_sending tsend (ry_messages rd) (loop_transport s)\<rparr>"
  have ne: "\<not> snapshot_is_empty L ?snap" and dec: "bincode_codec_decode L (sn_data ?snap) = Err e"
    using e by (auto simp: unreadable_snapshot_def split: if_splits result.splits)
  have ok: "disk_ok L V D" and inv: "disk_inv L V d" "disk_durable V D d"
    using L s by (simp_all add: apply_ok_def storage_ok_def app_inv_disk [OF d])
  obtain d1 where d1: "disk_apply_snapshot L ?snap d = (Ok (), d1)" "disk_inv L V d1" "disk_durable V D d1"
    using disk_apply_snapshot_refines [OF ok inv(1)] by blast
  let ?s2 = "with_store (Disk d1) ?s1"
  have r1: "storage_op (storage_apply_snapshot L ?snap) ?s1 = (Ok (), ?s2)"
    by (simp add: d on_disk_def d1(1))
  have r2: "restore_snapshot L (sn_data ?snap) ?s2 = (Err (restore_error e), ?s2)"
    by (simp add: restore_snapshot_def restore_from_snapshot_def dec restore_error_def)
  have "persist_ready L (restore_snapshot L) rd ?s1 = (Err (restore_error e), ?s2)"
    by (simp only: persist_ready_def process_snapshot_def bindO_def r1 r2 ne prod.case result.case if_False)
  then have "process_ready L tsend (apply_entries L) (restore_snapshot L) s = (Err (restore_error e), ?s2)"
    by (simp add: process_ready_def bindO_def take_ready_def d rd send_batch_returns [OF ret])
  moreover have "loop_inv L V D ?s2"
    using s d1(2,3) by (simp add: loop_inv_def app_inv_def callbacks_inv_def)
  ultimately show ?thesis by simp
qed

text \<open>The \<open>Ready\<close> of a round, and how the round ends.\<close>

definition next_ready ::
    "('t, 'm, 'r, 'z) raft_libs_scheme \<Rightarrow> ('t, 'm, 'r, 'y) app_state_scheme \<Rightarrow> ready" where
  "next_ready L s = fst (raw_ready L (raft_store (raft_node_of s)) (raw (raft_node_of s)))"

lemma process_ready_outcome:
  assumes L: "apply_ok L V D" and ret: "returns tsend" and s: "loop_inv L V D s"
  shows "\<exists>s'. driver_process_ready L tsend s =
      (case unreadable_snapshot L (next_ready L s) of Some e \<Rightarrow> Err (restore_error e) | None \<Rightarrow> Ok (), s') \<and>
    loop_inv L V D s'"
proof -
  obtain d where d: "raft_store (raft_node_of s) = Disk d" and inv: "app_inv L V D s"
    using s by (auto simp: loop_inv_def)
  obtain rd w where rd: "raw_ready L (Disk d) (raw (raft_node_of s)) = (rd, w)" by fastforce
  then have nr: "next_ready L s = rd" by (simp add: next_ready_def d)
  show ?thesis
  proof (cases "unreadable_snapshot L rd")
    case None
    then have "snapshot_readable L rd" by (simp add: unreadable_snapshot_None [OF L])
    from process_ready_stages [OF L inv d ret rd this] obtain s2 d2 where
      s2: "app_inv L V D s2" "raft_store (raft_node_of s2) = Disk d2"
      "process_ready L tsend (apply_entries L) (restore_snapshot L) s =
         finish_ready L tsend (apply_entries L) rd s2" by metis
    obtain s' where s': "finish_ready L tsend (apply_entries L) rd s2 = (Ok (), s')" "app_inv L V D s'"
      "app_durable L V s' = app_durable L V s2"
      using kv_loop.finish_ready_ok [OF L s2(1) ret, of rd] by blast
    then have "storage_log L V (raft_store (raft_node_of s')) \<noteq> None"
      by (simp add: app_durable_def s2(2))
    from storage_log_disk [OF this] s' s2(3) None show ?thesis
      by (auto simp: loop_inv_def driver_process_ready_def nr)
  next
    case (Some e)
    with process_ready_unreadable [OF L inv d ret rd Some] show ?thesis
      by (auto simp: driver_process_ready_def nr)
  qed
qed

text \<open>
  What can go wrong in a turn: the crate panics on the input, or the snapshot of the \<open>Ready\<close>
  it has after input and tick cannot be decoded.
\<close>

definition turn_failure ::
    "('t, 'm, 'r, 'z) raft_libs_scheme \<Rightarrow> loop_input \<times> bool \<Rightarrow> ('t, 'm, 'r, 'x) loop_state \<Rightarrow>
     (loop_control, raft_loop_error) result option" where
  "turn_failure L i s =
     (let (inp, due) = i; t = snd (tick_if L due (snd (receive_input L inp s))) in
      if crate_panics L inp s then Some Panic
      else if input_outcome inp = Ok Continue \<and>
              raw_has_ready L (raft_store (raft_node_of t)) (raw (raft_node_of t))
      then map_option (\<lambda>e. Err (restore_error e)) (unreadable_snapshot L (next_ready L t))
      else None)"

lemma loop_turn_outcome:
  assumes L: "apply_ok L V D" "prost_ok L" and ret: "returns tsend" and s: "loop_inv L V D s"
  shows "\<exists>s'. loop_turn L tsend i s =
      (case turn_failure L i s of Some r \<Rightarrow> r | None \<Rightarrow> input_outcome (fst i), s') \<and> loop_inv L V D s'"
proof -
  obtain inp due where i: "i = (inp, due)" by fastforce
  obtain t where t: "receive_input L inp s = (if crate_panics L inp s then Panic else input_outcome inp, t)"
    "loop_inv L V D t"
    using receive_input_outcome [OF L(2) s] by blast
  let ?u = "snd (tick_if L due t)"
  have u: "loop_inv L V D ?u" using t(2) by (simp add: tick_if_def loop_inv_def app_stable)
  show ?thesis
  proof (cases "\<not> crate_panics L inp s \<and> input_outcome inp = Ok Continue")
    case False
    then have "loop_turn L tsend i s = (if crate_panics L inp s then Panic else input_outcome inp, t)"
      using t(1) by (cases inp) (auto simp: i loop_turn_eq after_input_def)
    with False t show ?thesis by (auto simp: turn_failure_def i panics_only_on_work)
  next
    case True
    then have turn: "loop_turn L tsend i s = after_input L tsend due Continue t"
      using t(1) by (simp add: i loop_turn_eq)
    have fail: "turn_failure L i s =
        (if raw_has_ready L (raft_store (raft_node_of ?u)) (raw (raft_node_of ?u))
         then map_option (\<lambda>e. Err (restore_error e)) (unreadable_snapshot L (next_ready L ?u)) else None)"
      using True t(1) by (simp add: turn_failure_def i Let_def)
    obtain s' where s': "driver_process_ready L tsend ?u =
        (case unreadable_snapshot L (next_ready L ?u) of Some e \<Rightarrow> Err (restore_error e) | None \<Rightarrow> Ok (), s')"
      "loop_inv L V D s'"
      using process_ready_outcome [OF L(1) ret u] by blast
    show ?thesis
      using True s' u unfolding turn fail
      by (cases "unreadable_snapshot L (next_ready L ?u)")
        (auto simp: i after_input_def bindO_def tick_if_def)
  qed
qed

lemma crate_ok_no_failure:
  assumes "crate_ok L"
  shows "turn_failure L i s = None"
proof -
  have "snapshot_readable L (next_ready L t)" for t :: "('a, 'b, 'c, 'e) loop_state"
    using assms by (simp add: crate_ok_def next_ready_def)
  then have "unreadable_snapshot L (next_ready L t) = None" for t :: "('a, 'b, 'c, 'e) loop_state"
    by (auto simp: unreadable_snapshot_def snapshot_readable_def split: result.split)
      (metis is_ok.simps(2))
  then show ?thesis
    by (simp add: turn_failure_def crate_ok_no_panic [OF assms] Let_def split: prod.split)
qed

text \<open>A run in which nothing goes wrong, and one in which something does.\<close>

definition fails_at ::
    "('t, 'm, 'r, 'z) raft_libs_scheme \<Rightarrow> (u64 \<Rightarrow> message \<Rightarrow> ('x, unit, transport_error) op) \<Rightarrow>
     (loop_input \<times> bool) list \<Rightarrow> ('t, 'm, 'r, 'x) loop_state \<Rightarrow>
     (loop_control, raft_loop_error) result \<Rightarrow> bool" where
  "fails_at L tsend ins s r \<longleftrightarrow>
     (\<exists>before i behind t. ins = before @ i # behind \<and> driver_run L tsend before s = (Ok Continue, t) \<and>
        turn_failure L i t = Some r)"

lemma fails_at_Cons:
  assumes "loop_turn L tsend i s = (q, t)"
  shows "fails_at L tsend (i # ins) s r \<longleftrightarrow>
    turn_failure L i s = Some r \<or> (q = Ok Continue \<and> fails_at L tsend ins t r)"
proof
  assume "fails_at L tsend (i # ins) s r"
  then obtain before j behind u where j: "i # ins = before @ j # behind"
    "driver_run L tsend before s = (Ok Continue, u)" "turn_failure L j u = Some r"
    by (auto simp: fails_at_def)
  show "turn_failure L i s = Some r \<or> (q = Ok Continue \<and> fails_at L tsend ins t r)"
  proof (cases before)
    case Nil
    with j show ?thesis by simp
  next
    case (Cons i' before')
    have "c = Continue \<or> c = Stop" for c by (cases c) simp_all
    with j assms Cons have "q = Ok Continue" "driver_run L tsend before' t = (Ok Continue, u)"
      by (auto simp: bindO_eq_Ok split: loop_control.splits)
    moreover have "ins = before' @ j # behind" using j(1) Cons by simp
    ultimately show ?thesis using j(3) unfolding fails_at_def by blast
  qed
next
  assume "turn_failure L i s = Some r \<or> (q = Ok Continue \<and> fails_at L tsend ins t r)"
  then show "fails_at L tsend (i # ins) s r"
  proof
    assume "turn_failure L i s = Some r"
    then show ?thesis unfolding fails_at_def by (intro exI [of _ "[]"]) auto
  next
    assume "q = Ok Continue \<and> fails_at L tsend ins t r"
    then obtain before j behind u where j: "q = Ok Continue" "ins = before @ j # behind"
      "driver_run L tsend before t = (Ok Continue, u)" "turn_failure L j u = Some r"
      by (auto simp: fails_at_def)
    then have "driver_run L tsend (i # before) s = (Ok Continue, u)" using assms by simp
    with j show ?thesis unfolding fails_at_def by (intro exI [of _ "i # before"]) auto
  qed
qed

lemma driver_run_any:
  assumes L: "apply_ok L V D" "prost_ok L" "returns tsend"
  shows "loop_inv L V D s \<Longrightarrow>
    \<exists>r s'. driver_run L tsend is s = (r, s') \<and> loop_inv L V D s' \<and>
      (\<forall>q. fails_at L tsend is s q \<longrightarrow> r = q) \<and>
      ((\<nexists>q. fails_at L tsend is s q) \<longrightarrow> r = loop_outcome (map fst is))"
proof (induction "is" arbitrary: s)
  case Nil
  then show ?case by (auto simp: fails_at_def)
next
  case (Cons i "is")
  obtain t where t: "loop_turn L tsend i s =
      (case turn_failure L i s of Some r \<Rightarrow> r | None \<Rightarrow> input_outcome (fst i), t)" "loop_inv L V D t"
    using loop_turn_outcome [OF L Cons.prems] by blast
  show ?case
  proof (cases "turn_failure L i s = None \<and> input_outcome (fst i) = Ok Continue")
    case True
    from Cons.IH [OF t(2)] t(1) True show ?thesis
      by (auto simp: fails_at_Cons [OF t(1)] loop_outcome_Cons bindO_def)
  next
    case False
    have stop: "r \<noteq> Ok c" if "turn_failure L i s = Some r" for r c
      using that by (auto simp: turn_failure_def Let_def split: prod.splits if_splits)
    define q where "q = (case turn_failure L i s of Some r \<Rightarrow> r | None \<Rightarrow> input_outcome (fst i))"
    have q: "loop_turn L tsend i s = (q, t)" "q \<noteq> Ok Continue"
      using False t(1) stop by (auto simp: q_def split: option.splits)
    then have "driver_run L tsend (i # is) s = (q, t)"
      by (cases q) (auto simp: bindO_def split: loop_control.splits)
    moreover have "fails_at L tsend (i # is) s p \<longleftrightarrow> turn_failure L i s = Some p" for p
      using q(2) by (simp add: fails_at_Cons [OF q(1)])
    ultimately show ?thesis
      using False t(2) by (auto simp: loop_outcome_Cons q_def split: option.splits)
  qed
qed

lemma driver_run_outcome:
  assumes L: "apply_ok L V D" "crate_ok L" "prost_ok L" "returns tsend" and s: "loop_inv L V D s"
  shows "\<exists>s'. driver_run L tsend is s = (loop_outcome (map fst is), s') \<and> loop_inv L V D s'"
proof -
  have "\<not> fails_at L tsend is s q" for q by (simp add: fails_at_def crate_ok_no_failure [OF L(2)])
  with driver_run_any [OF L(1,3,4) s, of "is"] show ?thesis by blast
qed

section \<open>Properties\<close>

text \<open>
  Callers over a whole run, whatever the crate, the storage and the network do, and
  however the run ends: when the commands bring distinct oneshot senders, no sender is
  used twice, none is used that was not received, no caller still waiting has been
  answered, and the key-value map is a proper one.
\<close>

theorem callers_answered_at_most_once:
  assumes "bincode_ok L" and "bt_wf (kv k)" and "callbacks n = Map.empty"
    and "distinct (concat (map input_oneshots ins))"
    and "driver_run L tsend ins (driver_init n k x) = (r, s')"
  shows "distinct (map reply_to (replies s')) \<and>
    reply_to ` set (replies s') \<subseteq> set (concat (map input_oneshots ins)) \<and>
    ran (callbacks (raft_node_of s')) \<inter> reply_to ` set (replies s') = {} \<and>
    bt_wf (kv (kv_node s'))"
proof -
  have "caller_inv L {} (driver_init n k x)"
    using assms(2,3) by (simp add: caller_inv_def driver_init_def)
  from caller_inv_run [OF assms(1) this assms(4) _ assms(5)] show ?thesis
    by (auto simp: caller_inv_def)
qed

theorem callers_answered_at_most_once_witness:
  "\<exists>r s'. driver_run (sample_raft_libs (\<lambda>_. [])) (local_send sample_chan)
      [(InCommand (Rpc (RpcPut ''k'' ''v'' 7)), False), (InCommand (Rpc (RpcGet ''k'' 8)), True)]
      (driver_init (sample_node sample_raw_leader) node_new \<lparr>lt_node_id = 1, lt_peers = []\<rparr>) = (r, s') \<and>
    distinct (map reply_to (replies s')) \<and> reply_to ` set (replies s') \<subseteq> {7, 8}"
proof -
  let ?L = "sample_raft_libs (\<lambda>_. [])"
  let ?ins = "[(InCommand (Rpc (RpcPut ''k'' ''v'' 7)), False), (InCommand (Rpc (RpcGet ''k'' 8)), True)]"
  obtain r s' where run: "driver_run ?L (local_send sample_chan) ?ins
      (driver_init (sample_node sample_raw_leader) node_new \<lparr>lt_node_id = 1, lt_peers = []\<rparr>) = (r, s')"
    by (meson surj_pair)
  have "bincode_ok ?L" "callbacks (sample_node sample_raw_leader) = Map.empty" "bt_wf (kv node_new)"
    using sample_apply_ok by (simp_all add: apply_ok_def sample_node_def node_new_def)
  with callers_answered_at_most_once [OF _ _ _ _ run] show ?thesis
    by (intro exI [of _ r] exI [of _ s'] conjI [OF run]) (simp del: driver_run.simps)
qed

text \<open>
  C14. What ends the loop, on a disk that works, for every sequence of commands, messages and
  ticks and whatever the crate does with them: the shutdown signal, with \<open>Ok\<close>; the first
  channel found closed, with its error; a panic of the crate in the call that an input
  makes of it; and a \<open>Ready\<close> whose snapshot cannot be decoded, as one that another node
  sent may not be, with the error of the codec. Where one of the last two happens the run
  ends with it; where neither happens, the run is what its inputs make it, and nothing else
  ends it: no message refused, no proposal dropped, no peer that cannot be reached.
  However it ends, the store on disk and the node stay well formed. \<open>apply_ok\<close> says that the
  disk works and that decoding and changing the configuration return; a panic of the crate
  in \<open>ready\<close>, \<open>advance\<close> or \<open>tick\<close> is outside the model.
\<close>

theorem loop_ends_only_by_its_inputs:
  assumes "apply_ok L V D" and "prost_ok L" and "returns tsend"
    and "app_inv L V D s" and "raft_store (raft_node_of s) = Disk d"
  shows "\<exists>r s' d'. driver_run L tsend ins s = (r, s') \<and>
    app_inv L V D s' \<and> raft_store (raft_node_of s') = Disk d' \<and>
    (\<forall>q. fails_at L tsend ins s q \<longrightarrow> r = q \<and> (q = Panic \<or> (\<exists>e. q = Err (restore_error e)))) \<and>
    ((\<nexists>q. fails_at L tsend ins s q) \<longrightarrow> r = loop_outcome (map fst ins))"
proof -
  have s: "loop_inv L V D s" using assms(4,5) by (simp add: loop_inv_def)
  obtain r s' where run: "driver_run L tsend ins s = (r, s')" "loop_inv L V D s'"
    "\<forall>q. fails_at L tsend ins s q \<longrightarrow> r = q"
    "(\<nexists>q. fails_at L tsend ins s q) \<longrightarrow> r = loop_outcome (map fst ins)"
    using driver_run_any [OF assms(1-3) s, of ins] by blast
  then obtain d' where "app_inv L V D s'" "raft_store (raft_node_of s') = Disk d'"
    by (auto simp: loop_inv_def)
  moreover have "q = Panic \<or> (\<exists>e. q = Err (restore_error e))" if "fails_at L tsend ins s q" for q
    using that by (auto simp: fails_at_def turn_failure_def Let_def split: prod.splits if_splits)
  ultimately show ?thesis using run by blast
qed

lemma sample_crate_ok: "crate_ok (sample_raft_libs img)"
  by (auto simp: crate_ok_def snapshot_readable_def sample_raft_defs sample_ready_def
      snapshot_default_def get_metadata_def snapshot_metadata_default_def)

text \<open>A crate that passes on the snapshot it was sent, whatever is in it.\<close>

definition sample_passing_libs :: "(sample_tree, sample_mem, sample_raw) raft_libs" where
  "sample_passing_libs = (sample_raft_libs (\<lambda>_. []))\<lparr>raw_ready := (\<lambda>st w.
     (case sr_ready w of Some rd \<Rightarrow> rd | None \<Rightarrow> sample_ready, w\<lparr>sr_ready := None\<rparr>))\<rparr>"

lemma sample_passing_ok:
  "apply_ok sample_passing_libs map_of map_of" "prost_ok sample_passing_libs"
  "app_inv sample_passing_libs map_of map_of (sample_loop w (Disk sample_fresh) p)"
proof -
  let ?L = "sample_raft_libs (\<lambda>_. [])"
  note defs = storage_ok_def mem_ok_def disk_ok_def sled_sound_def sled_up_def proto_ok_def
    bincode_ok_def apply_total_def
  show "apply_ok sample_passing_libs map_of map_of"
    using sample_apply_ok [of "\<lambda>_. []"] by (simp add: apply_ok_def defs sample_passing_libs_def)
  show "prost_ok sample_passing_libs"
    using sample_raft_prost [of "\<lambda>_. []"] by (simp add: prost_ok_def sample_passing_libs_def)
  show "app_inv sample_passing_libs map_of map_of (sample_loop w (Disk sample_fresh) p)"
    using sample_loop_inv [of "\<lambda>_. []" w p]
    by (simp add: app_inv_def sample_loop_def disk_inv_def disk_abs_def entries_inv_def readable_def
        decode_index_def [abs_def] callbacks_inv_def sample_passing_libs_def)
qed

definition sample_garbage :: ready where
  "sample_garbage = sample_ready\<lparr>ry_snapshot :=
     \<lparr>sn_data = [1], sn_metadata = Some \<lparr>md_conf_state = None, md_index = 9, md_term = 2\<rparr>\<rparr>\<rparr>"

theorem loop_ends_only_by_its_inputs_witness:
  "(\<exists>s'. driver_run (sample_raft_libs (\<lambda>_. [])) (local_send sample_chan)
      [(InCommand (Rpc (RpcPut ''k'' ''v'' 7)), False), (InTimeout, True), (InMessageClosed, False),
       (InShutdown, False)]
      (sample_loop sample_raw_leader (Disk sample_fresh) []) = (Err MessageChannelClosed, s')) \<and>
   (\<exists>s'. driver_run sample_passing_libs (local_send sample_chan)
      [(InMessage (sample_message 1 2), False), (InTimeout, True), (InShutdown, False)]
      (sample_loop (sample_raw_leader\<lparr>sr_ready := Some sample_garbage\<rparr>) (Disk sample_fresh) []) =
        (Err (restore_error (DecodeError ''unexpected end'')), s') \<and>
      app_inv sample_passing_libs map_of map_of s')"
proof
  let ?L = "sample_raft_libs (\<lambda>_. [])"
  have "\<not> fails_at ?L tsend ins s q" for tsend ins s q
    by (simp add: fails_at_def crate_ok_no_failure [OF sample_crate_ok])
  then show "\<exists>s'. driver_run ?L (local_send sample_chan)
      [(InCommand (Rpc (RpcPut ''k'' ''v'' 7)), False), (InTimeout, True), (InMessageClosed, False),
       (InShutdown, False)]
      (sample_loop sample_raw_leader (Disk sample_fresh) []) = (Err MessageChannelClosed, s')"
    using loop_ends_only_by_its_inputs [OF sample_apply_ok sample_raft_prost sample_returns
        sample_loop_inv [where w = sample_raw_leader and p = "[]" and img = "\<lambda>_. []"],
        where d = sample_fresh and ins = "[(InCommand (Rpc (RpcPut ''k'' ''v'' 7)), False), (InTimeout, True),
          (InMessageClosed, False), (InShutdown, False)]"]
    by (auto simp: sample_loop_def)
  let ?s = "sample_loop (sample_raw_leader\<lparr>sr_ready := Some sample_garbage\<rparr>) (Disk sample_fresh) []"
  let ?ins = "[(InMessage (sample_message 1 2), False), (InTimeout, True), (InShutdown, False)]"
  have "turn_failure sample_passing_libs (InMessage (sample_message 1 2), False) ?s =
      Some (Err (restore_error (DecodeError ''unexpected end'')))"
    by (simp add: turn_failure_def tick_if_def handle_raft_message_def bindO_def on_node_def on_raw_def
        next_ready_def unreadable_snapshot_def bincode_codec_decode_def sample_passing_libs_def
        sample_garbage_def sample_loop_def sample_node_def sample_raft_defs sample_store_libs_def
        sample_disk_libs_def sample_kv_libs_def sample_map_decode_def get_metadata_def)
  then have "fails_at sample_passing_libs (local_send sample_chan) ?ins ?s
      (Err (restore_error (DecodeError ''unexpected end'')))"
    unfolding fails_at_def
    by (intro exI [of _ "[]"] exI [of _ "(InMessage (sample_message 1 2), False)"]
        exI [of _ "[(InTimeout, True), (InShutdown, False)]"] exI [of _ ?s]) simp
  then show "\<exists>s'. driver_run sample_passing_libs (local_send sample_chan) ?ins ?s =
        (Err (restore_error (DecodeError ''unexpected end'')), s') \<and>
      app_inv sample_passing_libs map_of map_of s'"
    using loop_ends_only_by_its_inputs [OF sample_passing_ok(1,2) sample_returns sample_passing_ok(3),
        where d = sample_fresh and ins = ?ins and w1 = "sample_raw_leader\<lparr>sr_ready := Some sample_garbage\<rparr>"
          and p1 = "[]"]
    by (auto simp: sample_loop_def simp del: driver_run.simps)
qed

text \<open>
  C4. A PUT from end to end on a leader: once the crate has taken the proposal and hands
  back its entry as committed (same data, same context), at whatever index and term,
  applying it answers the caller who made it with \<open>Ok\<close>, once, stores the value, leaves
  every other caller waiting, tells the TUI, and a GET then reads the value.
\<close>

theorem put_end_to_end:
  assumes "prost_ok L" and "inj (uuid_v4 L)" and "apply_ok L V D" and "crate_ok L"
    and "app_inv L V D s" and "is_leader L (raft_node_of s)"
    and "\<forall>c b. prost_encode L c = Ok b \<and> cmd c \<noteq> None \<longrightarrow> b \<noteq> []"
  shows "\<exists>ctx data s1. handle L (Rpc (RpcPut key val resp)) s = (Ok (), s1) \<and> app_inv L V D s1 \<and>
    (\<exists>q. raw_propose L (raft_store (raft_node_of s)) ctx data (raw (raft_node_of s)) =
      (q, raw (raft_node_of s1))) \<and>
    (\<forall>e. e_type e = EntryNormal \<and> e_data e = data \<and> e_context e = ctx \<longrightarrow>
       (\<exists>s2 s3. apply_entries L [e] s1 = (Ok (), s2) \<and>
          replies s2 = replies s @ [PutReply resp (Ok ())] \<and>
          kv_abs (kv_node s2) = (kv_abs (kv_node s))(key \<mapsto> val) \<and>
          callbacks (raft_node_of s2) = callbacks (raft_node_of s) \<and>
          handle L (Rpc (RpcGet key resp2)) s2 = (Ok (), s3) \<and>
          replies s3 = replies s2 @ [GetReply resp2 (Some val)]))"
proof -
  let ?n = "raft_node_of s"
  let ?ctx = "uuid_v4 L (uuids ?n)"
  have cb: "callbacks_inv L ?n" using assms(5) by (simp add: app_inv_def)
  have free: "callbacks ?n ?ctx = None" by (rule callbacks_inv_fresh [OF assms(2) cb])
  obtain data where d: "encode_put_command L key val = (Ok data :: (bytes, raft_error) result)"
    "prost_decode L data = Ok \<lparr>cmd = Some (CmdPut key val)\<rparr>"
    "propose_command L key val (Some resp) ?n =
      (case raw_propose L (raft_store ?n) ?ctx data (raw ?n) of
         (r, w) \<Rightarrow> (r, ?n\<lparr>raw := w, uuids := Suc (uuids ?n),
           callbacks := (case Some resp of Some c \<Rightarrow> (callbacks ?n)(?ctx \<mapsto> c) | None \<Rightarrow> callbacks ?n)\<rparr>))"
    using propose_leader [OF assms(1,6)] by blast
  have ne: "data \<noteq> []"
    using d(1) assms(7) [rule_format, of "\<lparr>cmd = Some (CmdPut key val)\<rparr>" data]
    by (cases "prost_encode L \<lparr>cmd = Some (CmdPut key val)\<rparr>")
      (simp_all add: encode_put_command_def codec_encode_def)
  obtain q w where q: "raw_propose L (raft_store ?n) ?ctx data (raw ?n) = (q, w)" by fastforce
  let ?s1 = "s\<lparr>raft_node_of := ?n\<lparr>raw := w, uuids := Suc (uuids ?n),
    callbacks := (callbacks ?n)(?ctx \<mapsto> resp)\<rparr>\<rparr>"
  have on: "on_node (propose_command L key val (Some resp)) s = (q, ?s1)"
    using d(3) q by (simp add: on_node_def)
  then obtain r where h: "handle L (Rpc (RpcPut key val resp)) s = (r, ?s1)"
    using assms(6) by (cases q) simp_all
  have h1: "handle L (Rpc (RpcPut key val resp)) s = (Ok (), ?s1)"
    using handle_no_panic [OF assms(1,4) h] h by simp
  have inv1: "app_inv L V D ?s1"
    using handle_untouched [OF h] assms(5) by (simp add: untouched_def app_inv_def)
  have "\<exists>s2 s3. apply_entries L [e] ?s1 = (Ok (), s2) \<and>
      replies s2 = replies s @ [PutReply resp (Ok ())] \<and>
      kv_abs (kv_node s2) = (kv_abs (kv_node s))(key \<mapsto> val) \<and>
      callbacks (raft_node_of s2) = callbacks ?n \<and>
      handle L (Rpc (RpcGet key resp2)) s2 = (Ok (), s3) \<and>
      replies s3 = replies s2 @ [GetReply resp2 (Some val)]"
    if e: "e_type e = EntryNormal" "e_data e = data" "e_context e = ?ctx" for e :: entry
  proof -
    have eff: "entry_effect L e \<sigma> = \<sigma>(key \<mapsto> val)" "entry_answer L e = Some (Ok ())" for \<sigma>
      by (simp_all add: entry_effect_def entry_answer_def e ne d(2))
    obtain s2 where s2: "apply_entries L [e] ?s1 = (Ok (), s2)"
      "kv_abs (kv_node s2) = fold (entry_effect L) [e] (kv_abs (kv_node ?s1))"
      "replies s2 = replies ?s1 @ batch_replies L (callbacks (raft_node_of ?s1)) [e]"
      "callbacks (raft_node_of s2) = fold (answered L) [e] (callbacks (raft_node_of ?s1))"
      using apply_entries_ok [OF assms(3) inv1, of "[e]"] by blast
    have kv: "kv_abs (kv_node s2) = (kv_abs (kv_node s))(key \<mapsto> val)"
      using s2(2) by (simp add: eff)
    moreover have "replies s2 = replies s @ [PutReply resp (Ok ())]"
      using s2(3) by (simp add: entry_replies_def eff e(3))
    moreover have "callbacks (raft_node_of s2) = callbacks ?n"
      using s2(4) free by (auto simp: answered_def eff e(3))
    moreover have "bt_get (get_internal_map (kv_node s2)) key = Some val"
      using kv by (simp add: kv_abs_def get_internal_map_def)
    ultimately show ?thesis
      using s2(1) by (intro exI [of _ s2] exI [of _ "send_reply (GetReply resp2 (Some val)) s2"])
        (simp add: send_reply_def)
  qed
  with h1 inv1 q show ?thesis
    by (intro exI [of _ ?s1] exI [where x = data] exI [where x = ?ctx]) auto
qed

theorem put_end_to_end_witness:
  "\<exists>ctx data s1. handle (sample_raft_libs (\<lambda>_. [])) (Rpc (RpcPut ''k'' ''v'' 7))
       (sample_app sample_raw_leader Map.empty) = (Ok (), s1) \<and>
     (\<exists>s2. apply_entries (sample_raft_libs (\<lambda>_. [])) [\<lparr>e_type = EntryNormal, e_term = 3, e_index = 9,
         e_data = data, e_context = ctx\<rparr>] s1 = (Ok (), s2) \<and>
       replies s2 = [PutReply 7 (Ok ())] \<and> kv_abs (kv_node s2) = [''k'' \<mapsto> ''v''])"
proof -
  let ?L = "sample_raft_libs (\<lambda>_. [])" and ?s = "sample_app sample_raw_leader Map.empty"
  have lead: "is_leader ?L (raft_node_of ?s)"
    by (simp add: is_leader_def sample_raft_defs sample_app_def sample_node_def sample_raw_leader_def)
  have ne: "\<forall>c b. prost_encode ?L c = Ok b \<and> cmd c \<noteq> None \<longrightarrow> b \<noteq> []"
    by (auto simp: sample_raft_defs sample_store_libs_def sample_disk_libs_def sample_kv_libs_def
        sample_cmd_encode_def simp del: flat_enc.simps)
  have s: "replies ?s = []" "kv_abs (kv_node ?s) = Map.empty"
    by (simp_all add: sample_app_def)
  obtain ctx data s1 where h: "handle ?L (Rpc (RpcPut ''k'' ''v'' 7)) ?s = (Ok (), s1)"
    and all: "\<forall>e :: entry. e_type e = EntryNormal \<and> e_data e = data \<and> e_context e = ctx \<longrightarrow>
       (\<exists>s2 s3. apply_entries ?L [e] s1 = (Ok (), s2) \<and>
          replies s2 = replies ?s @ [PutReply 7 (Ok ())] \<and>
          kv_abs (kv_node s2) = (kv_abs (kv_node ?s))(''k'' \<mapsto> ''v'') \<and>
          callbacks (raft_node_of s2) = callbacks (raft_node_of ?s) \<and>
          handle ?L (Rpc (RpcGet ''k'' 8)) s2 = (Ok (), s3) \<and>
          replies s3 = replies s2 @ [GetReply 8 (Some ''v'')])"
    using put_end_to_end [OF sample_raft_prost sample_raft_uuid sample_apply_ok sample_crate_ok
        sample_app_inv lead ne, of "''k''" "''v''" 7 8] by auto
  let ?e = "\<lparr>e_type = EntryNormal, e_term = 3, e_index = 9, e_data = data, e_context = ctx\<rparr>"
  obtain s2 where "apply_entries ?L [?e] s1 = (Ok (), s2)" "replies s2 = [PutReply 7 (Ok ())]"
    "kv_abs (kv_node s2) = [''k'' \<mapsto> ''v'']"
    using all [rule_format, of ?e] unfolding s by (simp del: apply_entries.simps handle.simps) blast
  with h show ?thesis by blast
qed



end
