(* ===== verification/Cluster_Safety.thy ===== *)
theory Cluster_Safety
  imports Driver_Safety
begin

text \<open>
  Several nodes, each running the driver of \<^verbatim>\<open>crates/raft-core/src/raft_loop.rs\<close>, joined by a
  network: turns of the nodes interleave in any order, a message is received only if some
  node has sent it to the receiver (any number of times, in any order, or never), and a
  node may stop at any moment and start again on what its disk holds.

  Consensus itself is the raft crate's. What the development relies on is stated as
  \<open>hands_out\<close>: \<open>handed w\<close> is the list of the entries the consensus state \<open>w\<close> has given out as
  committed since its node started. A snapshot stands for entries handed out: when it can be
  decoded, its map is what they make of the empty map; whether it can is left open.
\<close>

section \<open>What the crate hands out\<close>

definition hands_out ::
    "('t, 'm, 'r, 'z) raft_libs_scheme \<Rightarrow> ('r \<Rightarrow> entry list) \<Rightarrow> bool" where
  "hands_out L handed \<longleftrightarrow>
     (\<forall>st w rd w'. raw_ready L st w = (rd, w') \<longrightarrow>
        (if snapshot_is_empty L (ry_snapshot rd)
         then handed w' = handed w @ ry_committed_entries rd
         else \<exists>xs. handed w' = xs @ ry_committed_entries rd \<and>
                (\<forall>m. bincode_codec_decode L (sn_data (ry_snapshot rd)) = Ok m \<longrightarrow>
                   bt_get m = fold (entry_effect L) xs Map.empty))) \<and>
     (\<forall>st rd w light w'. raw_advance L st rd w = (light, w') \<longrightarrow>
        handed w' = handed w @ lr_committed_entries light) \<and>
     (\<forall>st c d w. handed (snd (raw_propose L st c d w)) = handed w) \<and>
     (\<forall>st w. handed (snd (raw_campaign L st w)) = handed w) \<and>
     (\<forall>st m w. handed (snd (raw_step L st m w)) = handed w) \<and>
     (\<forall>st w. handed (raw_tick L st w) = handed w) \<and>
     (\<forall>st cc w. handed (snd (raw_apply_conf_change L st cc w)) = handed w) \<and>
     (\<forall>c d w. raw_new L c (Disk d) = Ok w \<longrightarrow> disk_first_index L d = Ok 1 \<longrightarrow> handed w = [])"

abbreviation handed_at ::
    "('r \<Rightarrow> entry list) \<Rightarrow> ('t, 'm, 'r, 'y) app_state_scheme \<Rightarrow> entry list" where
  "handed_at handed s \<equiv> handed (raw (raft_node_of s))"

lemma handed_on_raw:
  assumes "\<And>st w. handed (snd (f st w)) = handed w"
  shows "keeps (\<lambda>s. handed_at handed s = h) (on_node (on_raw f))"
  by (rule keepsI) (use assms in \<open>auto simp: on_node_def on_raw_def split: prod.splits\<close>, metis snd_conv)

lemma handed_storage_op: "keeps (\<lambda>s. handed_at handed s = h) (storage_op f)"
  by (rule keepsI) (auto simp: storage_op_def split: prod.splits)

lemma handed_apply_normal: "keeps (\<lambda>s. handed_at handed s = h) (apply_normal_entry L e)"
  by (rule keepsI)
    (auto simp: apply_normal_entry_def frame_simps split: prod.splits result.splits
      dest: keepsD [OF handed_storage_op, rotated])

lemma handed_apply_decoded:
  assumes "hands_out L handed"
  shows "keeps (\<lambda>s. handed_at handed s = h) (apply_decoded_conf_change L cc e)"
proof (rule keepsI)
  fix s r s'
  assume s: "handed_at handed s = h" and r: "apply_decoded_conf_change L cc e s = (r, s')"
  obtain q t where t: "on_node (on_raw (\<lambda>st. raw_apply_conf_change L st cc)) s = (q, t)" by fastforce
  have keep: "keeps (\<lambda>s. handed_at handed s = h) (on_node (on_raw (\<lambda>st. raw_apply_conf_change L st cc)))"
    by (rule handed_on_raw) (use assms in \<open>simp add: hands_out_def\<close>)
  have "handed_at handed t = h" by (rule keepsD [OF keep s t])
  moreover have "keeps (\<lambda>s. handed_at handed s = h) (bindO (storage_op (storage_set_conf_state L cs))
      (\<lambda>_. storage_op (storage_set_applied_index L (e_index e))))" for cs
    by (intro keeps_bindO handed_storage_op)
  ultimately show "handed_at handed s' = h"
    using r t by (cases q) (auto simp: apply_decoded_conf_change_def dest: keepsD)
qed

lemma handed_apply_entries:
  assumes "hands_out L handed"
  shows "keeps (\<lambda>s. handed_at handed s = h) (apply_entries L es)"
proof (induction es)
  case Nil
  show ?case unfolding apply_entries.simps by (rule keeps_retO)
next
  case (Cons e es)
  have "keeps (\<lambda>s. handed_at handed s = h) (apply_conf_change L e)"
    "keeps (\<lambda>s. handed_at handed s = h) (apply_conf_change_v2 L e)"
    by (rule keepsI; auto simp: apply_conf_change_def apply_conf_change_v2_def
        dest: keepsD [OF handed_apply_decoded [OF assms], rotated] split: result.splits)+
  then have "keeps (\<lambda>s. handed_at handed s = h) (apply_entry L e)"
    by (auto simp: apply_entry_def handed_apply_normal split: entry_type.split)
  with Cons.IH show ?case unfolding apply_entries.simps by (intro keeps_bindO)
qed

section \<open>A turn of one node\<close>

text \<open>
  What holds of a node at all times: it is well formed, and its key-value map is what the
  entries handed out make of the empty map.
\<close>

definition replica_inv ::
    "('t, 'm, 'r, 'z) raft_libs_scheme \<Rightarrow> ('t \<Rightarrow> bytes \<rightharpoonup> bytes) \<Rightarrow> ('t \<Rightarrow> bytes \<rightharpoonup> bytes) \<Rightarrow>
     ('r \<Rightarrow> entry list) \<Rightarrow> ('t, 'm, 'r, 'x) loop_state \<Rightarrow> bool" where
  "replica_inv L V D handed s \<longleftrightarrow>
     loop_inv L V D s \<and>
     kv_abs (kv_node s) = fold (entry_effect L) (handed_at handed s) Map.empty"

lemma apply_batch_replica:
  fixes s :: "('t, 'm, 'r, 'x) loop_state"
  assumes "apply_ok L V D" and "hands_out L handed" and "app_inv L V D s"
  shows "\<exists>s'. (if es = [] then retO () else apply_entries L es) s = (Ok (), s') \<and> app_inv L V D s' \<and>
    kv_abs (kv_node s') = fold (entry_effect L) es (kv_abs (kv_node s)) \<and>
    handed_at handed s' = handed_at handed s"
proof -
  obtain s' where s': "(if es = [] then retO () else apply_entries L es) s = (Ok (), s')"
    "app_inv L V D s'" "kv_abs (kv_node s') = fold (entry_effect L) es (kv_abs (kv_node s))"
    using kv_loop.apply_if_any [OF assms(1,3)] by blast
  moreover have "keeps (\<lambda>t. handed_at handed t = handed_at handed s)
      (if es = [] then retO () else apply_entries L es)"
    by (intro keeps_if keeps_retO handed_apply_entries [OF assms(2)])
  ultimately show ?thesis by (blast dest: keepsD)
qed

lemma finish_ready_replica:
  assumes L: "apply_ok L V D" and H: "hands_out L handed" and s: "app_inv L V D s"
    and ret: "returns tsend"
    and kv: "kv_abs (kv_node s) = fold (entry_effect L) xs Map.empty"
    and h: "handed_at handed s = xs @ ry_committed_entries rd"
    and run: "finish_ready L tsend (apply_entries L) rd s = (Ok (), s')"
  shows "kv_abs (kv_node s') = fold (entry_effect L) (handed_at handed s') Map.empty \<and>
    (\<exists>st x w. handed_at handed s' =
       handed_at handed s @ lr_committed_entries (fst (raw_advance L st x w)))"
proof -
  let ?rd = "rd\<lparr>ry_messages := [], ry_persisted_messages := [], ry_committed_entries := []\<rparr>"
  let ?s1 = "s\<lparr>loop_transport := after_sending tsend (ry_persisted_messages rd) (loop_transport s)\<rparr>"
  have "app_inv L V D ?s1" using s by (simp add: app_stable)
  from apply_batch_replica [OF L H this, of "ry_committed_entries rd"] obtain s2 where
    s2: "(if ry_committed_entries rd = [] then retO () else apply_entries L (ry_committed_entries rd)) ?s1 =
      (Ok (), s2)" "app_inv L V D s2"
    "kv_abs (kv_node s2) = fold (entry_effect L) (ry_committed_entries rd) (kv_abs (kv_node s))"
    "handed_at handed s2 = handed_at handed s" by auto
  let ?s3 = "update_tui_state L s2"
  obtain light w where adv: "raw_advance L (raft_store (raft_node_of s2)) ?rd (raw (raft_node_of s2)) =
      (light, w)" by fastforce
  then have w: "handed w = handed_at handed s @ lr_committed_entries light"
    using H s2(4) unfolding hands_out_def by metis
  let ?s5 = "?s3\<lparr>raft_node_of := (raft_node_of ?s3)\<lparr>raw := w\<rparr>,
    loop_transport := after_sending tsend (lr_messages light) (loop_transport ?s3)\<rparr>"
  have "app_inv L V D ?s5" using s2(2) by (simp add: app_stable)
  from apply_batch_replica [OF L H this, of "lr_committed_entries light"] obtain s6 where
    s6: "(if lr_committed_entries light = [] then retO () else apply_entries L (lr_committed_entries light)) ?s5 =
      (Ok (), s6)"
    "kv_abs (kv_node s6) = fold (entry_effect L) (lr_committed_entries light) (kv_abs (kv_node s2))"
    "handed_at handed s6 = handed w" by (auto simp: update_tui_state_frame)
  have "finish_ready L tsend (apply_entries L) rd s = (Ok (), s6)"
    using s2(1) s6(1)
    by (simp add: finish_ready_def bindO_def advance_ready_def adv send_batch_returns [OF ret]
        update_tui_state_frame split: if_splits)
  with run have "s' = s6" by simp
  moreover from w adv have "\<exists>st x v. handed w =
      handed_at handed s @ lr_committed_entries (fst (raw_advance L st x v))" by (metis fst_conv)
  ultimately show ?thesis by (simp add: s6(2,3) w s2(3) h kv)
qed

text \<open>What a node sends in a turn goes through the transport, message by message.\<close>

definition sends_only ::
    "(u64 \<Rightarrow> message \<Rightarrow> ('x, unit, transport_error) op) \<Rightarrow>
     ('t, 'm, 'r, 'x) loop_state \<Rightarrow> ('t, 'm, 'r, 'x) loop_state \<Rightarrow> bool" where
  "sends_only tsend s s' \<longleftrightarrow> (\<exists>ms. loop_transport s' = after_sending tsend ms (loop_transport s))"

lemma sends_nothing: "loop_transport s' = loop_transport s \<Longrightarrow> sends_only tsend s s'"
  unfolding sends_only_def by (rule exI [of _ "[]"]) (simp add: after_sending_def)

text \<open>The map after the snapshot of a \<open>Ready\<close> is what was handed out before its entries.\<close>

lemma restored_replica:
  assumes H: "hands_out L handed" and rd: "raw_ready L st w0 = (rd, w)" and snap: "snapshot_readable L rd"
    and kv: "\<sigma> = fold (entry_effect L) (handed w0) Map.empty"
  obtains xs where "handed w = xs @ ry_committed_entries rd"
    "restored_kv L rd \<sigma> = fold (entry_effect L) xs Map.empty"
proof (cases "snapshot_is_empty L (ry_snapshot rd)")
  case True
  then have "handed w = handed w0 @ ry_committed_entries rd"
    using H rd unfolding hands_out_def by metis
  with True kv that show ?thesis by (auto simp: restored_kv_def)
next
  case False
  then obtain xs where "handed w = xs @ ry_committed_entries rd"
    "\<forall>m. bincode_codec_decode L (sn_data (ry_snapshot rd)) = Ok m \<longrightarrow>
       bt_get m = fold (entry_effect L) xs Map.empty"
    using H rd unfolding hands_out_def by metis
  moreover obtain m where "bincode_codec_decode L (sn_data (ry_snapshot rd)) = Ok m"
    using snap False by (auto simp: snapshot_readable_def is_ok_iff)
  ultimately show ?thesis using False that by (auto simp: restored_kv_def)
qed

lemma process_ready_replica:
  assumes L: "apply_ok L V D" and H: "hands_out L handed"
    and ret: "returns tsend" and s: "replica_inv L V D handed s"
    and run: "driver_process_ready L tsend s = (r, s')"
  shows "sends_only tsend s s' \<and>
    (r = Ok () \<longrightarrow> replica_inv L V D handed s' \<and>
      (\<exists>st x w. handed_at handed s' = handed (snd (raw_ready L (raft_store (raft_node_of s)) (raw (raft_node_of s)))) @
         lr_committed_entries (fst (raw_advance L st x w))))"
proof -
  have loop: "loop_inv L V D s" and kv: "kv_abs (kv_node s) = fold (entry_effect L) (handed_at handed s) Map.empty"
    using s by (auto simp: replica_inv_def)
  obtain d where d: "raft_store (raft_node_of s) = Disk d" and inv: "app_inv L V D s"
    using loop by (auto simp: loop_inv_def)
  obtain rd w where rd: "raw_ready L (Disk d) (raw (raft_node_of s)) = (rd, w)" by fastforce
  show ?thesis
  proof (cases "unreadable_snapshot L rd")
    case (Some e)
    from process_ready_unreadable [OF L inv d ret rd Some] run have
      "r = Err (restore_error e)" "loop_transport s' = after_sending tsend (ry_messages rd) (loop_transport s)"
      by (auto simp: driver_process_ready_def)
    then show ?thesis by (auto simp: sends_only_def)
  next
    case None
    then have snap: "snapshot_readable L rd" by (simp add: unreadable_snapshot_None [OF L])
    from process_ready_outcome [OF L ret loop] run None have r: "r = Ok ()" and loop': "loop_inv L V D s'"
      by (auto simp: next_ready_def d rd)
    from process_ready_stages [OF L inv d ret rd snap] obtain s2 where
      s2: "app_inv L V D s2" "raw (raft_node_of s2) = w"
      "loop_transport s2 = after_sending tsend (ry_messages rd) (loop_transport s)"
      "kv_abs (kv_node s2) = restored_kv L rd (kv_abs (kv_node s))"
      "process_ready L tsend (apply_entries L) (restore_snapshot L) s =
         finish_ready L tsend (apply_entries L) rd s2" by metis
    have fin: "finish_ready L tsend (apply_entries L) rd s2 = (Ok (), s')"
      using run r s2(5) by (simp add: driver_process_ready_def)
    obtain xs where xs: "handed w = xs @ ry_committed_entries rd"
      "restored_kv L rd (kv_abs (kv_node s)) = fold (entry_effect L) xs Map.empty"
      by (rule restored_replica [OF H rd snap kv])
    have "kv_abs (kv_node s') = fold (entry_effect L) (handed_at handed s') Map.empty \<and>
        (\<exists>st x v. handed_at handed s' =
           handed_at handed s2 @ lr_committed_entries (fst (raw_advance L st x v)))"
      by (rule finish_ready_replica [OF L H s2(1) ret _ _ fin, where xs = xs]) (simp_all add: s2(2,4) xs)
    moreover obtain light :: light_ready where "loop_transport s' =
        after_sending tsend (ry_persisted_messages rd @ lr_messages light) (loop_transport s2)"
      using kv_loop.finish_ready_ok [OF L s2(1) ret, of rd] fin by auto
    then have "sends_only tsend s s'"
      unfolding sends_only_def s2(3) after_sending_append [OF ret, symmetric] by blast
    ultimately show ?thesis using loop' by (simp add: replica_inv_def s2(2) d rd)
  qed
qed

lemma propose_handed:
  assumes H: "hands_out L handed" and "propose_command L k v cb n = (r, n')"
  shows "handed (raw n') = handed (raw n)"
proof -
  have keep: "handed (raw (snd (on_raw (\<lambda>st. raw_propose L st c d) m))) = handed (raw m)" for c d m
    using H by (simp add: hands_out_def on_raw_def split: prod.split) (metis snd_conv)
  have "n' = snd (propose_command L k v cb n)" using assms(2) by simp
  then show ?thesis
    by (cases cb; cases "encode_put_command L k v :: (bytes, raft_error) result")
      (simp_all add: propose_command_def Let_def keep)
qed

lemma handle_handed:
  assumes H: "hands_out L handed" and r: "handle L c s = (r, s')"
  shows "handed_at handed s' = handed_at handed s"
proof -
  have proposed: "handed_at handed t = handed_at handed s"
    if "on_node (propose_command L k v cb) s = (q, t)" for k v cb q t
    using on_node_propose(7) [OF that] by (rule propose_handed [OF H])
  have camp: "handed_at handed t = handed_at handed s"
    if "on_node (on_raw (raw_campaign L)) s = (q, t)" for q t
    using that by (rule keepsD [OF handed_on_raw, rotated -1]) (use H in \<open>simp_all add: hands_out_def\<close>)
  show ?thesis
  proof (cases c)
    case (Rpc p)
    with r show ?thesis
      by (cases p)
        (auto simp: Let_def frame_simps split: if_splits prod.splits result.splits dest: proposed)
  next
    case (User u)
    with r show ?thesis
      by (cases u)
        (auto simp: Let_def frame_simps split: prod.splits result.splits raft_error.splits dest: proposed camp)
  qed
qed

lemma receive_input_replica:
  assumes P: "prost_ok L" and H: "hands_out L handed"
    and s: "replica_inv L V D handed s" and t: "receive_input L inp s = (q, t)"
  shows "replica_inv L V D handed t \<and> loop_transport t = loop_transport s"
proof -
  have loop: "loop_inv L V D s" using s by (simp add: replica_inv_def)
  have "loop_inv L V D t" using receive_input_outcome [OF P loop, of inp] t by auto
  moreover have "kv_node t = kv_node s \<and> handed_at handed t = handed_at handed s \<and>
      loop_transport t = loop_transport s"
  proof (cases inp)
    case (InCommand c)
    obtain x u where u: "handle L c s = (x, u)" by fastforce
    with t have "t = u" by (cases x) (simp_all add: InCommand bindO_def)
    with handle_untouched [OF u] handle_handed [OF H u] show ?thesis
      by (simp add: untouched_def loop_rest_eq)
  next
    case (InMessage m)
    obtain x u where u: "on_node (on_raw (\<lambda>st. raw_step L st m)) s = (x, u)" by fastforce
    with t have "t = u" by (cases x) (simp_all add: InMessage bindO_def handle_raft_message_def)
    moreover have "handed_at handed u = handed_at handed s"
      using u by (rule keepsD [OF handed_on_raw, rotated -1]) (use H in \<open>simp_all add: hands_out_def\<close>)
    ultimately show ?thesis
      using u by (auto simp: on_node_def on_raw_def split: prod.splits)
  qed (use t in auto)
  ultimately show ?thesis using s by (simp add: replica_inv_def)
qed

text \<open>A node sends through the transport however its turn ends; one that goes on is a replica.\<close>

lemma loop_turn_replica:
  assumes L: "apply_ok L V D" and P: "prost_ok L" and H: "hands_out L handed"
    and ret: "returns tsend" and s: "replica_inv L V D handed s"
    and run: "loop_turn L tsend i s = (r, s')"
  shows "sends_only tsend s s' \<and> (r = Ok Continue \<longrightarrow> replica_inv L V D handed s')"
proof -
  obtain inp due where i: "i = (inp, due)" by fastforce
  obtain q t where t: "receive_input L inp s = (q, t)" by fastforce
  from receive_input_replica [OF P H s t] have
    inv: "replica_inv L V D handed t" and tr: "loop_transport t = loop_transport s" by auto
  let ?u = "snd (tick_if L due t)"
  have u: "replica_inv L V D handed ?u" "loop_transport ?u = loop_transport t"
    using inv H by (simp_all add: tick_if_def replica_inv_def loop_inv_def app_stable hands_out_def)
  show ?thesis
  proof (cases "q = Ok Continue")
    case False
    with run t have "s' = t"
      by (cases q; cases "q = Ok Stop") (auto simp: i loop_turn_eq after_input_def split: loop_control.splits)
    with inv tr show ?thesis by (auto intro: sends_nothing)
  next
    case True
    with run t have after: "after_input L tsend due Continue t = (r, s')"
      by (simp add: i loop_turn_eq)
    show ?thesis
    proof (cases "raw_has_ready L (raft_store (raft_node_of ?u)) (raw (raft_node_of ?u))")
      case False
      with after have "s' = ?u" by (simp add: after_input_def bindO_def tick_if_def)
      with u tr show ?thesis by (auto intro: sends_nothing)
    next
      case True
      obtain x v where v: "driver_process_ready L tsend ?u = (x, v)" by fastforce
      from process_ready_replica [OF L H ret u(1) v] have
        x: "sends_only tsend ?u v" "x = Ok () \<Longrightarrow> replica_inv L V D handed v" by auto
      have "s' = v \<and> (r = Ok Continue \<longrightarrow> x = Ok ())"
        using True after v by (cases x) (auto simp: after_input_def bindO_def tick_if_def)
      with x u(2) tr show ?thesis by (simp add: sends_only_def)
    qed
  qed
qed

section \<open>The cluster\<close>

text \<open>
  A member is a driver that runs or does not. A node that is down starts, as \<open>spawn_raft_loop\<close>
  of \<^verbatim>\<open>crates/raft-server/src/main.rs\<close> does, on a well-formed store, with an empty map and with
  the transport as it was left, which stands for the messages still on their way. Its store
  is not tied to the one it had: that covers a crash in the middle of a turn, a disk that is
  replaced and a first start. Its log must begin at index 1: a log cut by a snapshot
  would need the map restored from the snapshot, which the program does not do. A crash may have sent some of the messages of the turn it broke off.
\<close>

record ('t, 'm, 'r, 'x) member =
  driver :: "('t, 'm, 'r, 'x) loop_state"
  running :: bool

type_synonym ('t, 'm, 'r, 'x) cluster = "u64 \<Rightarrow> ('t, 'm, 'r, 'x) member"

inductive cluster_step ::
    "('t, 'm, 'r, 'z) raft_libs_scheme \<Rightarrow> ('t \<Rightarrow> bytes \<rightharpoonup> bytes) \<Rightarrow> ('t \<Rightarrow> bytes \<rightharpoonup> bytes) \<Rightarrow>
     (u64 \<Rightarrow> message \<Rightarrow> ('x, unit, transport_error) op) \<Rightarrow> ('x \<Rightarrow> u64 \<Rightarrow> message list) \<Rightarrow>
     ('t, 'm, 'r, 'x) cluster \<Rightarrow> ('t, 'm, 'r, 'x) cluster \<Rightarrow> bool"
  for L V D tsend sent where
  turn: "running (S n) \<Longrightarrow>
    (\<And>m. inp = InMessage m \<Longrightarrow> \<exists>k. m \<in> set (sent (loop_transport (driver (S k))) n)) \<Longrightarrow>
    loop_turn L tsend (inp, due) (driver (S n)) = (r, s') \<Longrightarrow>
    cluster_step L V D tsend sent S (S(n := \<lparr>driver = s', running = (r = Ok Continue)\<rparr>))"
| crash: "x = after_sending tsend ms (loop_transport (driver (S n))) \<Longrightarrow>
    cluster_step L V D tsend sent S
      (S(n := \<lparr>driver = (driver (S n))\<lparr>loop_transport := x\<rparr>, running = False\<rparr>))"
| start: "\<not> running (S n) \<Longrightarrow> storage_inv L V D (Disk d) \<Longrightarrow>
    disk_first_index L d = Ok 1 \<Longrightarrow> raft_node_new L n peers (Disk d) = Ok nd \<Longrightarrow>
    cluster_step L V D tsend sent S
      (S(n := \<lparr>driver = driver_init nd node_new (loop_transport (driver (S n))), running = True\<rparr>))"

inductive cluster_reachable ::
    "('t, 'm, 'r, 'z) raft_libs_scheme \<Rightarrow> ('t \<Rightarrow> bytes \<rightharpoonup> bytes) \<Rightarrow> ('t \<Rightarrow> bytes \<rightharpoonup> bytes) \<Rightarrow>
     (u64 \<Rightarrow> message \<Rightarrow> ('x, unit, transport_error) op) \<Rightarrow> ('x \<Rightarrow> u64 \<Rightarrow> message list) \<Rightarrow>
     ('t, 'm, 'r, 'x) cluster \<Rightarrow> ('t, 'm, 'r, 'x) cluster \<Rightarrow> bool"
  for L V D tsend sent S0 where
  down: "cluster_reachable L V D tsend sent S0 S0"
| step: "cluster_reachable L V D tsend sent S0 S \<Longrightarrow> cluster_step L V D tsend sent S S' \<Longrightarrow>
    cluster_reachable L V D tsend sent S0 S'"

inductive_cases cluster_stepE: "cluster_step L V D tsend sent S S'"

text \<open>A started node has an empty map and an empty log behind it.\<close>

lemma started_replica:
  fixes x :: 'x
  assumes L: "apply_ok L V D" and H: "hands_out L handed"
    and d: "storage_inv L V D (Disk d)" "disk_first_index L d = Ok 1"
    and nd: "raft_node_new L n peers (Disk d) = Ok nd"
  shows "replica_inv L V D handed (driver_init nd node_new x)"
proof -
  obtain d' where d': "raw_new L (raft_node_config n) (Disk d') = Ok (raw nd)" "disk_first_index L d' = Ok 1"
    and inv: "loop_inv L V D (driver_init nd node_new x)"
    by (rule started_on_disk [OF L d(1) nd, where x = x]) (simp add: d(2))
  from H d' have "handed (raw nd) = []" unfolding hands_out_def by blast
  with inv show ?thesis by (simp add: replica_inv_def driver_init_def)
qed

lemma cluster_replicas:
  assumes "apply_ok L V D" and "prost_ok L" and "hands_out L handed"
    and "returns tsend" and "\<forall>n. \<not> running (S0 n)"
    and "cluster_reachable L V D tsend sent S0 S"
  shows "running (S i) \<Longrightarrow> replica_inv L V D handed (driver (S i))"
  using assms(6)
proof (induction arbitrary: i)
  case down
  with assms(5) show ?case by blast
next
  case (step S S')
  from step.hyps(2) show ?case
  proof cases
    case (turn n inp due r s')
    then show ?thesis
      using step loop_turn_replica [OF assms(1-4) _ turn(4)] by (cases "i = n") auto
  next
    case (crash x ms n)
    then show ?thesis using step by (cases "i = n") auto
  next
    case (start n d peers nd)
    then show ?thesis
      using step started_replica [OF assms(1,3) start(3-5)] by (cases "i = n") auto
  qed
qed

section \<open>Messages in the network\<close>

text \<open>Every message a node has given to the network bears its id and goes to its addressee.\<close>

definition stamped ::
    "('x \<Rightarrow> u64) \<Rightarrow> ('x \<Rightarrow> u64 \<Rightarrow> message list) \<Rightarrow> u64 \<Rightarrow> 'x \<Rightarrow> bool" where
  "stamped node_of sent n x \<longleftrightarrow>
     node_of x = n \<and> (\<forall>p. \<forall>m \<in> set (sent x p). m_from m = n \<and> m_to m = p)"

context transport begin

lemma after_sending_stamped:
  assumes "lib" and "stamped node sent n x"
  shows "stamped node sent n (after_sending tsend ms x)"
proof -
  obtain x' where x': "send_messages tsend ms x = (Ok (), x')" "node x' = node x"
    "\<forall>p. \<exists>ls. sent x' p = sent x p @ ls \<and>
       subseq ls (map (\<lambda>m. m\<lparr>m_from := node x\<rparr>) (filter (\<lambda>m. m_to m = p) ms))"
    using send_messages_sound [OF assms(1)] by blast
  have "m_from m = n \<and> m_to m = p" if m: "m \<in> set (sent x' p)" for p m
  proof -
    obtain ls where ls: "sent x' p = sent x p @ ls"
      "subseq ls (map (\<lambda>m. m\<lparr>m_from := node x\<rparr>) (filter (\<lambda>m. m_to m = p) ms))" using x'(3) by blast
    show ?thesis
    proof (cases "m \<in> set (sent x p)")
      case True
      with assms(2) show ?thesis by (simp add: stamped_def)
    next
      case False
      with m ls have "m \<in> set (map (\<lambda>m. m\<lparr>m_from := node x\<rparr>) (filter (\<lambda>m. m_to m = p) ms))"
        by (auto simp: subseq_conv_nths dest!: in_set_nthsD)
      with assms(2) show ?thesis by (auto simp: stamped_def)
    qed
  qed
  with x'(1,2) assms(2) show ?thesis by (simp add: stamped_def after_sending_def)
qed

lemma sends_only_stamped:
  "lib \<Longrightarrow> sends_only tsend s s' \<Longrightarrow> stamped node sent n (loop_transport s) \<Longrightarrow>
   stamped node sent n (loop_transport s')"
  by (auto simp: sends_only_def after_sending_stamped)

lemma cluster_stamped:
  assumes "lib" and "apply_ok L V D" and "prost_ok L" and "hands_out L handed"
    and "\<forall>n. \<not> running (S0 n)"
    and start: "\<forall>n. stamped node sent n (loop_transport (driver (S0 n)))"
    and "cluster_reachable L V D tsend sent S0 S"
  shows "stamped node sent i (loop_transport (driver (S i)))"
  using assms(7)
proof (induction arbitrary: i)
  case down
  with start show ?case by blast
next
  case (step S S')
  note ret = sending_returns [OF assms(1)]
  from step.hyps(2) show ?case
  proof cases
    case (turn n inp due r s')
    have "replica_inv L V D handed (driver (S n))"
      by (rule cluster_replicas [OF assms(2-4) ret assms(5) step.hyps(1) turn(2)])
    then have "sends_only tsend (driver (S n)) s'"
      using loop_turn_replica [OF assms(2-4) ret _ turn(4)] by blast
    with turn(1) step.IH sends_only_stamped [OF assms(1)] show ?thesis by (cases "i = n") auto
  next
    case (crash x ms n)
    with step.IH after_sending_stamped [OF assms(1)] show ?thesis by (cases "i = n") auto
  next
    case (start n d peers nd)
    with step.IH show ?thesis by (cases "i = n") (auto simp: driver_init_def)
  qed
qed

end

section \<open>Properties\<close>

text \<open>
  C1: agreement. Whatever the order of turns, losses, repetitions, crashes and restarts: when
  the entries handed out at one running node are a prefix of those handed out at another,
  as raft guarantees for one of the two orders, the map of the second is the map of the
  first with the remaining entries applied; nodes that got as far have equal maps; and
  every GET, at any node, is answered from the entries handed out there.
\<close>

theorem replicas_agree:
  assumes "apply_ok L V D" and "prost_ok L" and "hands_out L handed"
    and "returns tsend" and "\<forall>n. \<not> running (S0 n)"
    and "cluster_reachable L V D tsend sent S0 S" and "running (S i)" and "running (S j)"
    and "handed_at handed (driver (S j)) = handed_at handed (driver (S i)) @ later"
  shows "kv_abs (kv_node (driver (S j))) =
      fold (entry_effect L) later (kv_abs (kv_node (driver (S i)))) \<and>
    (later = [] \<longrightarrow> kv_node (driver (S j)) = kv_node (driver (S i))) \<and>
    (\<exists>s'. handle L (Rpc (RpcGet key resp)) (driver (S i)) = (Ok (), s') \<and>
       replies s' = replies (driver (S i)) @
         [GetReply resp (fold (entry_effect L) (handed_at handed (driver (S i))) Map.empty key)])"
proof -
  have inv: "replica_inv L V D handed (driver (S k))" if "running (S k)" for k
    by (rule cluster_replicas [OF assms(1-6) that])
  note i = inv [OF assms(7)] and j = inv [OF assms(8)]
  have eff: "kv_abs (kv_node (driver (S j))) =
      fold (entry_effect L) later (kv_abs (kv_node (driver (S i))))"
    using i j by (simp add: replica_inv_def assms(9))
  moreover have "kv_node (driver (S j)) = kv_node (driver (S i))" if "later = []"
    using eff i j that by (intro node_ext) (simp_all add: replica_inv_def loop_inv_def app_inv_def)
  moreover have "bt_get (get_internal_map (kv_node (driver (S i)))) key =
      fold (entry_effect L) (handed_at handed (driver (S i))) Map.empty key"
    using i by (simp add: replica_inv_def kv_abs_def get_internal_map_def)
  ultimately show ?thesis by (simp add: send_reply_def)
qed

section \<open>A sample cluster\<close>

text \<open>
  For the witnesses: a crate whose node 1 leads and commits at once what it is given; a
  message carries the data of an entry, which its receiver takes as committed.
\<close>

record sample_log =
  sl_leads :: bool
  sl_inbox :: "entry list"
  sl_outbox :: "message list"
  sl_handed :: "entry list"

definition sample_committed :: "bytes \<Rightarrow> bytes \<Rightarrow> sample_log \<Rightarrow> sample_log" where
  "sample_committed c d w = w\<lparr>sl_inbox := sl_inbox w @ [\<lparr>e_type = EntryNormal, e_term = 1,
     e_index = 1, e_data = d, e_context = c\<rparr>]\<rparr>"

definition sample_log_libs :: "(sample_tree, sample_mem, sample_log) raft_libs" where
  "sample_log_libs = store_libs.extend (sample_store_libs (\<lambda>_. [])) (raft_libs.fields
     (\<lambda>c. Ok ())
     (\<lambda>c st. Ok \<lparr>sl_leads = (cfg_id c = 1), sl_inbox = [], sl_outbox = [], sl_handed = []\<rparr>)
     (\<lambda>st c d w. (Ok (), sample_committed c d
        (w\<lparr>sl_outbox := sl_outbox w @ [(sample_message 2 1)\<lparr>m_rest := d\<rparr>]\<rparr>)))
     (\<lambda>st w. (Ok (), w))
     (\<lambda>st m w. (Ok (), sample_committed [] (m_rest m) w))
     (\<lambda>st w. w)
     (\<lambda>st w. sl_inbox w \<noteq> [])
     (\<lambda>st w. (sample_ready\<lparr>ry_messages := sl_outbox w, ry_committed_entries := sl_inbox w\<rparr>,
        w\<lparr>sl_inbox := [], sl_outbox := [], sl_handed := sl_handed w @ sl_inbox w\<rparr>))
     (\<lambda>st rd w. (sample_light, w))
     (\<lambda>st cc w. (Ok conf_state_default, w))
     (\<lambda>w. 1)
     (\<lambda>w. 1)
     (\<lambda>w. if sl_leads w then Leader else Follower)
     (\<lambda>w. 1)
     (\<lambda>w. 0)
     (\<lambda>w. 2)
     (\<lambda>b. Err ''no configuration change'')
     (\<lambda>b. Err ''no configuration change'')
     (\<lambda>sn. snap_index sn = 0)
     (\<lambda>e. ''raft error'')
     (\<lambda>i. replicate i 0))"

lemmas sample_log_defs = sample_log_libs_def raft_libs.defs store_libs.defs disk_libs.defs kv_libs.defs

lemma sample_log_hands_out: "hands_out sample_log_libs sl_handed"
  by (auto simp: hands_out_def sample_log_defs sample_ready_def sample_light_def sample_committed_def
      snapshot_default_def get_metadata_def snapshot_metadata_default_def)

lemma sample_log_readable: "unreadable_snapshot sample_log_libs (next_ready sample_log_libs s) = None"
  by (simp add: unreadable_snapshot_def next_ready_def sample_log_defs sample_ready_def
      snapshot_default_def get_metadata_def snapshot_metadata_default_def)

lemma sample_log_prost: "prost_ok sample_log_libs"
  using sample_prost_ok
  by (simp add: prost_ok_def sample_log_defs sample_store_libs_def sample_disk_libs_def)

lemma sample_log_apply: "apply_ok sample_log_libs map_of map_of"
proof -
  have "storage_ok sample_log_libs map_of map_of"
    by (simp add: sample_log_libs_def storage_ok_extend sample_storage_ok)
  moreover have "bincode_ok sample_log_libs"
    using sample_bincode_ok
    by (simp add: bincode_ok_def sample_log_defs sample_store_libs_def sample_disk_libs_def)
  moreover have "apply_total sample_log_libs"
    by (auto simp: apply_total_def sample_cmd_decode_def sample_log_defs
        sample_store_libs_def sample_disk_libs_def sample_kv_libs_def sample_map_decode_def bindR_eq_Panic
        split: option.split list.split)
  ultimately show ?thesis by (simp add: apply_ok_def)
qed

definition sample_net :: "u64 \<Rightarrow> message list tcp_transport" where
  "sample_net n = \<lparr>tt_node_id = n, tt_peer_senders = [(2, [])]\<rparr>"

definition sample_members :: "(sample_tree, sample_mem, sample_log, message list tcp_transport) cluster" where
  "sample_members n = \<lparr>driver = driver_init \<lparr>raw = \<lparr>sl_leads = False, sl_inbox = [], sl_outbox = [], sl_handed = []\<rparr>,
     raft_store = Disk sample_fresh, callbacks = Map.empty, uuids = 0\<rparr> node_new (sample_net n), running = False\<rparr>"

abbreviation "sample_reach \<equiv>
  cluster_reachable sample_log_libs map_of map_of (tcp_send sample_chan) (tcp_sent (\<lambda>c. c)) sample_members"

lemma sample_log_start:
  "\<exists>nd d. raft_node_new sample_log_libs n peers (Disk sample_fresh) = Ok nd \<and> raft_store nd = Disk d \<and>
     raw nd = \<lparr>sl_leads = (n = 1), sl_inbox = [], sl_outbox = [], sl_handed = []\<rparr> \<and>
     callbacks nd = Map.empty \<and> uuids nd = 0"
  "storage_inv sample_log_libs map_of map_of (Disk sample_fresh)"
  "disk_first_index sample_log_libs sample_fresh = Ok 1"
proof -
  have ok: "disk_ok sample_log_libs map_of map_of"
    using sample_log_apply by (simp add: apply_ok_def storage_ok_def)
  have inv: "disk_inv sample_log_libs map_of sample_fresh" "disk_durable map_of map_of sample_fresh"
    using sample_fresh_durable by (simp_all add: disk_inv_def disk_abs_def entries_inv_def sample_fresh_def)
  then show "storage_inv sample_log_libs map_of map_of (Disk sample_fresh)" by simp
  show "disk_first_index sample_log_libs sample_fresh = Ok 1"
    by (simp add: disk_first_index_abs [OF ok inv(1)])
      (simp add: spec_first_index_def disk_abs_def sample_fresh_def)
  obtain d where d: "disk_initialize sample_log_libs (conf_state_default\<lparr>voters := peers\<rparr>) sample_fresh = (Ok (), d)"
    using disk_initialize_ok [OF ok inv] by blast
  have sel: "config_validate sample_log_libs c = Ok ()"
    "raw_new sample_log_libs c st = Ok \<lparr>sl_leads = (cfg_id c = 1), sl_inbox = [], sl_outbox = [], sl_handed = []\<rparr>"
    for c st by (simp_all add: sample_log_defs)
  show "\<exists>nd d. raft_node_new sample_log_libs n peers (Disk sample_fresh) = Ok nd \<and> raft_store nd = Disk d \<and>
     raw nd = \<lparr>sl_leads = (n = 1), sl_inbox = [], sl_outbox = [], sl_handed = []\<rparr> \<and>
     callbacks nd = Map.empty \<and> uuids nd = 0"
    by (simp add: raft_node_new_def Let_def sel on_disk_def d) (simp add: raft_node_config_def)
qed

lemma sample_start_step:
  assumes "\<not> running (S n)" and "loop_transport (driver (S n)) = x"
    and "raft_node_new sample_log_libs n peers (Disk sample_fresh) = Ok nd"
  shows "cluster_step sample_log_libs map_of map_of tsend sent S
    (S(n := \<lparr>driver = driver_init nd node_new x, running = True\<rparr>))"
  using cluster_step.start [where S = S and n = n, OF assms(1) sample_log_start(2,3) assms(3)] assms(2)
  by simp

text \<open>Two nodes up, and a PUT taken by the first.\<close>

lemma sample_cluster_run:
  "\<exists>S. sample_reach S \<and> running (S 1) \<and> running (S 2) \<and>
     handed_at sl_handed (driver (S 2)) = [] \<and> kv_abs (kv_node (driver (S 2))) = Map.empty \<and>
     handed_at sl_handed (driver (S 1)) =
       [\<lparr>e_type = EntryNormal, e_term = 1, e_index = 1, e_data = flat_enc [''k'', ''v''], e_context = []\<rparr>]"
proof -
  let ?L = sample_log_libs
  obtain n1 d1 n2 d2 where n1: "raft_node_new ?L 1 [1, 2] (Disk sample_fresh) = Ok n1"
    "raw n1 = \<lparr>sl_leads = True, sl_inbox = [], sl_outbox = [], sl_handed = []\<rparr>" "uuids n1 = 0"
    and n2: "raft_node_new ?L 2 [1, 2] (Disk sample_fresh) = Ok n2"
    "raw n2 = \<lparr>sl_leads = False, sl_inbox = [], sl_outbox = [], sl_handed = []\<rparr>"
    using sample_log_start(1) [of 1 "[1, 2]"] sample_log_start(1) [of 2 "[1, 2]"] by auto
  let ?m1 = "driver_init n1 node_new (sample_net 1)" and ?m2 = "driver_init n2 node_new (sample_net 2)"
  let ?S1 = "sample_members(1 := \<lparr>driver = ?m1, running = True\<rparr>)"
  let ?S2 = "?S1(2 := \<lparr>driver = ?m2, running = True\<rparr>)"
  let ?step = "cluster_step ?L map_of map_of (tcp_send sample_chan) (tcp_sent (\<lambda>c. c))"
  have net: "loop_transport (driver (sample_members n)) = sample_net n" for n
    by (simp add: sample_members_def driver_init_def)
  have "?step sample_members ?S1"
    by (rule sample_start_step [OF _ net n1(1)]) (simp add: sample_members_def)
  moreover have "?step ?S1 ?S2"
    by (rule sample_start_step [OF _ _ n2(1)])
      (simp add: sample_members_def, simp add: sample_members_def driver_init_def)
  ultimately have S2: "sample_reach ?S2"
    by (blast intro: cluster_reachable.intros)
  obtain r s' where run: "loop_turn ?L (tcp_send sample_chan) (InCommand (Rpc (RpcPut ''k'' ''v'' 7)), False) ?m1 = (r, s')"
    by fastforce
  define data where "data = flat_enc [''k'', ''v'']"
  let ?w = "sample_committed [] data ((raw n1)\<lparr>sl_outbox := [(sample_message 2 1)\<lparr>m_rest := data\<rparr>]\<rparr>)"
  let ?t = "?m1\<lparr>raft_node_of := n1\<lparr>raw := ?w, uuids := 1, callbacks := (callbacks n1)([] \<mapsto> 7)\<rparr>\<rparr>"
  have sel: "prost_encode ?L = sample_cmd_encode" "uuid_v4 ?L 0 = []"
    "raw_state ?L w = (if sl_leads w then Leader else Follower)" "raw_has_ready ?L st w = (sl_inbox w \<noteq> [])"
    "raw_propose ?L st c d w = (Ok (), sample_committed c d
       (w\<lparr>sl_outbox := sl_outbox w @ [(sample_message 2 1)\<lparr>m_rest := d\<rparr>]\<rparr>))"
    "snd (raw_ready ?L st w) = w\<lparr>sl_inbox := [], sl_outbox := [], sl_handed := sl_handed w @ sl_inbox w\<rparr>"
    "fst (raw_advance ?L st rd w) = sample_light" for st c d w rd
    by (simp_all add: sample_log_defs sample_store_libs_def sample_disk_libs_def sample_kv_libs_def)
  have put: "handle ?L (Rpc (RpcPut ''k'' ''v'' 7)) ?m1 = (Ok (), ?t)"
    using n1(2,3)
    by (simp add: driver_init_def is_leader_def on_node_def propose_command_def Let_def
        encode_put_command_def codec_encode_def on_raw_def sel sample_cmd_encode_def data_def
        del: flat_enc.simps)
  have w: "sl_handed ?w = []" "sl_inbox ?w = [\<lparr>e_type = EntryNormal, e_term = 1, e_index = 1,
      e_data = data, e_context = []\<rparr>]"
    by (simp_all add: sample_committed_def n1(2))
  have t: "handed_at sl_handed ?t = []" "raft_node_of ?t = n1\<lparr>raw := ?w, uuids := 1,
      callbacks := (callbacks n1)([] \<mapsto> 7)\<rparr>"
    by (simp_all add: w)
  have ret: "returns (tcp_send sample_chan)" by (rule tcp.sending_returns [OF sample_chan_ok])
  have m1: "replica_inv ?L map_of map_of sl_handed ?m1"
    using cluster_replicas [OF sample_log_apply sample_log_prost sample_log_hands_out ret
        _ S2, of 1] by (simp add: sample_members_def)
  have t_inv: "replica_inv ?L map_of map_of sl_handed ?t"
    unfolding replica_inv_def
  proof
    show "loop_inv ?L map_of map_of ?t"
      by (rule handle_loop_inv [OF put]) (use m1 in \<open>simp add: replica_inv_def\<close>)
    show "kv_abs (kv_node ?t) = fold (entry_effect ?L) (handed_at sl_handed ?t) Map.empty"
      unfolding t(1) by (simp add: driver_init_def)
  qed
  have "loop_inv ?L map_of map_of ?t" using t_inv by (simp add: replica_inv_def)
  from process_ready_outcome [OF sample_log_apply ret this] obtain s where
    s: "driver_process_ready ?L (tcp_send sample_chan) ?t = (Ok (), s)"
    by (auto simp: sample_log_readable)
  from process_ready_replica [OF sample_log_apply sample_log_hands_out ret t_inv s]
  have x: "handed_at sl_handed s = sl_inbox ?w"
    by (simp add: sel sample_light_def t(2) w)
  have turn: "loop_turn ?L (tcp_send sample_chan) (InCommand (Rpc (RpcPut ''k'' ''v'' 7)), False)
      (driver (?S2 1)) = (Ok Continue, s)"
  proof -
    have one: "driver (?S2 1) = ?m1" by simp
    show ?thesis
      unfolding loop_turn_eq receive_input.simps one
      by (simp only: bindO_def put after_input_def tick_if_def prod.case result.case retO_apply
          loop_control.case if_False t(2) raft_node.simps sel w s) (simp add: w)
  qed
  have "cluster_step ?L map_of map_of (tcp_send sample_chan) (tcp_sent (\<lambda>c. c)) ?S2
      (?S2(1 := \<lparr>driver = s, running = (Ok Continue = (Ok Continue :: (loop_control, raft_loop_error) result))\<rparr>))"
    by (rule cluster_step.turn [where S = ?S2 and n = 1, OF _ _ turn]) simp_all
  from cluster_reachable.step [OF S2 this] have "sample_reach (?S2(1 := \<lparr>driver = s, running = True\<rparr>))"
    by simp
  then show ?thesis
    using n2(2) trans [OF x w(2)]
    by (intro exI [of _ "?S2(1 := \<lparr>driver = s, running = True\<rparr>)"])
      (simp add: driver_init_def data_def del: flat_enc.simps)
qed

theorem replicas_agree_witness:
  "\<exists>S s'. sample_reach S \<and> kv_abs (kv_node (driver (S 2))) = Map.empty \<and>
     kv_abs (kv_node (driver (S 1))) = [''k'' \<mapsto> ''v''] \<and>
     handle sample_log_libs (Rpc (RpcGet ''k'' 8)) (driver (S 1)) = (Ok (), s') \<and>
     replies s' = replies (driver (S 1)) @ [GetReply 8 (Some ''v'')]"
proof -
  let ?e = "\<lparr>e_type = EntryNormal, e_term = 1, e_index = 1, e_data = flat_enc [''k'', ''v''], e_context = []\<rparr>"
  obtain S where S: "sample_reach S" "running (S 1)" "running (S 2)"
    "handed_at sl_handed (driver (S 2)) = []" "kv_abs (kv_node (driver (S 2))) = Map.empty"
    "handed_at sl_handed (driver (S 1)) = [?e]"
    using sample_cluster_run by blast
  have eff: "entry_effect sample_log_libs ?e \<sigma> = \<sigma>(''k'' \<mapsto> ''v'')" for \<sigma>
  proof -
    have "prost_decode sample_log_libs = sample_cmd_decode"
      by (simp add: sample_log_defs sample_store_libs_def sample_disk_libs_def sample_kv_libs_def)
    moreover have "flat_enc [''k'', ''v''] \<noteq> []" by simp
    ultimately show ?thesis
      by (simp add: entry_effect_def sample_cmd_decode_def flat_dec_enc del: flat_enc.simps)
  qed
  have down: "\<forall>n. \<not> running (sample_members n)" by (simp add: sample_members_def)
  have ret: "returns (tcp_send sample_chan)" by (rule tcp.sending_returns [OF sample_chan_ok])
  note agree = replicas_agree [OF sample_log_apply sample_log_prost sample_log_hands_out
      ret down S(1)]
  have "kv_abs (kv_node (driver (S 1))) = fold (entry_effect sample_log_libs) [?e] (kv_abs (kv_node (driver (S 2))))"
    using agree [OF S(3,2), of "[?e]"] S(4,6) by (simp del: flat_enc.simps fold_simps)
  moreover have "\<exists>s'. handle sample_log_libs (Rpc (RpcGet ''k'' 8)) (driver (S 1)) = (Ok (), s') \<and>
      replies s' = replies (driver (S 1)) @ [GetReply 8 (fold (entry_effect sample_log_libs) [?e] Map.empty ''k'')]"
    using agree [OF S(2,2), of "[]" "''k''" 8] unfolding S(6) by blast
  ultimately show ?thesis
    using S(1,5) by (simp add: eff del: flat_enc.simps handle.simps) blast
qed

text \<open>
  C9: well-formed nodes on a TCP network. In every state a cluster can reach, each running
  node has a readable store that survives a crash, its callbacks under drawn ids and a proper
  map. It can take any input and any tick: the turn ends as the input asks, going on
  unless it is the shutdown signal or a closed channel, except when the crate panics in
  the call that the input makes of it, or when the snapshot of its \<open>Ready\<close> cannot be decoded
  (\<open>turn_failure\<close>); then it ends with that panic or the error of the codec, and the store
  and the node are well formed still. Every message on its way bears the id of the node
  that sent it and is with the node it is addressed to, also after such a turn.
\<close>

theorem cluster_well_formed:
  assumes "chan_ok C Q" and "apply_ok L V D" and "prost_ok L" and "hands_out L handed"
    and "\<forall>n. \<not> running (S0 n)"
    and "\<forall>n. stamped tcp_node_id (tcp_sent Q) n (loop_transport (driver (S0 n)))"
    and "cluster_reachable L V D (tcp_send C) (tcp_sent Q) S0 S"
  shows "(running (S i) \<longrightarrow> app_inv L V D (driver (S i)) \<and>
      (\<exists>d. raft_store (raft_node_of (driver (S i))) = Disk d) \<and>
      (\<exists>s'. loop_turn L (tcp_send C) (inp, due) (driver (S i)) =
         (case turn_failure L (inp, due) (driver (S i)) of
            Some r \<Rightarrow> r
          | None \<Rightarrow> (case inp of InCommandClosed \<Rightarrow> Err CommandChannelClosed
                    | InMessageClosed \<Rightarrow> Err MessageChannelClosed
                    | InShutdown \<Rightarrow> Ok Stop | _ \<Rightarrow> Ok Continue), s') \<and>
         app_inv L V D s' \<and> (\<exists>d'. raft_store (raft_node_of s') = Disk d'))) \<and>
    (m \<in> set (tcp_sent Q (loop_transport (driver (S i))) p) \<longrightarrow> m_from m = i \<and> m_to m = p)"
proof (intro conjI impI)
  note ret = tcp.sending_returns [OF assms(1)]
  {
    assume "running (S i)"
    then have inv: "loop_inv L V D (driver (S i))"
      using cluster_replicas [OF assms(2-4) ret assms(5,7)] by (simp add: replica_inv_def)
    then show "app_inv L V D (driver (S i))" "\<exists>d. raft_store (raft_node_of (driver (S i))) = Disk d"
      by (simp_all add: loop_inv_def)
    have out: "input_outcome inp = (case inp of InCommandClosed \<Rightarrow> Err CommandChannelClosed
        | InMessageClosed \<Rightarrow> Err MessageChannelClosed
        | InShutdown \<Rightarrow> Ok Stop | _ \<Rightarrow> Ok Continue)"
      by (cases inp) simp_all
    show "\<exists>s'. loop_turn L (tcp_send C) (inp, due) (driver (S i)) =
         (case turn_failure L (inp, due) (driver (S i)) of
            Some r \<Rightarrow> r
          | None \<Rightarrow> (case inp of InCommandClosed \<Rightarrow> Err CommandChannelClosed
                    | InMessageClosed \<Rightarrow> Err MessageChannelClosed
                    | InShutdown \<Rightarrow> Ok Stop | _ \<Rightarrow> Ok Continue), s') \<and>
         app_inv L V D s' \<and> (\<exists>d'. raft_store (raft_node_of s') = Disk d')"
      using loop_turn_outcome [OF assms(2,3) ret inv, of "(inp, due)"]
      unfolding out [symmetric] fst_conv loop_inv_def .
  next
    assume "m \<in> set (tcp_sent Q (loop_transport (driver (S i))) p)"
    with tcp.cluster_stamped [OF assms(1-7), of i] show "m_from m = i" "m_to m = p"
      by (simp_all add: stamped_def)
  }
qed

theorem cluster_well_formed_witness:
  "\<exists>S. sample_reach S \<and> handed_at sl_handed (driver (S 1)) \<noteq> [] \<and>
     app_inv sample_log_libs map_of map_of (driver (S 1)) \<and>
     (\<exists>s'. loop_turn sample_log_libs (tcp_send sample_chan) (InShutdown, False) (driver (S 1)) = (Ok Stop, s')) \<and>
     (\<forall>p. \<forall>m \<in> set (tcp_sent (\<lambda>c. c) (loop_transport (driver (S 1))) p). m_from m = 1 \<and> m_to m = p)"
proof -
  obtain S where S: "sample_reach S" "running (S 1)" "handed_at sl_handed (driver (S 1)) \<noteq> []"
    using sample_cluster_run by fastforce
  have down: "\<forall>n. \<not> running (sample_members n)" by (simp add: sample_members_def)
  have "tcp_sent (\<lambda>c. c) (sample_net n) p = []" for n p
    by (simp add: sample_net_def tcp_sent_def bt_get_def)
  then have "\<forall>n. stamped tcp_node_id (tcp_sent (\<lambda>c. c)) n (loop_transport (driver (sample_members n)))"
    by (simp add: stamped_def sample_members_def driver_init_def tcp_node_id_def)
      (simp add: sample_net_def)
  note all = cluster_well_formed [OF sample_chan_ok sample_log_apply sample_log_prost
      sample_log_hands_out down this S(1), of 1]
  have "turn_failure sample_log_libs (InShutdown, False) (driver (S 1)) = None"
    by (simp add: turn_failure_def)
  then have "\<exists>s'. loop_turn sample_log_libs (tcp_send sample_chan) (InShutdown, False) (driver (S 1)) = (Ok Stop, s')"
    using all [of InShutdown False] S(2) by auto
  with S all show ?thesis by blast
qed

end
