(* ===== verification/Rust_Text.thy ===== *)
theory Rust_Text
  imports Rust_Std
begin

text \<open>
  Characters and the editing operations of Rust's \<open>String\<close>. A \<open>char\<close> is a Unicode scalar
  value, here a number; a string holds its UTF-8 bytes, and the positions of \<open>insert\<close> and
  \<open>remove\<close> are byte positions that must lie between two characters.
\<close>

type_synonym uchar = nat

definition encode_utf8 :: "uchar \<Rightarrow> string" where
  "encode_utf8 n =
     (if n < 0x80 then [char_of n]
      else if n < 0x800 then [char_of (0xC0 + n div 64), char_of (0x80 + n mod 64)]
      else if n < 0x10000 then
        [char_of (0xE0 + n div 4096), char_of (0x80 + n div 64 mod 64), char_of (0x80 + n mod 64)]
      else
        [char_of (0xF0 + n div 262144), char_of (0x80 + n div 4096 mod 64),
         char_of (0x80 + n div 64 mod 64), char_of (0x80 + n mod 64)])"

text \<open>Scalar values: below U+110000 and no surrogate.\<close>

definition is_uchar :: "uchar \<Rightarrow> bool" where
  "is_uchar n \<longleftrightarrow> n < 0x110000 \<and> \<not> (0xD800 \<le> n \<and> n < 0xE000)"

definition continuation :: "char \<Rightarrow> bool" where
  "continuation c \<longleftrightarrow> 0x80 \<le> byte c \<and> byte c < 0xC0"

definition char_width :: "char \<Rightarrow> nat" where
  "char_width c = (if byte c < 0x80 then 1 else if byte c < 0xE0 then 2 else if byte c < 0xF0 then 3 else 4)"

definition is_char_boundary :: "string \<Rightarrow> nat \<Rightarrow> bool" where
  "is_char_boundary s i \<longleftrightarrow> i = 0 \<or> i = length s \<or> (i < length s \<and> \<not> continuation (s ! i))"

definition string_insert :: "nat \<Rightarrow> uchar \<Rightarrow> string \<Rightarrow> (string, 'e) result" where
  "string_insert i c s =
     (if is_char_boundary s i then Ok (take i s @ encode_utf8 c @ drop i s) else Panic)"

definition string_remove :: "nat \<Rightarrow> string \<Rightarrow> (string, 'e) result" where
  "string_remove i s =
     (if is_char_boundary s i \<and> i < length s
      then Ok (take i s @ drop (i + char_width (s ! i)) s) else Panic)"

definition string_push :: "uchar \<Rightarrow> string \<Rightarrow> string" where
  "string_push c s = s @ encode_utf8 c"

text \<open>\<open>pop\<close>: the continuation bytes at the end and the byte before them.\<close>

fun pop_rev :: "string \<Rightarrow> string" where
  "pop_rev [] = []"
| "pop_rev (c # s) = (if continuation c then pop_rev s else s)"

definition string_pop :: "string \<Rightarrow> string" where
  "string_pop s = rev (pop_rev (rev s))"

section \<open>Keys\<close>

text \<open>The keys of the terminal library the two programs tell apart.\<close>

datatype key_code = CharKey uchar | EnterKey | EscKey | BackspaceKey | LeftKey | RightKey | OtherKey

record key_event =
  key_code_of :: key_code
  key_control :: bool

section \<open>Lemmas\<close>

definition utf8 :: "uchar list \<Rightarrow> string" where
  "utf8 cs = concat (map encode_utf8 cs)"

lemma utf8_simps [simp]:
  "utf8 [] = []" "utf8 (c # cs) = encode_utf8 c @ utf8 cs" "utf8 (cs @ ds) = utf8 cs @ utf8 ds"
  by (simp_all add: utf8_def)

lemma encode_nonempty [simp]: "encode_utf8 c \<noteq> []"
  by (simp add: encode_utf8_def)

lemma encode_ascii: "c < 0x80 \<Longrightarrow> encode_utf8 c = [char_of c]"
  by (simp add: encode_utf8_def)

lemma encode_split:
  assumes "is_uchar c"
  obtains l t where "encode_utf8 c = l # t" and "\<not> continuation l" and "\<forall>x \<in> set t. continuation x"
proof -
  have cont: "continuation (char_of (0x80 + n mod 64))" for n :: nat
  proof -
    have "n mod 64 < 64" by simp
    then show ?thesis by (simp add: continuation_def)
  qed
  have lead: "\<not> continuation (char_of n)" if "n < 0x80 \<or> 0xC0 \<le> n" and "n < 256" for n :: nat
    using that by (auto simp: continuation_def)
  have b: "c < 0x110000" using assms by (simp add: is_uchar_def)
  consider "c < 0x80" | "0x80 \<le> c" "c < 0x800" | "0x800 \<le> c" "c < 0x10000" | "0x10000 \<le> c"
    by linarith
  then show ?thesis
  proof cases
    case 1
    then show ?thesis using that [of "char_of c" "[]"] lead [of c] by (simp add: encode_utf8_def)
  next
    case 2
    then have "c div 64 < 32" by (simp add: less_mult_imp_div_less)
    then have "\<not> continuation (char_of (0xC0 + c div 64))" by (intro lead) auto
    with 2 that show ?thesis by (simp add: encode_utf8_def cont)
  next
    case 3
    then have "c div 4096 < 16" by (simp add: less_mult_imp_div_less)
    then have "\<not> continuation (char_of (0xE0 + c div 4096))" by (intro lead) auto
    with 3 that show ?thesis by (simp add: encode_utf8_def cont)
  next
    case 4
    with b have "c div 262144 < 5" by (simp add: less_mult_imp_div_less)
    then have "\<not> continuation (char_of (0xF0 + c div 262144))" by (intro lead) auto
    with 4 that show ?thesis by (simp add: encode_utf8_def cont)
  qed
qed

lemma pop_rev_continuations:
  "\<forall>x \<in> set t. continuation x \<Longrightarrow> pop_rev (t @ s) = pop_rev s"
  by (induction t) auto

text \<open>\<open>pop\<close> takes back what \<open>push\<close> added.\<close>

lemma pop_push: "is_uchar c \<Longrightarrow> string_pop (string_push c s) = s"
proof -
  assume "is_uchar c"
  then obtain l t where e: "encode_utf8 c = l # t" "\<not> continuation l" "\<forall>x \<in> set t. continuation x"
    by (rule encode_split)
  have "pop_rev (rev t @ l # rev s) = rev s"
    using e by (simp add: pop_rev_continuations)
  with e(1) show ?thesis by (simp add: string_pop_def string_push_def)
qed

lemma pop_empty [simp]: "string_pop [] = []"
  by (simp add: string_pop_def)

definition ascii_text :: "string \<Rightarrow> bool" where
  "ascii_text s \<longleftrightarrow> (\<forall>c \<in> set s. byte c < 0x80)"

lemma ascii_boundary: "ascii_text s \<Longrightarrow> i \<le> length s \<Longrightarrow> is_char_boundary s i"
proof (cases "i < length s")
  case True
  assume "ascii_text s"
  with True have "byte (s ! i) < 0x80" by (simp add: ascii_text_def)
  then have "\<not> continuation (s ! i)" by (simp add: continuation_def)
  with True show ?thesis by (simp add: is_char_boundary_def)
qed (simp add: is_char_boundary_def)

lemma ascii_insert:
  "ascii_text s \<Longrightarrow> i \<le> length s \<Longrightarrow> c < 0x80 \<Longrightarrow>
   string_insert i c s = Ok (take i s @ char_of c # drop i s)"
  by (simp add: string_insert_def ascii_boundary encode_ascii)

lemma ascii_remove:
  assumes "ascii_text s" and "i < length s"
  shows "string_remove i s = Ok (take i s @ drop (Suc i) s)"
proof -
  have "byte (s ! i) < 0x80" using assms by (simp add: ascii_text_def)
  then show ?thesis using assms by (simp add: string_remove_def ascii_boundary char_width_def)
qed

lemma string_insert_panics:
  "continuation (s ! i) \<Longrightarrow> 0 < i \<Longrightarrow> i < length s \<Longrightarrow> string_insert i c s = Panic"
  by (simp add: string_insert_def is_char_boundary_def)

section \<open>Cursor arithmetic\<close>

text \<open>Addition on \<open>u16\<close>, which a build with overflow checks makes a panic.\<close>

definition add_u16 :: "bool \<Rightarrow> u16 \<Rightarrow> u16 \<Rightarrow> (u16, 'e) result" where
  "add_u16 checks x y = (if checks \<and> 2 ^ 16 \<le> unat x + unat y then Panic else Ok (x + y))"

end
