(* ===== verification/Terminal.thy ===== *)
theory Terminal
  imports Rust_Std
begin

text \<open>
  The terminal of both binaries: \<open>setup_terminal\<close> and \<open>restore_terminal\<close> of
  \<^verbatim>\<open>crates/raft-server/src/main.rs\<close>, and the same calls at the two ends of \<open>main\<close> of
  \<^verbatim>\<open>crates/raft-client/src/main.rs\<close>.

  What a call of crossterm or ratatui returns is a field of \<open>terminal_calls\<close>; a call that
  succeeds has its documented effect, one that fails has none. Raw mode and the alternate
  screen belong to the terminal: they outlive the process until a call ends them.
\<close>

record terminal =
  raw_mode :: bool
  alternate_screen :: bool

record terminal_calls =
  enable_raw_mode :: "(unit, string) result"
  enter_alternate_screen :: "(unit, string) result"
  terminal_new :: "(unit, string) result"
  disable_raw_mode :: "(unit, string) result"
  leave_alternate_screen :: "(unit, string) result"
  show_cursor :: "(unit, string) result"

definition terminal_call ::
    "(unit, string) result \<Rightarrow> (terminal \<Rightarrow> terminal) \<Rightarrow> (terminal, unit, string) op" where
  "terminal_call r effect t = (r, if r = Ok () then effect t else t)"

definition setup_terminal :: "'z terminal_calls_scheme \<Rightarrow> (terminal, unit, string) op" where
  "setup_terminal C =
     bindO (terminal_call (enable_raw_mode C) (\<lambda>t. t\<lparr>raw_mode := True\<rparr>)) (\<lambda>_.
     bindO (terminal_call (enter_alternate_screen C) (\<lambda>t. t\<lparr>alternate_screen := True\<rparr>)) (\<lambda>_.
     liftR (terminal_new C)))"

definition restore_terminal :: "'z terminal_calls_scheme \<Rightarrow> (terminal, unit, string) op" where
  "restore_terminal C =
     bindO (terminal_call (disable_raw_mode C) (\<lambda>t. t\<lparr>raw_mode := False\<rparr>)) (\<lambda>_.
     bindO (terminal_call (leave_alternate_screen C) (\<lambda>t. t\<lparr>alternate_screen := False\<rparr>)) (\<lambda>_.
     liftR (show_cursor C)))"

text \<open>An operation on the terminal, beside the state of the program.\<close>

definition on_terminal :: "(terminal, 'a, 'e) op \<Rightarrow> (terminal \<times> 's, 'a, 'e) op" where
  "on_terminal m = (\<lambda>(t, s). case m t of (r, t') \<Rightarrow> (r, (t', s)))"

lemma on_terminal_apply [simp]: "on_terminal m (t, s) = (fst (m t), (snd (m t), s))"
  by (simp add: on_terminal_def split: prod.split)

section \<open>When the calls succeed\<close>

definition terminal_works :: "'z terminal_calls_scheme \<Rightarrow> bool" where
  "terminal_works C \<longleftrightarrow>
     enable_raw_mode C = Ok () \<and> enter_alternate_screen C = Ok () \<and> terminal_new C = Ok () \<and>
     disable_raw_mode C = Ok () \<and> leave_alternate_screen C = Ok () \<and> show_cursor C = Ok ()"

text \<open>The terminal as a program has it while it draws, and as the shell wants it back.\<close>

definition taken :: "terminal \<Rightarrow> terminal" where
  "taken t = t\<lparr>raw_mode := True, alternate_screen := True\<rparr>"

definition given_back :: "terminal \<Rightarrow> terminal" where
  "given_back t = t\<lparr>raw_mode := False, alternate_screen := False\<rparr>"

lemma setup_works: "terminal_works C \<Longrightarrow> setup_terminal C t = (Ok (), taken t)"
  by (simp add: terminal_works_def setup_terminal_def terminal_call_def taken_def bindO_def)

lemma restore_works: "terminal_works C \<Longrightarrow> restore_terminal C t = (Ok (), given_back t)"
  by (simp add: terminal_works_def restore_terminal_def terminal_call_def given_back_def bindO_def)

lemma given_back_taken [simp]: "given_back (taken t) = given_back t"
  by (simp add: given_back_def taken_def)

text \<open>
  A setup that fails after its first call leaves the terminal in raw mode: nothing undoes
  what it has done.
\<close>

lemma setup_fails_half_way:
  assumes "enable_raw_mode C = Ok ()" "enter_alternate_screen C = Err e"
  shows "setup_terminal C t = (Err e, t\<lparr>raw_mode := True\<rparr>)"
  using assms by (simp add: setup_terminal_def terminal_call_def bindO_def)

definition sample_calls :: terminal_calls where
  "sample_calls =
     \<lparr> enable_raw_mode = Ok (), enter_alternate_screen = Ok (), terminal_new = Ok (),
       disable_raw_mode = Ok (), leave_alternate_screen = Ok (), show_cursor = Ok () \<rparr>"

lemma sample_calls_work [simp]: "terminal_works sample_calls"
  by (simp add: terminal_works_def sample_calls_def)

end
