(* ===== verification/Tui.thy ===== *)
theory Tui
  imports Command_Handler Rust_Text Terminal
begin

text \<open>
  The terminal interface of the server, the \<open>App\<close> of \<^verbatim>\<open>crates/raft-server/src/main.rs\<close>: its
  state, the updates it takes from the ready loop, the keys, what is drawn, and its loop.

  The channels are what was received or sent: \<open>state_rx\<close> the updates that have arrived,
  \<open>cmd_tx\<close> the commands sent and whether the ready loop still receives, \<open>shutdown_tx\<close> the
  shutdown signals. An index of type \<open>usize\<close> is a natural number.
\<close>

section \<open>State\<close>

datatype tui_mode = NormalMode | EditingMode

record 'a channel_tx =
  rx_alive :: bool
  sent :: "'a list"

record tui_app =
  tui_node_id :: u64
  input :: string
  cursor_position :: nat
  tui_input_mode :: tui_mode
  tui_raft_state :: "raft_state option"
  kv_store :: "(string, string) btree_map"
  system_messages :: "string list"
  command_history :: "string list"
  state_rx :: "state_update list"
  cmd_tx :: "server_command channel_tx"
  shutdown_tx :: "unit channel_tx"

definition app_new :: "u64 \<Rightarrow> tui_app" where
  "app_new i =
     \<lparr> tui_node_id = i, input = [], cursor_position = 0, tui_input_mode = EditingMode,
       tui_raft_state = None, kv_store = [], system_messages = [], command_history = [],
       state_rx = [], cmd_tx = \<lparr> rx_alive = True, sent = [] \<rparr>,
       shutdown_tx = \<lparr> rx_alive = True, sent = [] \<rparr> \<rparr>"

text \<open>\<open>send\<close> of crossbeam: an error once the receiver is gone.\<close>

definition channel_send :: "'a \<Rightarrow> ('a channel_tx, unit, string) op" where
  "channel_send x c =
     (if rx_alive c then (Ok (), c\<lparr>sent := sent c @ [x]\<rparr>)
      else (Err ''sending on a disconnected channel'', c))"

section \<open>Updates\<close>

definition push_ring :: "nat \<Rightarrow> 'a \<Rightarrow> 'a list \<Rightarrow> 'a list" where
  "push_ring cap x xs = (if cap \<le> length xs then tl xs else xs) @ [x]"

definition add_system_message :: "string \<Rightarrow> tui_app \<Rightarrow> tui_app" where
  "add_system_message msg a = a\<lparr>system_messages := push_ring 100 msg (system_messages a)\<rparr>"

definition add_command_history :: "string \<Rightarrow> tui_app \<Rightarrow> tui_app" where
  "add_command_history c a = a\<lparr>command_history := push_ring 50 c (command_history a)\<rparr>"

fun apply_state_update :: "state_update \<Rightarrow> tui_app \<Rightarrow> tui_app" where
  "apply_state_update (RaftStateUpdate state) a = a\<lparr>tui_raft_state := Some state\<rparr>"
| "apply_state_update (KvUpdate key val) a =
     add_system_message (''KV Update: '' @ key @ '' = '' @ val)
       (a\<lparr>kv_store := bt_insert key val (kv_store a)\<rparr>)"
| "apply_state_update (LogEntry index trm data) a =
     add_system_message (''Log Entry: idx='' @ show_u64 index @ '' term='' @ show_u64 trm @
       '' data='' @ data) a"
| "apply_state_update (SystemMessage msg) a = add_system_message msg a"

section \<open>Keys\<close>

datatype key_action = KeyContinue | KeyQuit

definition submit_command :: "(tui_app, key_action, string) op" where
  "submit_command a =
     (let line = input a; a = a\<lparr>input := [], cursor_position := 0\<rparr> in
      if trim line = [] then (Ok KeyContinue, a)
      else if trim line = ''quit'' \<or> trim line = ''exit'' then (Ok KeyQuit, a)
      else
        (case parse_command line of
           Some c \<Rightarrow>
             (case channel_send (User c) (cmd_tx a) of
                (Ok u, tx) \<Rightarrow>
                  (Ok KeyContinue, add_system_message (''Command sent: '' @ line)
                     (add_command_history line (a\<lparr>cmd_tx := tx\<rparr>)))
              | (Err e, tx) \<Rightarrow> (Err e, a\<lparr>cmd_tx := tx\<rparr>)
              | (Panic, tx) \<Rightarrow> (Panic, a\<lparr>cmd_tx := tx\<rparr>))
         | None \<Rightarrow>
             (Ok KeyContinue, add_system_message (''Unknown command: '' @ line) a)))"

definition handle_key_event :: "key_event \<Rightarrow> (tui_app, key_action, string) op" where
  "handle_key_event key a =
     (case tui_input_mode a of
        NormalMode \<Rightarrow>
          (if key_code_of key = CharKey 113 then (Ok KeyQuit, a)
           else if key_code_of key = CharKey 105 then (Ok KeyContinue, a\<lparr>tui_input_mode := EditingMode\<rparr>)
           else (Ok KeyContinue, a))
      | EditingMode \<Rightarrow>
          (case key_code_of key of
             EscKey \<Rightarrow> (Ok KeyContinue, a\<lparr>tui_input_mode := NormalMode\<rparr>)
           | EnterKey \<Rightarrow> submit_command a
           | BackspaceKey \<Rightarrow>
               (if 0 < cursor_position a then
                  bindO (liftR (string_remove (cursor_position a - 1) (input a))) (\<lambda>t a.
                    (Ok KeyContinue, a\<lparr>input := t, cursor_position := cursor_position a - 1\<rparr>)) a
                else (Ok KeyContinue, a))
           | LeftKey \<Rightarrow>
               (Ok KeyContinue,
                if 0 < cursor_position a then a\<lparr>cursor_position := cursor_position a - 1\<rparr> else a)
           | RightKey \<Rightarrow>
               (Ok KeyContinue,
                if cursor_position a < length (input a)
                then a\<lparr>cursor_position := cursor_position a + 1\<rparr> else a)
           | CharKey c \<Rightarrow>
               (if c = 99 \<and> key_control key then (Ok KeyQuit, a)
                else bindO (liftR (string_insert (cursor_position a) c (input a))) (\<lambda>t a.
                  (Ok KeyContinue, a\<lparr>input := t, cursor_position := cursor_position a + 1\<rparr>)) a)
           | _ \<Rightarrow> (Ok KeyContinue, a)))"

section \<open>Drawing\<close>

text \<open>
  What the panels show. The areas are the layout's; \<open>height - 2\<close> on \<open>usize\<close> is a panic below
  2 when arithmetic is checked and wraps, so takes everything, when it is not.
\<close>

definition title_text :: "tui_app \<Rightarrow> string" where
  "title_text a =
     (case tui_raft_state a of
        Some st \<Rightarrow> ''Node '' @ show_u64 (tui_node_id a) @ '' | Term: '' @ show_u64 (rs_term st) @
          '' | Role: '' @ show_role (rs_role st) @ '' | Leader: '' @ show_u64 (rs_leader_id st)
      | None \<Rightarrow> ''Node '' @ show_u64 (tui_node_id a) @ '' | Initializing...'')"

definition raft_state_text :: "tui_app \<Rightarrow> string" where
  "raft_state_text a =
     (case tui_raft_state a of
        Some st \<Rightarrow>
          ''Term: '' @ show_u64 (rs_term st) @ newline @
          ''Role: '' @ show_role (rs_role st) @ newline @
          ''Leader ID: '' @ show_u64 (rs_leader_id st) @ newline @
          ''Cluster Size: '' @ show_nat (rs_cluster_size st) @ newline @
          ''Commit Index: '' @ show_u64 (rs_commit_index st) @ newline @
          ''Applied Index: '' @ show_u64 (rs_applied_index st)
      | None \<Rightarrow> ''Waiting for Raft state...'')"

definition newest :: "bool \<Rightarrow> nat \<Rightarrow> string list \<Rightarrow> (string list, 'e) result" where
  "newest checks height msgs =
     (if 2 \<le> height then Ok (take (height - 2) (rev msgs))
      else if checks then Panic else Ok (rev msgs))"

definition kv_store_items :: "tui_app \<Rightarrow> string list" where
  "kv_store_items a =
     (let items = map (\<lambda>(k, v). k @ '' = '' @ v) (kv_store a) in
      if items = [] then [''(empty)''] else items)"

definition command_history_items :: "bool \<Rightarrow> nat \<Rightarrow> tui_app \<Rightarrow> (string list, 'e) result" where
  "command_history_items checks height a =
     bindR (newest checks height (command_history a)) (\<lambda>items.
     Ok (if items = [] then [''(no commands yet)''] else items))"

definition input_title :: "tui_app \<Rightarrow> string" where
  "input_title a =
     (case tui_input_mode a of
        NormalMode \<Rightarrow>
          ''Press '' @ [CHR 0x27] @ ''i'' @ [CHR 0x27] @ '' to enter command, '' @
          [CHR 0x27] @ ''q'' @ [CHR 0x27] @ '' to quit''
      | EditingMode \<Rightarrow> ''Type command, Enter to submit, Esc to cancel'')"

definition input_cursor :: "bool \<Rightarrow> u16 \<Rightarrow> u16 \<Rightarrow> tui_app \<Rightarrow> ((u16 \<times> u16) option, 'e) result" where
  "input_cursor checks x y a =
     (if tui_input_mode a = EditingMode then
        bindR (add_u16 checks x (of_nat (cursor_position a))) (\<lambda>c.
        bindR (add_u16 checks c 1) (\<lambda>cx.
        bindR (add_u16 checks y 1) (\<lambda>cy. Ok (Some (cx, cy)))))
      else Ok None)"

record layout =
  logs_height :: nat
  history_height :: nat
  input_x :: u16
  input_y :: u16

record tui_view =
  v_title :: string
  v_raft_state :: string
  v_logs :: "string list"
  v_kv :: "string list"
  v_history :: "string list"
  v_input_title :: string
  v_input :: string
  v_cursor :: "(u16 \<times> u16) option"

definition ui :: "bool \<Rightarrow> layout \<Rightarrow> tui_app \<Rightarrow> (tui_view, 'e) result" where
  "ui checks lay a =
     bindR (newest checks (logs_height lay) (system_messages a)) (\<lambda>logs.
     bindR (command_history_items checks (history_height lay) a) (\<lambda>history.
     bindR (input_cursor checks (input_x lay) (input_y lay) a) (\<lambda>cursor.
     Ok \<lparr> v_title = title_text a, v_raft_state = raft_state_text a, v_logs = logs,
          v_kv = kv_store_items a, v_history = history, v_input_title = input_title a,
          v_input = input a, v_cursor = cursor \<rparr>)))"

section \<open>The loop\<close>

text \<open>
  One turn, given the updates that arrived before it, the layout of the frame, whether
  drawing failed, and what polling and reading the terminal gave.
\<close>

record tui_turn_input =
  ti_arrived :: "state_update list"
  ti_layout :: layout
  ti_draw :: "(unit, string) result"
  ti_poll :: "(key_event option, string) result"

definition drain_updates :: "tui_app \<Rightarrow> tui_app" where
  "drain_updates a = fold apply_state_update (state_rx a) (a\<lparr>state_rx := []\<rparr>)"

text \<open>The value says whether the loop is left.\<close>

definition tui_turn :: "bool \<Rightarrow> tui_turn_input \<Rightarrow> (tui_app, bool, string) op" where
  "tui_turn checks i a =
     (let a = drain_updates (a\<lparr>state_rx := state_rx a @ ti_arrived i\<rparr>) in
      bindO (liftR (bindR (ui checks (ti_layout i) a) (\<lambda>v. ti_draw i))) (\<lambda>_.
      bindO (liftR (ti_poll i)) (\<lambda>polled.
        case polled of
          None \<Rightarrow> retO False
        | Some key \<Rightarrow>
            bindO (handle_key_event key) (\<lambda>action a.
              case action of
                KeyContinue \<Rightarrow> (Ok False, a)
              | KeyQuit \<Rightarrow>
                  (case channel_send () (shutdown_tx a) of
                     (r, tx) \<Rightarrow> (bindR r (\<lambda>_. Ok True), a\<lparr>shutdown_tx := tx\<rparr>))))) a)"

fun tui_loop :: "bool \<Rightarrow> tui_turn_input list \<Rightarrow> (tui_app, bool, string) op" where
  "tui_loop checks [] = retO False"
| "tui_loop checks (i # is) =
     bindO (tui_turn checks i) (\<lambda>quit. if quit then retO True else tui_loop checks is)"

text \<open>
  \<open>run_tui\<close>: set up the terminal, run the loop, restore the terminal whatever the loop
  returned; an error of restoring comes before one of the loop. A panic is not caught. With
  the inputs used up the loop goes on waiting.
\<close>

definition run_tui ::
    "'z terminal_calls_scheme \<Rightarrow> bool \<Rightarrow> tui_turn_input list \<Rightarrow>
     (terminal \<times> tui_app, bool, string) op" where
  "run_tui C checks is =
     bindO (on_terminal (setup_terminal C)) (\<lambda>_ (t, a).
       case tui_loop checks is a of
         (Panic, a) \<Rightarrow> (Panic, (t, a))
       | (Ok False, a) \<Rightarrow> (Ok False, (t, a))
       | (r, a) \<Rightarrow> (case restore_terminal C t of (r', t) \<Rightarrow> (bindR r' (\<lambda>_. r), (t, a))))"

section \<open>Ring buffers\<close>

lemma push_ring_length: "0 < cap \<Longrightarrow> length xs \<le> cap \<Longrightarrow> length (push_ring cap x xs) \<le> cap"
  by (auto simp: push_ring_def)

text \<open>The last \<open>cap\<close> of all that was pushed.\<close>

lemma push_ring_last:
  assumes "0 < cap"
  shows "push_ring cap x (drop (length ys - cap) ys) = drop (length (ys @ [x]) - cap) (ys @ [x])"
proof (cases "cap \<le> length ys")
  case True
  then have "Suc (length ys) - cap = Suc (length ys - cap)" by simp
  moreover have "Suc (length ys - cap) \<le> length ys" using True assms by simp
  ultimately show ?thesis
    using True by (simp add: push_ring_def tl_drop drop_Suc)
next
  case False
  then show ?thesis by (simp add: push_ring_def)
qed

section \<open>The mirror of the map\<close>

text \<open>What a list of updates does to a map.\<close>

fun update_effect :: "state_update \<Rightarrow> (string \<rightharpoonup> string) \<Rightarrow> (string \<rightharpoonup> string)" where
  "update_effect (KvUpdate k v) m = m(k \<mapsto> v)"
| "update_effect u m = m"

lemma add_system_message_store [simp]: "kv_store (add_system_message m a) = kv_store a"
  by (simp add: add_system_message_def)

lemma apply_state_update_store:
  "bt_get (kv_store (apply_state_update u a)) = update_effect u (bt_get (kv_store a))"
  by (cases u) simp_all

lemma apply_state_update_wf:
  "bt_wf (kv_store a) \<Longrightarrow> bt_wf (kv_store (apply_state_update u a))"
  by (cases u) simp_all

lemma apply_updates_store:
  "bt_get (kv_store (fold apply_state_update us a)) = fold update_effect us (bt_get (kv_store a))"
  by (induction us arbitrary: a) (simp_all add: apply_state_update_store)

lemma apply_updates_wf:
  "bt_wf (kv_store a) \<Longrightarrow> bt_wf (kv_store (fold apply_state_update us a))"
  by (induction us arbitrary: a) (simp_all add: apply_state_update_wf)

text \<open>
  The map and the updates go together: whatever an operation of the applicator returns, the
  updates it appended have the effect it had on the map.
\<close>

definition mirrored ::
    "('t, 'm, 'r, 'y) app_state_scheme \<Rightarrow> ('t, 'm, 'r, 'y) app_state_scheme \<Rightarrow> bool" where
  "mirrored s s' \<longleftrightarrow>
     (\<exists>us. updates s' = updates s @ us \<and> kv_abs (kv_node s') = fold update_effect us (kv_abs (kv_node s)))"

lemma mirrored_same: "updates s' = updates s \<Longrightarrow> kv_node s' = kv_node s \<Longrightarrow> mirrored s s'"
  by (simp add: mirrored_def)

lemma mirrored_trans: "mirrored s t \<Longrightarrow> mirrored t u \<Longrightarrow> mirrored s u"
  by (fastforce simp: mirrored_def)

lemma mirrored_storage_op: "storage_op f s = (r, s') \<Longrightarrow> mirrored s s'"
  by (rule mirrored_same) (auto simp: storage_op_def split: prod.splits)

lemma mirrored_apply_normal:
  assumes "apply_normal_entry L e s = (r, s')"
  shows "mirrored s s'"
proof -
  obtain q k where k: "apply_kv_command L (e_data e) (kv_node s) = (q, k)" by fastforce
  let ?t = "s\<lparr>kv_node := k\<rparr>"
  have notify: "mirrored s (notify_kv_update L e ?t)" if q: "q = Ok u" for u
  proof (cases "codec_decode L (e_data e)")
    case (Ok c)
    show ?thesis
    proof (cases "cmd c")
      case None
      with Ok k q show ?thesis
        by (intro mirrored_same) (auto simp: notify_kv_update_def apply_kv_command_def)
    next
      case (Some p)
      then obtain key val where "cmd c = Some (CmdPut key val)" by (cases p) simp
      with Ok k q show ?thesis
        by (auto simp: mirrored_def notify_kv_update_def apply_kv_command_def send_update_def
            frame_simps intro: exI [of _ "[KvUpdate key val, LogEntry (e_index e) (e_term e) (''PUT '' @ key @ '' = '' @ val)]"])
    qed
  next
    case (Err m)
    with k q show ?thesis by (simp add: apply_kv_command_def)
  next
    case Panic
    with k q show ?thesis by (simp add: apply_kv_command_def)
  qed
  have same: "k = kv_node s" if "\<forall>u. q \<noteq> Ok u"
    using that k
    by (cases "codec_decode L (e_data e) :: (kv_command, string) result")
      (auto simp: apply_kv_command_def split: option.splits kv_cmd.splits)
  show ?thesis
  proof (cases q)
    case (Ok u)
    with assms k have "storage_op (storage_set_applied_index L (e_index e)) (notify_kv_update L e ?t) = (r, s')"
      by (simp add: apply_normal_entry_def)
    with notify [OF Ok] show ?thesis by (blast intro: mirrored_trans mirrored_storage_op)
  next
    case (Err m)
    let ?a = "answer_callback (e_context e) (Err (''Apply failed: '' @ m)) ?t"
    from Err assms k have op: "storage_op (storage_set_applied_index L (e_index e)) ?a = (r, s')"
      by (simp add: apply_normal_entry_def)
    have "mirrored s ?a"
      using same Err by (intro mirrored_same) (simp_all add: frame_simps)
    then show ?thesis by (rule mirrored_trans [OF _ mirrored_storage_op [OF op]])
  next
    case Panic
    with assms k same show ?thesis by (auto simp: apply_normal_entry_def intro: mirrored_same)
  qed
qed

lemma mirrored_conf_change:
  assumes "apply_decoded_conf_change L cc e s = (r, s')"
  shows "mirrored s s'"
proof -
  obtain q t where t: "on_node (on_raw (\<lambda>st. raw_apply_conf_change L st cc)) s = (q, t)" by fastforce
  then have st: "mirrored s t"
    by (intro mirrored_same) (auto simp: on_node_def split: prod.splits)
  show ?thesis
  proof (cases q)
    case (Ok cs)
    obtain q1 t1 where t1: "storage_op (storage_set_conf_state L cs) t = (q1, t1)" by fastforce
    have "mirrored t s'"
      using assms t Ok t1
      by (cases q1)
        (auto simp: apply_decoded_conf_change_def dest: mirrored_storage_op intro: mirrored_trans)
    with st show ?thesis by (rule mirrored_trans)
  qed (use assms t st in \<open>auto simp: apply_decoded_conf_change_def\<close>)
qed

lemma mirrored_apply_entry: "apply_entry L e s = (r, s') \<Longrightarrow> mirrored s s'"
  by (auto simp: apply_entry_def apply_conf_change_def apply_conf_change_v2_def
      split: if_splits entry_type.splits result.splits
      intro: mirrored_same dest: mirrored_apply_normal mirrored_conf_change)

lemma mirrored_apply_entries: "apply_entries L es s = (r, s') \<Longrightarrow> mirrored s s'"
proof (induction es arbitrary: s)
  case Nil
  then show ?case by (simp add: mirrored_def)
next
  case (Cons e es)
  obtain q t where t: "apply_entry L e s = (q, t)" by fastforce
  with Cons show ?case
    by (cases q) (auto dest: mirrored_apply_entry intro: mirrored_trans)
qed

section \<open>Editing\<close>

text \<open>
  The abstract editor: the text before and after the cursor. The invariant is ASCII text
  with the cursor inside, where byte and character positions agree.
\<close>

definition editing_ok :: "tui_app \<Rightarrow> bool" where
  "editing_ok a \<longleftrightarrow>
     tui_input_mode a = EditingMode \<and> ascii_text (input a) \<and> cursor_position a \<le> length (input a)"

definition editor :: "tui_app \<Rightarrow> string \<times> string" where
  "editor a = (take (cursor_position a) (input a), drop (cursor_position a) (input a))"

fun edit_step :: "key_code \<Rightarrow> string \<times> string \<Rightarrow> string \<times> string" where
  "edit_step (CharKey c) (before, after) = (before @ [char_of c], after)"
| "edit_step BackspaceKey (before, after) = (butlast before, after)"
| "edit_step LeftKey (before, after) =
     (if before = [] then (before, after) else (butlast before, last before # after))"
| "edit_step RightKey (before, after) =
     (case after of [] \<Rightarrow> (before, []) | c # cs \<Rightarrow> (before @ [c], cs))"
| "edit_step k e = e"

text \<open>Keys that edit: ASCII characters without Ctrl-C, and the cursor keys.\<close>

fun edit_key :: "key_event \<Rightarrow> bool" where
  "edit_key k =
     (case key_code_of k of
        CharKey c \<Rightarrow> c < 0x80 \<and> \<not> (c = 99 \<and> key_control k)
      | EnterKey \<Rightarrow> False
      | EscKey \<Rightarrow> False
      | _ \<Rightarrow> True)"

fun press_keys :: "key_event list \<Rightarrow> (tui_app, key_action, string) op" where
  "press_keys [] = retO KeyContinue"
| "press_keys (k # ks) =
     bindO (handle_key_event k) (\<lambda>action.
       case action of KeyQuit \<Rightarrow> retO KeyQuit | KeyContinue \<Rightarrow> press_keys ks)"

text \<open>The fields that editing does not touch.\<close>

definition beside_input :: "tui_app \<Rightarrow> tui_app" where
  "beside_input a = a\<lparr>input := [], cursor_position := 0\<rparr>"

lemma ascii_take_drop: "ascii_text s \<Longrightarrow> ascii_text (take i s) \<and> ascii_text (drop i s)"
  by (auto simp: ascii_text_def dest: in_set_takeD in_set_dropD)

lemma ascii_append [simp]: "ascii_text (s @ t) \<longleftrightarrow> ascii_text s \<and> ascii_text t"
  by (auto simp: ascii_text_def)

lemma ascii_Cons [simp]: "ascii_text (c # t) \<longleftrightarrow> byte c < 0x80 \<and> ascii_text t"
  by (simp add: ascii_text_def)

lemma edit_key_step:
  assumes a: "editing_ok a" and k: "edit_key k"
  shows "\<exists>a'. handle_key_event k a = (Ok KeyContinue, a') \<and> editing_ok a' \<and>
    editor a' = edit_step (key_code_of k) (editor a) \<and> beside_input a' = beside_input a"
proof -
  let ?i = "cursor_position a" and ?s = "input a"
  have mode: "tui_input_mode a = EditingMode" and asc: "ascii_text ?s" and i: "?i \<le> length ?s"
    using a by (simp_all add: editing_ok_def)
  note parts = ascii_take_drop [OF asc]
  show ?thesis
  proof (cases "key_code_of k")
    case (CharKey c)
    with k have c: "c < 0x80" "\<not> (c = 99 \<and> key_control k)" by auto
    let ?a = "a\<lparr>input := take ?i ?s @ char_of c # drop ?i ?s, cursor_position := ?i + 1\<rparr>"
    have "handle_key_event k a = (Ok KeyContinue, ?a)"
      using CharKey c mode by (auto simp: handle_key_event_def ascii_insert [OF asc i c(1)])
    moreover have "editing_ok ?a" using mode parts c i by (simp add: editing_ok_def)
    moreover have "editor ?a = edit_step (CharKey c) (editor a)"
      using i by (simp add: editor_def min_def)
    ultimately show ?thesis unfolding CharKey by (auto simp: beside_input_def)
  next
    case BackspaceKey
    show ?thesis
    proof (cases "?i = 0")
      case True
      with BackspaceKey mode a show ?thesis by (simp add: handle_key_event_def editor_def)
    next
      case False
      let ?a = "a\<lparr>input := take (?i - 1) ?s @ drop ?i ?s, cursor_position := ?i - 1\<rparr>"
      have "string_remove (?i - 1) ?s = (Ok (take (?i - 1) ?s @ drop ?i ?s) :: (string, string) result)"
        using False i by (simp add: ascii_remove [OF asc])
      with BackspaceKey False mode have "handle_key_event k a = (Ok KeyContinue, ?a)"
        by (simp add: handle_key_event_def)
      moreover have "editing_ok ?a"
        using mode parts ascii_take_drop [OF asc, of "?i - 1"] i by (simp add: editing_ok_def)
      moreover have "editor ?a = edit_step BackspaceKey (editor a)"
        using i False by (simp add: editor_def butlast_take min_def)
      ultimately show ?thesis unfolding BackspaceKey by (auto simp: beside_input_def)
    qed
  next
    case LeftKey
    show ?thesis
    proof (cases "?i = 0")
      case True
      with LeftKey mode a show ?thesis by (simp add: handle_key_event_def editor_def)
    next
      case False
      then obtain j where j: "?i = Suc j" "j < length ?s" using i by (cases ?i) auto
      then have "take (Suc j) ?s = take j ?s @ [?s ! j]" "drop j ?s = ?s ! j # drop (Suc j) ?s"
        by (simp_all add: take_Suc_conv_app_nth Cons_nth_drop_Suc)
      with LeftKey mode a j show ?thesis
        by (auto simp: handle_key_event_def editor_def editing_ok_def beside_input_def)
    qed
  next
    case RightKey
    show ?thesis
    proof (cases "?i < length ?s")
      case True
      then have "take (Suc ?i) ?s = take ?i ?s @ [?s ! ?i]" "drop ?i ?s = ?s ! ?i # drop (Suc ?i) ?s"
        by (simp_all add: take_Suc_conv_app_nth Cons_nth_drop_Suc)
      with RightKey mode a True show ?thesis
        by (auto simp: handle_key_event_def editor_def editing_ok_def beside_input_def)
    next
      case False
      with RightKey mode a show ?thesis by (simp add: handle_key_event_def editor_def)
    qed
  qed (use k a mode in \<open>auto simp: handle_key_event_def editor_def\<close>)
qed

lemma non_ascii_second_byte:
  assumes "is_uchar c" and "0x80 \<le> c"
  obtains l x t where "encode_utf8 c = l # x # t" and "continuation x"
proof -
  obtain l t where e: "encode_utf8 c = l # t" "\<forall>x \<in> set t. continuation x"
    using assms(1) by (rule encode_split)
  have "t \<noteq> []" using e(1) assms(2) by (auto simp: encode_utf8_def split: if_splits)
  then obtain x t' where "t = x # t'" by (cases t) auto
  with e that show ?thesis by auto
qed

section \<open>Properties\<close>

text \<open>
  C38: the input line is an editor of ASCII text. Any sequence of characters, Backspace, Left
  and Right goes through without an error or panic, keeps the cursor inside the text, and does
  to the text before and after the cursor what the abstract editor does; nothing else of the
  interface changes.
\<close>

theorem tui_editing_refines:
  assumes "editing_ok a" and "\<forall>k \<in> set ks. edit_key k"
  shows "\<exists>a'. press_keys ks a = (Ok KeyContinue, a') \<and> editing_ok a' \<and>
    editor a' = fold (\<lambda>k. edit_step (key_code_of k)) ks (editor a) \<and> beside_input a' = beside_input a"
  using assms
proof (induction ks arbitrary: a)
  case Nil
  then show ?case by simp
next
  case (Cons k ks)
  obtain a1 where a1: "handle_key_event k a = (Ok KeyContinue, a1)" "editing_ok a1"
    "editor a1 = edit_step (key_code_of k) (editor a)" "beside_input a1 = beside_input a"
    using edit_key_step [OF Cons.prems(1), of k] Cons.prems(2) by auto
  obtain a2 where "press_keys ks a1 = (Ok KeyContinue, a2)" "editing_ok a2"
    "editor a2 = fold (\<lambda>k. edit_step (key_code_of k)) ks (editor a1)" "beside_input a2 = beside_input a1"
    using Cons.IH [OF a1(2)] Cons.prems(2) by (auto simp del: edit_key.simps)
  with a1 show ?case by auto
qed

text \<open>
  C40: The cursor moves by one for each character, but a character outside ASCII takes more
  than one byte: after it the cursor points into the character, and the next character typed
  makes the program panic.
\<close>

theorem non_ascii_input_panics:
  assumes "editing_ok a" and "is_uchar c" and "0x80 \<le> c"
  shows "fst (press_keys [\<lparr> key_code_of = CharKey c, key_control = False \<rparr>,
      \<lparr> key_code_of = CharKey d, key_control = False \<rparr>] a) = Panic"
proof -
  let ?i = "cursor_position a" and ?s = "input a"
  have mode: "tui_input_mode a = EditingMode" and asc: "ascii_text ?s" and i: "?i \<le> length ?s"
    using assms(1) by (simp_all add: editing_ok_def)
  obtain l x t where e: "encode_utf8 c = l # x # t" "continuation x"
    using assms(2,3) by (rule non_ascii_second_byte)
  let ?t = "take ?i ?s @ l # x # t @ drop ?i ?s"
  let ?a = "a\<lparr>input := ?t, cursor_position := ?i + 1\<rparr>"
  have "handle_key_event \<lparr> key_code_of = CharKey c, key_control = False \<rparr> a = (Ok KeyContinue, ?a)"
    using mode e(1) ascii_boundary [OF asc i] by (simp add: handle_key_event_def string_insert_def)
  moreover have "string_insert (?i + 1) d ?t = (Panic :: (string, string) result)"
    using e(2) i by (intro string_insert_panics) (simp_all add: nth_append min_def)
  ultimately show ?thesis
    using mode by (simp add: handle_key_event_def bindO_def)
qed

section \<open>Instances\<close>

lemma app_new_editing: "editing_ok (app_new i)"
  by (simp add: editing_ok_def app_new_def ascii_text_def)

lemma tui_editing_refines_witness:
  "let key = (\<lambda>c. \<lparr> key_code_of = c, key_control = False \<rparr>) in
   \<exists>a'. press_keys (map key [CharKey 97, CharKey 98, LeftKey, CharKey 120, BackspaceKey, CharKey 121])
       (app_new 1) = (Ok KeyContinue, a') \<and>
     editor a' = ([char_of (97 :: nat), char_of (121 :: nat)], [char_of (98 :: nat)])"
proof -
  let ?ks = "map (\<lambda>c. \<lparr> key_code_of = c, key_control = False \<rparr>)
    [CharKey 97, CharKey 98, LeftKey, CharKey 120, BackspaceKey, CharKey 121]"
  have "\<forall>k \<in> set ?ks. edit_key k" by simp
  from tui_editing_refines [OF app_new_editing [of 1] this]
  obtain a' where "press_keys ?ks (app_new 1) = (Ok KeyContinue, a')"
    "editor a' = fold (\<lambda>k. edit_step (key_code_of k)) ?ks (editor (app_new 1))" by blast
  moreover have "fold (\<lambda>k. edit_step (key_code_of k)) ?ks (editor (app_new 1)) =
      ([char_of (97 :: nat), char_of (121 :: nat)], [char_of (98 :: nat)])"
    by (simp add: editor_def app_new_def)
  ultimately show ?thesis unfolding Let_def by auto
qed

lemma non_ascii_input_panics_witness:
  "fst (press_keys [\<lparr> key_code_of = CharKey 0xE9, key_control = False \<rparr>,
      \<lparr> key_code_of = CharKey 97, key_control = False \<rparr>] (app_new 1)) = Panic"
  by (rule non_ascii_input_panics [OF app_new_editing]) (simp_all add: is_uchar_def)

end
