(* ===== verification/Server_Cli.thy ===== *)
theory Server_Cli
  imports Rust_Std
begin

text \<open>
  The command line of the server, \<^verbatim>\<open>crates/raft-server/src/cli.rs\<close>: the parser of the peer
  list. Resolving a host name asks the system, and the textual form of an address is the
  standard library's: both are fields of \<open>addr_libs\<close>, over any type \<open>'h\<close> of hosts.
\<close>

section \<open>Addresses\<close>

record 'h socket_addr =
  sa_ip :: 'h
  sa_port :: u16

record 'h addr_libs =
  to_socket_addrs :: "string \<Rightarrow> ('h socket_addr list, string) result"
  show_addr :: "'h socket_addr \<Rightarrow> string"
  parse_addr :: "string \<Rightarrow> ('h socket_addr, string) result"

text \<open>
  An address printed is read back as it was; it begins with a digit or a bracket, so not
  with \<open>http\<close>.
\<close>

definition addr_ok :: "('h, 'z) addr_libs_scheme \<Rightarrow> bool" where
  "addr_ok L \<longleftrightarrow>
     (\<forall>a. parse_addr L (show_addr L a) = Ok a \<and> \<not> starts_with (show_addr L a) ''http'')"

section \<open>Arguments\<close>

record server_args =
  arg_id :: u64
  arg_peers :: string
  arg_data_dir :: "string option"

section \<open>parse\_peers\<close>

definition in_quotes :: "string \<Rightarrow> string" where
  "in_quotes s = [CHR 0x27] @ s @ [CHR 0x27]"

definition parse_peer_entry ::
    "('h, 'z) addr_libs_scheme \<Rightarrow> string \<Rightarrow> (u64 \<times> 'h socket_addr, string) result" where
  "parse_peer_entry L peer_entry =
     (case split_on (CHR ''='') peer_entry of
        [id_str, addr_str] \<Rightarrow>
          bindR (map_err (\<lambda>e. ''Invalid node ID '' @ in_quotes id_str @ '' in peer '' @
                   in_quotes peer_entry @ '': '' @ show_int_error e) (parse_u64 id_str)) (\<lambda>node_id.
          bindR (map_err (\<lambda>e. ''Invalid address '' @ in_quotes addr_str @ '' in peer '' @
                   in_quotes peer_entry @ '': '' @ e) (to_socket_addrs L addr_str)) (\<lambda>addrs.
          bindR (ok_or (case addrs of [] \<Rightarrow> None | a # as \<Rightarrow> Some a)
                   (''Could not resolve address '' @ in_quotes addr_str @ '' in peer '' @
                    in_quotes peer_entry)) (\<lambda>addr.
          Ok (node_id, addr))))
      | parts \<Rightarrow> Err (''Invalid peer format '' @ in_quotes peer_entry @ '': expected ID=HOST:PORT''))"

fun parse_peer_list ::
    "('h, 'z) addr_libs_scheme \<Rightarrow> string list \<Rightarrow> (u64, 'h socket_addr) btree_map \<Rightarrow>
     ((u64, 'h socket_addr) btree_map, string) result" where
  "parse_peer_list L [] peers = Ok peers"
| "parse_peer_list L (e # es) peers =
     (let peer_entry = trim e in
      if peer_entry = [] then parse_peer_list L es peers
      else
        bindR (parse_peer_entry L peer_entry) (\<lambda>(node_id, addr).
          if bt_get peers node_id \<noteq> None
          then Err (''Duplicate node ID '' @ show_u64 node_id @ '' in peer list'')
          else parse_peer_list L es (bt_insert node_id addr peers)))"

definition parse_peers ::
    "('h, 'z) addr_libs_scheme \<Rightarrow> string \<Rightarrow> ((u64, 'h socket_addr) btree_map, string) result" where
  "parse_peers L peers_str =
     bindR (parse_peer_list L (split_on (CHR '','') peers_str) []) (\<lambda>peers.
       if peers = [] then Err ''Peer list is empty'' else Ok peers)"

section \<open>Lemmas\<close>

text \<open>Text that may stand for a host: printable ASCII without the separators.\<close>

definition host_text :: "string \<Rightarrow> bool" where
  "host_text s \<longleftrightarrow>
     (\<forall>c \<in> set s. 32 < byte c \<and> byte c < 128 \<and> c \<noteq> CHR ''='' \<and> c \<noteq> CHR '','')"

definition render_peer :: "u64 \<times> string \<Rightarrow> string" where
  "render_peer p = show_u64 (fst p) @ CHR ''='' # snd p"

lemma show_u64_host: "host_text (show_u64 w)"
  unfolding host_text_def show_u64_def
proof
  fix c
  assume "c \<in> set (show_nat (unat w))"
  then have "is_digit c" by (rule show_nat_digits)
  then show "32 < byte c \<and> byte c < 128 \<and> c \<noteq> CHR ''='' \<and> c \<noteq> CHR '',''"
    by (auto simp: is_digit_def byte_def)
qed

lemma host_not: "host_text s \<Longrightarrow> CHR ''='' \<notin> set s" "host_text s \<Longrightarrow> CHR '','' \<notin> set s"
  by (auto simp: host_text_def)

lemma trim_render: "host_text (snd p) \<Longrightarrow> trim (render_peer p) = render_peer p"
  using show_u64_host [of "fst p"]
  by (intro trim_no_ws) (auto simp: render_peer_def host_text_def byte_def)

lemma parse_peer_entry_render:
  assumes "host_text s" and "to_socket_addrs L s = Ok (a # as)"
  shows "parse_peer_entry L (render_peer (i, s)) = Ok (i, a)"
proof -
  have "split_on (CHR ''='') (render_peer (i, s)) = [show_u64 i, s]"
    using host_not(1) [OF show_u64_host [of i]] host_not(1) [OF assms(1)]
    by (simp add: render_peer_def split_on_append split_on_none)
  then show ?thesis by (simp add: parse_peer_entry_def assms(2))
qed

definition resolves ::
    "('h, 'z) addr_libs_scheme \<Rightarrow> (string \<Rightarrow> 'h socket_addr) \<Rightarrow> u64 \<times> string \<Rightarrow> bool" where
  "resolves L A p \<longleftrightarrow>
     host_text (snd p) \<and> (\<exists>as. to_socket_addrs L (snd p) = Ok (A (snd p) # as))"

lemma parse_peer_list_render:
  "\<forall>p \<in> set ps. resolves L A p \<Longrightarrow> bt_wf m \<Longrightarrow>
   (if distinct (map fst ps) \<and> set (map fst ps) \<inter> dom (bt_get m) = {}
    then \<exists>m'. parse_peer_list L (map render_peer ps) m = Ok m' \<and> bt_wf m' \<and>
           bt_get m' = bt_get m ++ map_of (map (\<lambda>(i, s). (i, A s)) ps)
    else \<exists>i. parse_peer_list L (map render_peer ps) m =
           Err (''Duplicate node ID '' @ show_u64 i @ '' in peer list''))"
proof (induction ps arbitrary: m)
  case Nil
  then show ?case by simp
next
  case (Cons p ps)
  obtain i s where p: "p = (i, s)" by fastforce
  have s: "host_text s" and r: "\<exists>as. to_socket_addrs L s = Ok (A s # as)"
    using Cons.prems(1) by (auto simp: resolves_def p)
  have ne: "render_peer p \<noteq> []" by (simp add: render_peer_def)
  have entry: "parse_peer_entry L (render_peer (i, s)) = Ok (i, A s)"
    using r parse_peer_entry_render [OF s] by blast
  have trimmed: "trim (render_peer (i, s)) = render_peer (i, s)"
    using trim_render [of p] s by (simp add: p)
  have step: "parse_peer_list L (map render_peer (p # ps)) m =
      (if bt_get m i \<noteq> None then Err (''Duplicate node ID '' @ show_u64 i @ '' in peer list'')
       else parse_peer_list L (map render_peer ps) (bt_insert i (A s) m))"
    using ne by (simp add: p trimmed entry)
  show ?case
  proof (cases "bt_get m i = None")
    case False
    then show ?thesis unfolding step by (auto simp: p)
  next
    case True
    have IH: "if distinct (map fst ps) \<and> set (map fst ps) \<inter> dom (bt_get (bt_insert i (A s) m)) = {}
        then \<exists>m'. parse_peer_list L (map render_peer ps) (bt_insert i (A s) m) = Ok m' \<and> bt_wf m' \<and>
           bt_get m' = bt_get (bt_insert i (A s) m) ++ map_of (map (\<lambda>(i, s). (i, A s)) ps)
        else \<exists>i'. parse_peer_list L (map render_peer ps) (bt_insert i (A s) m) =
           Err (''Duplicate node ID '' @ show_u64 i' @ '' in peer list'')"
      using Cons.prems by (intro Cons.IH) simp_all
    have cond: "distinct (map fst (p # ps)) \<and> set (map fst (p # ps)) \<inter> dom (bt_get m) = {} \<longleftrightarrow>
        distinct (map fst ps) \<and> set (map fst ps) \<inter> dom (bt_get (bt_insert i (A s) m)) = {}"
      using True by (auto simp: p)
    have upd: "(bt_get m)(i \<mapsto> A s) ++ map_of (map (\<lambda>(i, s). (i, A s)) ps) =
        bt_get m ++ map_of (map (\<lambda>(i, s). (i, A s)) (p # ps))" if "i \<notin> set (map fst ps)"
    proof -
      have "map_of (map (\<lambda>(i, s). (i, A s)) ps) i = None"
        using that by (force simp: map_of_eq_None_iff)
      then show ?thesis by (auto simp: p fun_eq_iff map_add_def split: option.split)
    qed
    show ?thesis
    proof (cases "distinct (map fst ps) \<and> set (map fst ps) \<inter> dom (bt_get (bt_insert i (A s) m)) = {}")
      case disj: True
      then have "i \<notin> set (map fst ps)" by auto
      with IH disj True upd show ?thesis unfolding step cond by auto
    next
      case disj: False
      with IH have "\<exists>i'. parse_peer_list L (map render_peer ps) (bt_insert i (A s) m) =
           Err (''Duplicate node ID '' @ show_u64 i' @ '' in peer list'')"
        by (simp only: if_False)
      with True show ?thesis unfolding step cond if_not_P [OF disj]
        by (simp del: append.simps)
    qed
  qed
qed

lemma render_peer_no_comma: "host_text (snd p) \<Longrightarrow> CHR '','' \<notin> set (render_peer p)"
  using host_not(2) [OF show_u64_host [of "fst p"]] host_not(2) [of "snd p"]
  by (auto simp: render_peer_def)

lemma split_rendered:
  assumes "ps \<noteq> []" and "\<forall>p \<in> set ps. resolves L A p"
  shows "split_on (CHR '','') (join_str '','' (map render_peer ps)) = map render_peer ps"
  using assms by (intro split_on_join) (auto simp: resolves_def render_peer_no_comma)

section \<open>Properties\<close>

text \<open>
  A peer list printed as \<open>id=host:port\<close> entries separated by commas is parsed back to
  the map from each id to the first address its host resolves to; when two entries have the
  same id, the result is the duplicate error instead, and never a map with one of them lost.
\<close>

theorem parse_peers_rendered:
  assumes "ps \<noteq> []" and "\<forall>p \<in> set ps. resolves L A p"
  shows "if distinct (map fst ps)
    then \<exists>m. parse_peers L (join_str '','' (map render_peer ps)) = Ok m \<and> bt_wf m \<and>
           bt_get m = map_of (map (\<lambda>(i, s). (i, A s)) ps)
    else \<exists>i. parse_peers L (join_str '','' (map render_peer ps)) =
           Err (''Duplicate node ID '' @ show_u64 i @ '' in peer list'')"
proof -
  note list = parse_peer_list_render [OF assms(2) bt_wf_Nil]
  show ?thesis
  proof (cases "distinct (map fst ps)")
    case True
    with list obtain m where m: "parse_peer_list L (map render_peer ps) [] = Ok m" "bt_wf m"
      "bt_get m = map_of (map (\<lambda>(i, s). (i, A s)) ps)" by auto
    have "m \<noteq> []"
    proof
      assume "m = []"
      with m(3) have "map (\<lambda>(i, s). (i, A s)) ps = []" by (metis bt_get_Nil map_of_eq_empty_iff)
      with assms(1) show False by simp
    qed
    with m True show ?thesis by (simp add: parse_peers_def split_rendered [OF assms])
  next
    case False
    with list obtain i where "parse_peer_list L (map render_peer ps) [] =
        Err (''Duplicate node ID '' @ show_u64 i @ '' in peer list'')" by auto
    with False show ?thesis by (auto simp: parse_peers_def split_rendered [OF assms])
  qed
qed

definition sample_addr_libs :: "string addr_libs" where
  "sample_addr_libs =
     \<lparr> to_socket_addrs = (\<lambda>s. Ok [\<lparr> sa_ip = s, sa_port = 6001 \<rparr>]),
       show_addr = sa_ip,
       parse_addr = (\<lambda>s. Ok \<lparr> sa_ip = s, sa_port = 6001 \<rparr>) \<rparr>"

lemma parse_peers_rendered_witness:
  "\<exists>m. parse_peers sample_addr_libs (join_str '','' (map render_peer [(1, ''h1:6001''), (2, ''h2:6001'')]))
         = Ok m \<and> bt_get m = map_of [(1, \<lparr> sa_ip = ''h1:6001'', sa_port = 6001 \<rparr>),
                                     (2, \<lparr> sa_ip = ''h2:6001'', sa_port = 6001 \<rparr>)]"
proof -
  have "\<forall>p \<in> set [(1, ''h1:6001''), (2, ''h2:6001'')].
      resolves sample_addr_libs (\<lambda>s. \<lparr> sa_ip = s, sa_port = 6001 \<rparr>) p"
    by (simp add: resolves_def sample_addr_libs_def host_text_def byte_def)
  from parse_peers_rendered [OF _ this] show ?thesis by auto
qed

end
