(* ===== verification/Grpc_Service.thy ===== *)
theory Grpc_Service
  imports Server_Cli Command_Handler
begin

text \<open>
  The gRPC service, \<^verbatim>\<open>crates/raft-server/src/server.rs\<close>, and the addresses it is started
  with (\<open>spawn_grpc_server\<close> of \<^verbatim>\<open>crates/raft-server/src/main.rs\<close>). A handler sends one
  command to the ready loop and waits for the oneshot it made: what the waiting yields is an
  argument, \<open>Answered\<close> with a value or \<open>Dropped\<close> when the sender is gone. A caller whose
  sender is kept and never used waits for ever; it is not given an outcome.
\<close>

section \<open>Messages and statuses\<close>

record put_request =
  pr_key :: string
  pr_value :: string

record get_request =
  gr_key :: string

datatype put_response = PutResponse

record get_response =
  gs_value :: string
  gs_found :: bool

text \<open>The codes of tonic the program tells apart; the others are numbered.\<close>

datatype grpc_code = FailedPrecondition | Internal | OtherCode nat

record status =
  st_code :: grpc_code
  st_message :: string
  st_metadata :: "string \<rightharpoonup> string"

definition status_internal :: "string \<Rightarrow> status" where
  "status_internal msg = \<lparr> st_code = Internal, st_message = msg, st_metadata = Map.empty \<rparr>"

definition status_failed_precondition :: "string \<Rightarrow> status" where
  "status_failed_precondition msg =
     \<lparr> st_code = FailedPrecondition, st_message = msg, st_metadata = Map.empty \<rparr>"

text \<open>
  Parsing a metadata value is tonic's, a field of \<open>grpc_libs\<close>; it accepts printable ASCII
  and keeps it, and printed numbers and addresses are printable ASCII.
\<close>

record 'h grpc_libs = "'h addr_libs" +
  parse_metadata :: "string \<Rightarrow> (string, string) result"

definition printable :: "string \<Rightarrow> bool" where
  "printable s \<longleftrightarrow> (\<forall>c \<in> set s. 32 \<le> byte c \<and> byte c < 127)"

definition grpc_ok :: "('h, 'z) grpc_libs_scheme \<Rightarrow> bool" where
  "grpc_ok L \<longleftrightarrow>
     addr_ok L \<and> (\<forall>a. printable (show_addr L a)) \<and>
     (\<forall>s. printable s \<longrightarrow> parse_metadata L s = Ok s)"

section \<open>The service\<close>

text \<open>
  \<open>cmd_tx\<close> is a channel to the ready loop: sending fails once the loop is gone. The
  oneshots made so far are counted, so that each call has its own.
\<close>

record 'h raft_kv_service =
  driver_alive :: bool
  cmd_queue :: "server_command list"
  oneshots :: nat
  peers_map :: "(u64, 'h socket_addr) btree_map"

datatype 'a awaited = Answered 'a | Dropped

definition make_oneshot :: "('h raft_kv_service, oneshot, status) op" where
  "make_oneshot s = (Ok (oneshots s), s\<lparr>oneshots := Suc (oneshots s)\<rparr>)"

definition send_cmd :: "server_command \<Rightarrow> ('h raft_kv_service, unit, status) op" where
  "send_cmd c s =
     (if driver_alive s then (Ok (), s\<lparr>cmd_queue := cmd_queue s @ [c]\<rparr>)
      else (Err (status_internal ''Raft driver channel closed''), s))"

definition insert_metadata ::
    "('h, 'z) grpc_libs_scheme \<Rightarrow> string \<Rightarrow> string \<Rightarrow> status \<Rightarrow> (status, 'e) result" where
  "insert_metadata L k v st =
     bindR (expect (parse_metadata L v)) (\<lambda>x.
     Ok (st\<lparr>st_metadata := (st_metadata st)(k \<mapsto> x)\<rparr>))"

definition redirect_status ::
    "('h, 'z) grpc_libs_scheme \<Rightarrow> (u64, 'h socket_addr) btree_map \<Rightarrow> string \<Rightarrow> (status, 'e) result" where
  "redirect_status L peers e =
     (let status = status_failed_precondition ''Not the leader'' in
      case strip_prefix ''Not leader: '' e of
        Some id_str \<Rightarrow>
          (case parse_u64 (trim id_str) of
             Ok leader_id \<Rightarrow>
               (case bt_get peers leader_id of
                  Some addr \<Rightarrow>
                    bindR (insert_metadata L ''x-raft-leader-id'' (show_u64 leader_id) status)
                      (insert_metadata L ''x-raft-leader-addr'' (show_addr L addr))
                | None \<Rightarrow> Ok status)
           | _ \<Rightarrow> Ok status)
      | None \<Rightarrow> Ok status)"

definition put_answer ::
    "('h, 'z) grpc_libs_scheme \<Rightarrow> (u64, 'h socket_addr) btree_map \<Rightarrow>
     (unit, string) result awaited \<Rightarrow> (put_response, status) result" where
  "put_answer L peers rx =
     (case rx of
        Answered (Ok u) \<Rightarrow> Ok PutResponse
      | Answered (Err e) \<Rightarrow>
          if starts_with e ''Not leader''
          then bindR (redirect_status L peers e) Err
          else Err (status_internal (''Raft error: '' @ e))
      | Answered Panic \<Rightarrow> Panic
      | Dropped \<Rightarrow> Err (status_internal ''Raft driver dropped callback''))"

definition service_put ::
    "('h, 'z) grpc_libs_scheme \<Rightarrow> put_request \<Rightarrow> (unit, string) result awaited \<Rightarrow>
     ('h raft_kv_service, put_response, status) op" where
  "service_put L req rx =
     bindO make_oneshot (\<lambda>tx.
     bindO (send_cmd (Rpc (RpcPut (pr_key req) (pr_value req) tx))) (\<lambda>_ s.
     (put_answer L (peers_map s) rx, s)))"

definition get_answer :: "string option awaited \<Rightarrow> (get_response, status) result" where
  "get_answer rx =
     (case rx of
        Answered (Some val) \<Rightarrow> Ok \<lparr> gs_value = val, gs_found = True \<rparr>
      | Answered None \<Rightarrow> Ok \<lparr> gs_value = [], gs_found = False \<rparr>
      | Dropped \<Rightarrow> Err (status_internal ''Raft driver dropped callback''))"

definition service_get ::
    "get_request \<Rightarrow> string option awaited \<Rightarrow> ('h raft_kv_service, get_response, status) op" where
  "service_get req rx =
     bindO make_oneshot (\<lambda>tx.
     bindO (send_cmd (Rpc (RpcGet (gr_key req) tx))) (\<lambda>_ s.
     (get_answer rx, s)))"

section \<open>Starting the service\<close>

text \<open>
  \<open>port + 1000\<close> on \<open>u16\<close>: \<open>checks\<close> says whether the build checks arithmetic (a debug build
  does and panics, a release build wraps).
\<close>

definition grpc_port :: "bool \<Rightarrow> 'h socket_addr \<Rightarrow> ('h socket_addr, 'e) result" where
  "grpc_port checks a =
     (if checks \<and> 2 ^ 16 \<le> unat (sa_port a) + 1000 then Panic
      else Ok (a\<lparr>sa_port := sa_port a + 1000\<rparr>))"

fun rpc_peers_map ::
    "bool \<Rightarrow> (u64, 'h socket_addr) btree_map \<Rightarrow> ((u64, 'h socket_addr) btree_map, 'e) result" where
  "rpc_peers_map checks [] = Ok []"
| "rpc_peers_map checks ((i, a) # ps) =
     bindR (grpc_port checks a) (\<lambda>b.
     bindR (rpc_peers_map checks ps) (\<lambda>qs. Ok ((i, b) # qs)))"

text \<open>The address served and the service, with the channel of the ready loop.\<close>

definition spawn_grpc_server ::
    "bool \<Rightarrow> 'h socket_addr \<Rightarrow> (u64, 'h socket_addr) btree_map \<Rightarrow>
     ('h socket_addr \<times> 'h raft_kv_service, 'e) result" where
  "spawn_grpc_server checks my_addr peers =
     bindR (grpc_port checks my_addr) (\<lambda>grpc_addr.
     bindR (rpc_peers_map checks peers) (\<lambda>rpc_peers.
     Ok (grpc_addr,
         \<lparr> driver_alive = True, cmd_queue = [], oneshots = 0, peers_map = rpc_peers \<rparr>)))"

section \<open>Lemmas\<close>

lemma show_u64_plain: "\<forall>c \<in> set (show_u64 w). 48 \<le> byte c \<and> byte c \<le> 57"
  using show_nat_digits by (auto simp: show_u64_def is_digit_def)

lemma show_u64_printable: "printable (show_u64 w)"
  unfolding printable_def using show_u64_plain [of w] by fastforce

lemma trim_show_u64 [simp]: "trim (show_u64 w) = show_u64 w"
  using show_u64_plain [of w] by (intro trim_no_ws) fastforce

lemma insert_metadata_ok:
  "grpc_ok L \<Longrightarrow> printable v \<Longrightarrow>
   insert_metadata L k v st = Ok (st\<lparr>st_metadata := (st_metadata st)(k \<mapsto> v)\<rparr>)"
  by (simp add: insert_metadata_def grpc_ok_def)

text \<open>The status a follower's answer becomes.\<close>

definition leader_status ::
    "('h, 'z) grpc_libs_scheme \<Rightarrow> u64 \<Rightarrow> 'h socket_addr option \<Rightarrow> status" where
  "leader_status L leader_id known =
     \<lparr> st_code = FailedPrecondition, st_message = ''Not the leader'',
       st_metadata =
         (case known of
            Some a \<Rightarrow> [''x-raft-leader-id'' \<mapsto> show_u64 leader_id, ''x-raft-leader-addr'' \<mapsto> show_addr L a]
          | None \<Rightarrow> Map.empty) \<rparr>"

lemma not_leader_prefix: "strip_prefix ''Not leader: '' (not_leader_error l) = Some (show_u64 l)"
  by (simp only: not_leader_error_def strip_prefix_append)

lemma redirect_status_leader:
  assumes "grpc_ok L"
  shows "redirect_status L peers (not_leader_error l) = Ok (leader_status L l (bt_get peers l))"
proof -
  have pr: "printable (show_addr L a)" for a using assms by (simp add: grpc_ok_def)
  show ?thesis
    unfolding redirect_status_def Let_def not_leader_prefix
    by (simp add: leader_status_def insert_metadata_ok [OF assms] pr show_u64_printable
        status_failed_precondition_def split: option.split)
qed

lemma put_answer_not_leader:
  assumes "grpc_ok L"
  shows "put_answer L peers (Answered (Err (not_leader_error l))) =
    Err (leader_status L l (bt_get peers l))"
proof -
  have "not_leader_error l = ''Not leader'' @ '': '' @ show_u64 l"
    by (simp add: not_leader_error_def)
  then have "starts_with (not_leader_error l) ''Not leader''"
    using starts_with_append [of "''Not leader''" "'': '' @ show_u64 l"] by (simp only:)
  then show ?thesis
    by (simp add: put_answer_def redirect_status_leader [OF assms])
qed

lemma service_put_eq:
  "service_put L req rx s =
     (if driver_alive s
      then (put_answer L (peers_map s) rx,
            s\<lparr>oneshots := Suc (oneshots s),
              cmd_queue := cmd_queue s @ [Rpc (RpcPut (pr_key req) (pr_value req) (oneshots s))]\<rparr>)
      else (Err (status_internal ''Raft driver channel closed''), s\<lparr>oneshots := Suc (oneshots s)\<rparr>))"
  by (simp add: service_put_def make_oneshot_def send_cmd_def bindO_def)

lemma service_get_eq:
  "service_get req rx s =
     (if driver_alive s
      then (get_answer rx,
            s\<lparr>oneshots := Suc (oneshots s),
              cmd_queue := cmd_queue s @ [Rpc (RpcGet (gr_key req) (oneshots s))]\<rparr>)
      else (Err (status_internal ''Raft driver channel closed''), s\<lparr>oneshots := Suc (oneshots s)\<rparr>))"
  by (simp add: service_get_def make_oneshot_def send_cmd_def bindO_def)

lemma grpc_port_Ok: "grpc_port checks a = Ok b \<Longrightarrow> b = a\<lparr>sa_port := sa_port a + 1000\<rparr>"
  by (auto simp: grpc_port_def split: if_splits)

lemma rpc_peers_map_get:
  "rpc_peers_map checks ps = Ok qs \<Longrightarrow>
   bt_get qs i = map_option (\<lambda>a. a\<lparr>sa_port := sa_port a + 1000\<rparr>) (bt_get ps i)"
proof (induction checks ps arbitrary: qs rule: rpc_peers_map.induct)
  case (1 checks)
  then show ?case by (auto simp: bt_get_def)
next
  case (2 checks j a ps)
  then show ?case by (auto simp: bt_get_def dest: grpc_port_Ok)
qed

section \<open>Properties\<close>

text \<open>
  C29: a gRPC PUT on a node that is not the leader. The service hands the ready loop one
  command, under a oneshot of its own; the loop's handler answers that oneshot, and the
  answer becomes the status \<open>FailedPrecondition\<close> with, when the leader is a configured peer,
  the id of the leader and its peer address with 1000 added to the port as metadata.
\<close>

theorem put_on_follower_names_leader:
  fixes d :: "('t, 'm, 'r, 'y) app_state_scheme"
  assumes "grpc_ok L" and "driver_alive s"
    and "rpc_peers_map checks peers = Ok (peers_map s)"
    and "\<not> is_leader R (raft_node_of d)"
  shows "\<exists>c ans.
    cmd_queue (snd (service_put L req (Answered ans) s)) = cmd_queue s @ [c] \<and>
    handle R c d = (Ok (), d\<lparr>replies := replies d @ [PutReply (oneshots s) ans]\<rparr>) \<and>
    fst (service_put L req (Answered ans) s) =
      Err (let leader_id = raw_leader_id R (raw (raft_node_of d)) in
        \<lparr> st_code = FailedPrecondition, st_message = ''Not the leader'',
          st_metadata =
            (case bt_get peers leader_id of
               Some a \<Rightarrow> [''x-raft-leader-id'' \<mapsto> show_u64 leader_id,
                 ''x-raft-leader-addr'' \<mapsto> show_addr L (a\<lparr>sa_port := sa_port a + 1000\<rparr>)]
             | None \<Rightarrow> Map.empty) \<rparr>)"
proof -
  let ?l = "raw_leader_id R (raw (raft_node_of d))"
  let ?c = "Rpc (RpcPut (pr_key req) (pr_value req) (oneshots s))"
  let ?ans = "Err (not_leader_error ?l) :: (unit, string) result"
  have "fst (service_put L req (Answered ?ans) s) = Err (leader_status L ?l (bt_get (peers_map s) ?l))"
    using assms(2) by (simp add: service_put_eq put_answer_not_leader [OF assms(1)])
  moreover have "handle R ?c d = (Ok (), d\<lparr>replies := replies d @ [PutReply (oneshots s) ?ans]\<rparr>)"
    using assms(4) by (simp add: Let_def get_state_def send_reply_def)
  moreover have "cmd_queue (snd (service_put L req (Answered ?ans) s)) = cmd_queue s @ [?c]"
    using assms(2) by (simp add: service_put_eq)
  moreover have "leader_status L ?l (bt_get (peers_map s) ?l) =
      (let leader_id = ?l in
        \<lparr> st_code = FailedPrecondition, st_message = ''Not the leader'',
          st_metadata =
            (case bt_get peers leader_id of
               Some a \<Rightarrow> [''x-raft-leader-id'' \<mapsto> show_u64 leader_id,
                 ''x-raft-leader-addr'' \<mapsto> show_addr L (a\<lparr>sa_port := sa_port a + 1000\<rparr>)]
             | None \<Rightarrow> Map.empty) \<rparr>)"
    by (cases "bt_get peers ?l") (simp_all add: leader_status_def Let_def rpc_peers_map_get [OF assms(3)])
  ultimately show ?thesis by metis
qed

text \<open>
  What a caller of the service sees, on every outcome: success exactly when the loop
  is there and answered with success; \<open>FailedPrecondition\<close> only for an answer that begins
  with \<open>Not leader\<close>; every other failure, of the channel, of the callback or of the
  proposal, is \<open>Internal\<close> with its own message. A GET reports a key that is not there as
  not found and not as an error. No answer of the loop makes a handler panic.
\<close>

theorem service_outcomes:
  assumes "grpc_ok L"
  shows "(fst (service_put L req rx s) = Ok PutResponse \<longleftrightarrow> driver_alive s \<and> rx = Answered (Ok ())) \<and>
    (\<forall>st. fst (service_put L req rx s) = Err st \<longrightarrow>
       (st_code st = FailedPrecondition \<longleftrightarrow>
          driver_alive s \<and> (\<exists>e. rx = Answered (Err e) \<and> starts_with e ''Not leader'')) \<and>
       (st_code st = FailedPrecondition \<or>
          st = status_internal
            (if \<not> driver_alive s then ''Raft driver channel closed''
             else case rx of Answered (Err e) \<Rightarrow> ''Raft error: '' @ e
                  | _ \<Rightarrow> ''Raft driver dropped callback''))) \<and>
    (rx \<noteq> Answered Panic \<longrightarrow> fst (service_put L req rx s) \<noteq> Panic) \<and>
    fst (service_get greq grx s) =
      (if \<not> driver_alive s then Err (status_internal ''Raft driver channel closed'')
       else case grx of Dropped \<Rightarrow> Err (status_internal ''Raft driver dropped callback'')
            | Answered v \<Rightarrow> Ok \<lparr> gs_value = (case v of None \<Rightarrow> [] | Some x \<Rightarrow> x), gs_found = (v \<noteq> None) \<rparr>)"
proof -
  have redirect: "\<exists>st. redirect_status L (peers_map s) e = (Ok st :: (status, status) result) \<and>
      st_code st = FailedPrecondition" for e
  proof -
    have "printable (show_addr L a)" for a using assms by (simp add: grpc_ok_def)
    then show ?thesis
      by (auto simp: redirect_status_def Let_def insert_metadata_ok [OF assms] show_u64_printable
          status_failed_precondition_def split: option.split result.split)
  qed
  have put: "(fst (service_put L req rx s) = Ok PutResponse \<longleftrightarrow> driver_alive s \<and> rx = Answered (Ok ())) \<and>
    (\<forall>st. fst (service_put L req rx s) = Err st \<longrightarrow>
       (st_code st = FailedPrecondition \<longleftrightarrow>
          driver_alive s \<and> (\<exists>e. rx = Answered (Err e) \<and> starts_with e ''Not leader'')) \<and>
       (st_code st = FailedPrecondition \<or>
          st = status_internal
            (if \<not> driver_alive s then ''Raft driver channel closed''
             else case rx of Answered (Err e) \<Rightarrow> ''Raft error: '' @ e
                  | _ \<Rightarrow> ''Raft driver dropped callback''))) \<and>
    (rx \<noteq> Answered Panic \<longrightarrow> fst (service_put L req rx s) \<noteq> Panic)"
  proof (cases "\<exists>e. rx = Answered (Err e)")
    case True
    then obtain e where "rx = Answered (Err e)" by blast
    with redirect [of e] show ?thesis
      by (auto simp: service_put_eq put_answer_def status_internal_def)
  next
    case False
    then show ?thesis
      by (auto simp: service_put_eq put_answer_def status_internal_def
          split: awaited.splits result.splits)
  qed
  have "fst (service_get greq grx s) =
      (if \<not> driver_alive s then Err (status_internal ''Raft driver channel closed'')
       else case grx of Dropped \<Rightarrow> Err (status_internal ''Raft driver dropped callback'')
            | Answered v \<Rightarrow> Ok \<lparr> gs_value = (case v of None \<Rightarrow> [] | Some x \<Rightarrow> x), gs_found = (v \<noteq> None) \<rparr>)"
    by (simp add: service_get_eq get_answer_def split: awaited.split option.split)
  with put show ?thesis by blast
qed

section \<open>An instance\<close>

text \<open>Hosts of one machine: an address is printed as \<open>127.0.0.1:<port>\<close>.\<close>

definition sample_parse_addr :: "string \<Rightarrow> (unit socket_addr, string) result" where
  "sample_parse_addr s =
     (case strip_prefix ''127.0.0.1:'' s of
        Some p \<Rightarrow> bindR (map_err show_int_error (parse_uint (2 ^ 16) p)) (\<lambda>n.
          Ok \<lparr> sa_ip = (), sa_port = of_nat n \<rparr>)
      | None \<Rightarrow> Err ''invalid socket address syntax'')"

definition sample_grpc_libs :: "unit grpc_libs" where
  "sample_grpc_libs =
     \<lparr> to_socket_addrs = (\<lambda>s. bindR (sample_parse_addr s) (\<lambda>a. Ok [a])),
       show_addr = (\<lambda>a. ''127.0.0.1:'' @ show_nat (unat (sa_port a))),
       parse_addr = sample_parse_addr,
       parse_metadata = (\<lambda>s. if printable s then Ok s else Err ''invalid metadata value'') \<rparr>"

lemma sample_parse_show:
  "sample_parse_addr (''127.0.0.1:'' @ show_nat (unat (p :: u16))) = Ok \<lparr> sa_ip = (), sa_port = p \<rparr>"
  using unsigned_less [where ?'a = nat, of p]
  by (simp only: sample_parse_addr_def strip_prefix_append)
    (simp add: parse_uint_show_nat)

lemma printable_append: "printable (s @ t) \<longleftrightarrow> printable s \<and> printable t"
  by (auto simp: printable_def)

lemma show_nat_printable: "printable (show_nat n)"
  unfolding printable_def using show_nat_digits [of _ n] by (fastforce simp: is_digit_def)

lemma sample_grpc_ok: "grpc_ok sample_grpc_libs"
proof -
  have "parse_addr sample_grpc_libs (show_addr sample_grpc_libs a) = Ok a" for a
    using sample_parse_show [of "sa_port a"] by (simp add: sample_grpc_libs_def)
  moreover have "\<not> starts_with (show_addr sample_grpc_libs a) ''http''" for a
    by (simp add: sample_grpc_libs_def starts_with_def)
  moreover have "printable (show_addr sample_grpc_libs a)" for a
  proof -
    have "printable ''127.0.0.1:''" by (simp add: printable_def byte_def)
    then show ?thesis by (simp add: sample_grpc_libs_def printable_append show_nat_printable del: append.simps)
  qed
  ultimately show ?thesis
    by (simp add: grpc_ok_def addr_ok_def sample_grpc_libs_def)
qed

definition sample_addr :: "nat \<Rightarrow> unit socket_addr" where
  "sample_addr p = \<lparr> sa_ip = (), sa_port = of_nat p \<rparr>"

definition sample_service :: "unit raft_kv_service" where
  "sample_service = \<lparr> driver_alive = True, cmd_queue = [], oneshots = 0,
     peers_map = [(1, sample_addr 7001), (2, sample_addr 7002)] \<rparr>"

lemma put_on_follower_names_leader_witness:
  "let d = sample_app (sample_raw_leader\<lparr>sr_role := Follower, sr_leader := 2\<rparr>) Map.empty;
       req = \<lparr> pr_key = ''k'', pr_value = ''v'' \<rparr> in
   \<exists>c ans st. handle (sample_raft_libs (\<lambda>_. [])) c d =
       (Ok (), d\<lparr>replies := replies d @ [PutReply 0 ans]\<rparr>) \<and>
     fst (service_put sample_grpc_libs req (Answered ans) sample_service) = Err st \<and>
     st_metadata st ''x-raft-leader-id'' = Some ''2'' \<and>
     st_metadata st ''x-raft-leader-addr'' = Some ''127.0.0.1:7002''"
proof -
  let ?d = "sample_app (sample_raw_leader\<lparr>sr_role := Follower, sr_leader := 2\<rparr>) Map.empty"
  let ?R = "sample_raft_libs (\<lambda>_. [])"
  let ?req = "\<lparr> pr_key = ''k'', pr_value = ''v'' \<rparr>"
  have foll: "\<not> is_leader ?R (raft_node_of ?d)" "raw_leader_id ?R (raw (raft_node_of ?d)) = 2"
    by (simp_all add: is_leader_def sample_raft_defs sample_app_def sample_node_def sample_raw_leader_def)
  have peers: "rpc_peers_map True [(1, sample_addr 6001), (2, sample_addr 6002)] =
      Ok (peers_map sample_service)"
    by (simp add: grpc_port_def sample_addr_def sample_service_def)
  have digits: "digit 0 = CHR ''0''" "digit 2 = CHR ''2''" "digit 7 = CHR ''7''"
    unfolding byte_eq_iff [symmetric] by (simp_all add: byte_digit) (simp_all add: byte_def)
  have texts: "show_u64 2 = ''2''" "show_addr sample_grpc_libs (sample_addr 7002) = ''127.0.0.1:7002''"
    by (simp_all add: show_u64_def show_nat.simps digits sample_grpc_libs_def sample_addr_def)
  have alive: "driver_alive sample_service" "oneshots sample_service = 0"
    by (simp_all add: sample_service_def)
  have leader: "bt_get [(1 :: u64, sample_addr 6001), (2, sample_addr 6002)] 2 = Some (sample_addr 6002)"
    "(sample_addr 6002)\<lparr>sa_port := sa_port (sample_addr 6002) + 1000\<rparr> = sample_addr 7002"
    by (simp_all add: bt_get_def sample_addr_def)
  from put_on_follower_names_leader [OF sample_grpc_ok alive(1) peers foll(1), of ?req]
  obtain c ans where "handle ?R c ?d = (Ok (), ?d\<lparr>replies := replies ?d @ [PutReply 0 ans]\<rparr>)"
    "fst (service_put sample_grpc_libs ?req (Answered ans) sample_service) =
      Err \<lparr> st_code = FailedPrecondition, st_message = ''Not the leader'',
            st_metadata = [''x-raft-leader-id'' \<mapsto> ''2'', ''x-raft-leader-addr'' \<mapsto> ''127.0.0.1:7002''] \<rparr>"
    by (auto simp only: foll(2) Let_def leader option.case texts alive)
  then show ?thesis by (fastforce simp: Let_def)
qed

lemma service_outcomes_witness:
  "fst (service_put sample_grpc_libs \<lparr> pr_key = ''k'', pr_value = ''v'' \<rparr> Dropped sample_service) =
     Err (status_internal ''Raft driver dropped callback'')"
proof -
  let ?r = "fst (service_put sample_grpc_libs \<lparr> pr_key = ''k'', pr_value = ''v'' \<rparr> Dropped sample_service)"
  note o = service_outcomes [OF sample_grpc_ok, where rx = Dropped and s = sample_service
      and req = "\<lparr> pr_key = ''k'', pr_value = ''v'' \<rparr>" and greq = "\<lparr> gr_key = [] \<rparr>" and grx = Dropped]
  have alive: "driver_alive sample_service" by (simp add: sample_service_def)
  show ?thesis
  proof (cases ?r)
    case (Ok x)
    with o show ?thesis by (cases x) simp
  next
    case (Err st)
    with o alive show ?thesis by auto
  next
    case Panic
    with o show ?thesis by simp
  qed
qed

end
