(* ===== verification/Server_Main.thy ===== *)
theory Server_Main
  imports Raft_Driver Tui Grpc_Service
begin

text \<open>
  The start of the server, \<open>main\<close>, \<open>create_storage\<close> and \<open>spawn_raft_loop\<close> of
  \<^verbatim>\<open>crates/raft-server/src/main.rs\<close>: which parts are made, in which order, from which
  arguments. Making the directory, starting a thread and the order in which a \<open>HashMap\<close> gives
  its keys are fields of \<open>os_libs\<close>; opening the log file, which ends the process when it
  fails, is left out.
\<close>

record 'e os_libs =
  create_dir_all :: "string \<Rightarrow> (unit, string) result"
  start_thread :: "string \<Rightarrow> (unit, string) result"
  hash_order :: "u64 list \<Rightarrow> u64 list"
  show_spawn_error :: "'e \<Rightarrow> string"

definition create_storage ::
    "('t, 'm, 'z) store_libs_scheme \<Rightarrow> ('e, 'y) os_libs_scheme \<Rightarrow> string option \<Rightarrow> u64 \<Rightarrow>
     (('t, 'm) raft_storage, string) result" where
  "create_storage L os data_dir node_id =
     (if data_dir = Some '':memory:'' then Ok (storage_new L)
      else
        let path = (case data_dir of Some s \<Rightarrow> s | None \<Rightarrow> ''./data/node-'' @ show_u64 node_id) in
        bindR (create_dir_all os path) (\<lambda>_. storage_new_with_disk L path))"

text \<open>
  The thread of the ready loop builds its driver and runs it; what it runs from is the
  value. The ends of the channels are not told apart.
\<close>

definition spawn_raft_loop ::
    "('e, 'y) os_libs_scheme \<Rightarrow> u64 \<Rightarrow> ('t, 'm, 'r) raft_node \<Rightarrow> node \<Rightarrow> 'x \<Rightarrow>
     (('t, 'm, 'r, 'x) loop_state, string) result" where
  "spawn_raft_loop os node_id raft_node kv_state net =
     bindR (start_thread os (''raft-ready-loop-'' @ show_u64 node_id)) (\<lambda>_.
     bindR (expect (build
       (set_shutdown_rx () (set_transport net (set_state_tx () (set_msg_rx () (set_cmd_rx ()
         (set_kv_node kv_state (set_raft_node raft_node builder_new))))))))) (\<lambda>parts.
     Ok (driver_init (d_raft_node parts) (d_kv_node parts) (d_transport parts))))"

record ('t, 'm, 'r, 'c, 'h) server =
  srv_driver :: "('t, 'm, 'r, 'c tcp_transport) loop_state"
  srv_app :: tui_app
  srv_grpc_addr :: "'h socket_addr"
  srv_service :: "'h raft_kv_service"

definition server_start ::
    "('t, 'm, 'r, 'z) raft_libs_scheme \<Rightarrow> ('c, 'e, 'x) tcp_libs_scheme \<Rightarrow> ('h, 'w) addr_libs_scheme \<Rightarrow>
     ('e, 'y) os_libs_scheme \<Rightarrow> bool \<Rightarrow> server_args \<Rightarrow> (('t, 'm, 'r, 'c, 'h) server, string) result" where
  "server_start L T A os checks args =
     bindR (parse_peers A (arg_peers args)) (\<lambda>peers.
     bindR (ok_or (bt_get peers (arg_id args))
       (''Node ID '' @ show_u64 (arg_id args) @ '' not found in peer list'')) (\<lambda>my_addr.
     bindR (create_storage L os (arg_data_dir args) (arg_id args)) (\<lambda>storage.
     bindR (map_err (show_raft_error L)
       (raft_node_new L (arg_id args) (hash_order os (bt_keys peers)) storage)) (\<lambda>raft_node.
     bindR (map_err (show_spawn_error os) (tcp_new T (arg_id args) peers)) (\<lambda>net.
     bindR (spawn_grpc_server checks my_addr peers) (\<lambda>(grpc_addr, service).
     bindR (spawn_raft_loop os (arg_id args) raft_node node_new net) (\<lambda>driver.
     Ok \<lparr> srv_driver = driver, srv_app = app_new (arg_id args),
          srv_grpc_addr = grpc_addr, srv_service = service \<rparr>)))))))"

section \<open>Properties\<close>

lemma spawn_raft_loop_Ok:
  "spawn_raft_loop os i n k x = Ok d \<Longrightarrow> d = driver_init n k x"
  by (auto simp: spawn_raft_loop_def build_def set_raft_node_def set_kv_node_def set_cmd_rx_def
      set_msg_rx_def set_state_tx_def set_transport_def set_shutdown_rx_def builder_new_def)

text \<open>
  C35: what a server that started consists of. Its id is one of the peers; it listens for
  gRPC on its own peer port plus 1000 and sends to exactly the other peers; its storage is
  the one chosen by the arguments, initialised with the peers as voters; and its key-value
  map is empty, whatever snapshot that storage holds, with nobody waiting for an answer.
\<close>

theorem server_start_spec:
  assumes "server_start L T A os checks args = Ok srv"
  shows "\<exists>peers my_addr storage.
    parse_peers A (arg_peers args) = Ok peers \<and> bt_get peers (arg_id args) = Some my_addr \<and>
    create_storage L os (arg_data_dir args) (arg_id args) = Ok storage \<and>
    storage_initialize_with_conf_state L
      (conf_state_default\<lparr>voters := hash_order os (bt_keys peers)\<rparr>) storage =
      (Ok (), raft_store (raft_node_of (srv_driver srv))) \<and>
    callbacks (raft_node_of (srv_driver srv)) = Map.empty \<and>
    kv_abs (kv_node (srv_driver srv)) = Map.empty \<and>
    (\<forall>p. tcp_has_peer (loop_transport (srv_driver srv)) p \<longleftrightarrow>
       p \<noteq> arg_id args \<and> bt_get peers p \<noteq> None) \<and>
    srv_grpc_addr srv = my_addr\<lparr>sa_port := sa_port my_addr + 1000\<rparr>"
proof -
  obtain peers my_addr storage n t d where
    parts: "parse_peers A (arg_peers args) = Ok peers" "bt_get peers (arg_id args) = Some my_addr"
    "create_storage L os (arg_data_dir args) (arg_id args) = Ok storage"
    and n: "raft_node_new L (arg_id args) (hash_order os (bt_keys peers)) storage = Ok n"
    and t: "tcp_new T (arg_id args) peers = Ok t"
    and g: "spawn_grpc_server checks my_addr peers =
      (Ok (srv_grpc_addr srv, srv_service srv) :: (_, string) result)"
    and d: "spawn_raft_loop os (arg_id args) n node_new t = Ok (srv_driver srv)"
    using assms by (cases "bt_get (case parse_peers A (arg_peers args) of Ok p \<Rightarrow> p) (arg_id args)")
      (auto simp: server_start_def split: prod.splits)
  note drv = spawn_raft_loop_Ok [OF d]
  have "storage_initialize_with_conf_state L
      (conf_state_default\<lparr>voters := hash_order os (bt_keys peers)\<rparr>) storage =
      (Ok (), raft_store n) \<and> callbacks n = Map.empty"
    using n by (auto simp: raft_node_new_def Let_def split: prod.splits)
  moreover have "tcp_has_peer t p \<longleftrightarrow> p \<noteq> arg_id args \<and> bt_get peers p \<noteq> None" for p
    using tcp_new_peers [OF t] by (auto simp: bt_get_eq map_of_eq_None_iff)
  moreover have "srv_grpc_addr srv = my_addr\<lparr>sa_port := sa_port my_addr + 1000\<rparr>"
    using g by (auto simp: spawn_grpc_server_def dest: grpc_port_Ok)
  ultimately show ?thesis using parts by (simp add: drv driver_init_def)
qed

text \<open>A server of two nodes, for the witnesses.\<close>

definition sample_tcp :: "(message list, string) tcp_libs" where
  "sample_tcp = chan_libs.extend sample_chan (tcp_libs.fields [] (\<lambda>name. Ok ()))"

definition sample_os :: "string os_libs" where
  "sample_os = \<lparr> create_dir_all = (\<lambda>p. Ok ()), start_thread = (\<lambda>n. Ok ()), hash_order = rev,
     show_spawn_error = (\<lambda>e. e) \<rparr>"

definition sample_args :: "string option \<Rightarrow> server_args" where
  "sample_args dir = \<lparr> arg_id = 2, arg_peers = ''1=127.0.0.1:6001,2=127.0.0.1:6002'',
     arg_data_dir = dir \<rparr>"

lemma sample_server_peers:
  "parse_peers sample_addr_libs (arg_peers (sample_args dir)) =
     Ok [(1, \<lparr> sa_ip = ''127.0.0.1:6001'', sa_port = 6001 \<rparr>), (2, \<lparr> sa_ip = ''127.0.0.1:6002'', sa_port = 6001 \<rparr>)]"
proof -
  have "trim ''1=127.0.0.1:6001'' = ''1=127.0.0.1:6001''" "trim ''2=127.0.0.1:6002'' = ''2=127.0.0.1:6002''"
    by (intro trim_no_ws; simp add: byte_def)+
  moreover have "parse_u64 ''1'' = Ok 1" "parse_u64 ''2'' = Ok 2"
    by (simp_all add: parse_u64_def is_digit_def byte_def)
  ultimately show ?thesis
    by (simp add: sample_args_def parse_peers_def parse_peer_entry_def sample_addr_libs_def bt_get_def)
qed

lemma sample_server_starts:
  assumes "create_storage L sample_os dir 2 = Ok storage"
    and "\<And>ids. \<exists>n. raft_node_new L 2 ids storage = Ok n"
  shows "\<exists>srv. server_start L sample_tcp sample_addr_libs sample_os True (sample_args dir) = Ok srv"
proof -
  let ?a = "\<lparr> sa_ip = ''127.0.0.1:6002'', sa_port = 6001 \<rparr>"
  let ?peers = "[(1, \<lparr> sa_ip = ''127.0.0.1:6001'', sa_port = 6001 \<rparr>), (2 :: u64, ?a)]"
  have args: "arg_id (sample_args dir) = 2" "arg_data_dir (sample_args dir) = dir"
    by (simp_all add: sample_args_def)
  obtain n where n: "raft_node_new L 2 (hash_order sample_os (bt_keys ?peers)) storage = Ok n"
    using assms(2) by blast
  obtain t where t: "tcp_new sample_tcp 2 ?peers = Ok t"
    by (simp add: sample_tcp_def tcp_new_def tcp_libs.defs chan_libs.defs)
  obtain g where g: "spawn_grpc_server True ?a ?peers = (Ok g :: (_, string) result)"
    by (simp add: spawn_grpc_server_def grpc_port_def)
  obtain d where d: "spawn_raft_loop sample_os 2 n node_new t = Ok d"
    by (simp add: sample_os_def spawn_raft_loop_def build_def set_raft_node_def set_kv_node_def set_cmd_rx_def
      set_msg_rx_def set_state_tx_def set_transport_def set_shutdown_rx_def builder_new_def)
  have mine: "bt_get ?peers 2 = Some ?a" by (simp add: bt_get_def)
  show ?thesis
    unfolding server_start_def args sample_server_peers
    by (cases g) (simp only: bindR.simps mine ok_or.simps assms(1) n map_err.simps t g d prod.case
        result.inject ex_simps simp_thms)
qed

theorem server_start_spec_witness:
  "\<exists>srv. server_start (sample_raft_libs (\<lambda>_. [])) sample_tcp sample_addr_libs sample_os True
       (sample_args (Some '':memory:'')) = Ok srv \<and>
     kv_abs (kv_node (srv_driver srv)) = Map.empty \<and>
     tcp_has_peer (loop_transport (srv_driver srv)) 1 \<and> \<not> tcp_has_peer (loop_transport (srv_driver srv)) 2"
proof -
  let ?L = "sample_raft_libs (\<lambda>_. [])" and ?args = "sample_args (Some '':memory:'')"
  have "create_storage ?L sample_os (Some '':memory:'') 2 = Ok (storage_new ?L)"
    by (simp add: create_storage_def)
  moreover have "\<exists>n. raft_node_new ?L 2 ids (storage_new ?L) = Ok n" for ids
    by (simp add: raft_node_new_def storage_new_def sample_raft_defs sample_store_libs_def raft_node_config_def Let_def on_mem_def)
  ultimately obtain srv where
    srv: "server_start ?L sample_tcp sample_addr_libs sample_os True ?args = Ok srv"
    using sample_server_starts by blast
  from server_start_spec [OF srv] obtain peers where
    p: "parse_peers sample_addr_libs (arg_peers ?args) = Ok peers"
    "kv_abs (kv_node (srv_driver srv)) = Map.empty"
    "\<forall>p. tcp_has_peer (loop_transport (srv_driver srv)) p \<longleftrightarrow> p \<noteq> arg_id ?args \<and> bt_get peers p \<noteq> None"
    by blast
  have id: "arg_id ?args = 2" by (simp add: sample_args_def)
  have "bt_get peers 1 \<noteq> None" using p(1) by (auto simp: sample_server_peers bt_get_def)
  with srv p(2,3) show ?thesis unfolding id by auto
qed

end
