(* ===== verification/Server_Process.thy ===== *)
theory Server_Process
  imports Server_Main Driver_Safety
begin

text \<open>
  The running server, from the point where \<open>main\<close> of \<^verbatim>\<open>crates/raft-server/src/main.rs\<close> has
  started everything to its return: three threads, the ready loop, the interface and the
  gRPC service, that share the channel of the commands, and the channels of the updates and
  of the shutdown signal between two of them. Their turns interleave in any order.

  The parts are those of their theories; what is added is who holds which end of a channel.
\<close>

section \<open>State\<close>

text \<open>
  \<open>sp_queue\<close> is the command channel, which the interface and the service both send to;
  \<open>sp_seen\<close> counts the updates the interface has taken; \<open>sp_ended\<close> is what the thread of the
  ready loop has returned and \<open>sp_tui_result\<close> what the loop of the interface has, if they
  have; \<open>sp_listening\<close> says whether anything still holds a sender of the message channel.
\<close>

record ('t, 'm, 'r, 'c, 'h) process =
  sp_loop :: "('t, 'm, 'r, 'c tcp_transport) loop_state"
  sp_ended :: "(unit, raft_loop_error) result option"
  sp_queue :: "server_command list"
  sp_shutdown :: "unit list"
  sp_listening :: bool
  sp_tui :: tui_app
  sp_seen :: nat
  sp_tui_result :: "(unit, string) result option"
  sp_grpc :: "'h raft_kv_service"

definition thread_result :: "('a, 'e) result \<Rightarrow> (unit, 'e) result" where
  "thread_result r = bindR r (\<lambda>_. Ok ())"

text \<open>When the terminal cannot be set up, the loop of the interface does not start.\<close>

definition process_start ::
    "(unit, string) result \<Rightarrow> ('t, 'm, 'r, 'c, 'h) server \<Rightarrow> ('t, 'm, 'r, 'c, 'h) process" where
  "process_start setup srv =
     \<lparr>sp_loop = srv_driver srv, sp_ended = None, sp_queue = [], sp_shutdown = [], sp_listening = True,
      sp_tui = srv_app srv, sp_seen = 0,
      sp_tui_result = (if setup = Ok () then None else Some setup), sp_grpc = srv_service srv\<rparr>"

section \<open>Steps\<close>

text \<open>
  What the ready loop can receive. The interface and the service hold senders of the command
  channel, and \<open>main\<close> keeps the interface until the loop has ended, so that channel is never
  found closed.
\<close>

fun receivable :: "loop_input \<Rightarrow> ('t, 'm, 'r, 'c, 'h) process \<Rightarrow> bool" where
  "receivable (InCommand c) p \<longleftrightarrow> sp_queue p \<noteq> [] \<and> hd (sp_queue p) = c"
| "receivable InCommandClosed p \<longleftrightarrow> False"
| "receivable (InMessage m) p \<longleftrightarrow> True"
| "receivable InMessageClosed p \<longleftrightarrow> \<not> sp_listening p"
| "receivable InShutdown p \<longleftrightarrow> sp_shutdown p \<noteq> []"
| "receivable InTimeout p \<longleftrightarrow> True"

fun received :: "loop_input \<Rightarrow> ('t, 'm, 'r, 'c, 'h) process \<Rightarrow> ('t, 'm, 'r, 'c, 'h) process" where
  "received (InCommand c) p = p\<lparr>sp_queue := tl (sp_queue p)\<rparr>"
| "received InShutdown p = p\<lparr>sp_shutdown := tl (sp_shutdown p)\<rparr>"
| "received _ p = p"

text \<open>When the loop ends its receivers are dropped, with what is in the channels.\<close>

definition loop_over ::
    "(loop_control, raft_loop_error) result \<Rightarrow> ('t, 'm, 'r, 'c, 'h) process \<Rightarrow>
     ('t, 'm, 'r, 'c, 'h) process" where
  "loop_over r p =
     p\<lparr>sp_ended := Some (thread_result r), sp_queue := [], sp_shutdown := [],
       sp_tui := (sp_tui p)\<lparr>cmd_tx := (cmd_tx (sp_tui p))\<lparr>rx_alive := False\<rparr>,
                            shutdown_tx := (shutdown_tx (sp_tui p))\<lparr>rx_alive := False\<rparr>\<rparr>,
       sp_grpc := (sp_grpc p)\<lparr>driver_alive := False\<rparr>\<rparr>"

definition loop_moves ::
    "loop_input \<Rightarrow> (loop_control, raft_loop_error) result \<Rightarrow>
     ('t, 'm, 'r, 'c tcp_transport) loop_state \<Rightarrow> ('t, 'm, 'r, 'c, 'h) process \<Rightarrow>
     ('t, 'm, 'r, 'c, 'h) process" where
  "loop_moves inp r s p =
     (let p = (received inp p)\<lparr>sp_loop := s\<rparr> in if r = Ok Continue then p else loop_over r p)"

definition newly_sent :: "'a list \<Rightarrow> 'a list \<Rightarrow> 'a list" where
  "newly_sent before after = drop (length before) after"

definition tui_moves ::
    "(bool, string) result \<Rightarrow> tui_app \<Rightarrow> ('t, 'm, 'r, 'c, 'h) process \<Rightarrow>
     ('t, 'm, 'r, 'c, 'h) process" where
  "tui_moves r a p =
     p\<lparr>sp_tui := a, sp_seen := length (updates (sp_loop p)),
       sp_tui_result := (if r = Ok False then None else Some (thread_result r)),
       sp_queue := sp_queue p @ newly_sent (sent (cmd_tx (sp_tui p))) (sent (cmd_tx a)),
       sp_shutdown := sp_shutdown p @ newly_sent (sent (shutdown_tx (sp_tui p))) (sent (shutdown_tx a))\<rparr>"

definition grpc_moves ::
    "'h raft_kv_service \<Rightarrow> ('t, 'm, 'r, 'c, 'h) process \<Rightarrow> ('t, 'm, 'r, 'c, 'h) process" where
  "grpc_moves g p =
     p\<lparr>sp_grpc := g, sp_queue := sp_queue p @ newly_sent (cmd_queue (sp_grpc p)) (cmd_queue g)\<rparr>"

inductive process_step ::
    "('t, 'm, 'r, 'z) raft_libs_scheme \<Rightarrow>
     (u64 \<Rightarrow> message \<Rightarrow> ('c tcp_transport, unit, transport_error) op) \<Rightarrow>
     ('h, 'w) grpc_libs_scheme \<Rightarrow> bool \<Rightarrow>
     ('t, 'm, 'r, 'c, 'h) process \<Rightarrow> ('t, 'm, 'r, 'c, 'h) process \<Rightarrow> bool"
  for L tsend G checks where
  loop: "sp_ended p = None \<Longrightarrow> receivable inp p \<Longrightarrow>
    loop_turn L tsend (inp, due) (sp_loop p) = (r, s) \<Longrightarrow>
    process_step L tsend G checks p (loop_moves inp r s p)"
| tui: "sp_tui_result p = None \<Longrightarrow> ti_arrived i = drop (sp_seen p) (updates (sp_loop p)) \<Longrightarrow>
    tui_turn checks i (sp_tui p) = (r, a) \<Longrightarrow>
    process_step L tsend G checks p (tui_moves r a p)"
| put: "service_put G req rx (sp_grpc p) = (r, g) \<Longrightarrow>
    process_step L tsend G checks p (grpc_moves g p)"
| get: "service_get req rx (sp_grpc p) = (r', g) \<Longrightarrow>
    process_step L tsend G checks p (grpc_moves g p)"
| listener_ends: "process_step L tsend G checks p (p\<lparr>sp_listening := False\<rparr>)"

inductive process_reachable ::
    "('t, 'm, 'r, 'z) raft_libs_scheme \<Rightarrow>
     (u64 \<Rightarrow> message \<Rightarrow> ('c tcp_transport, unit, transport_error) op) \<Rightarrow>
     ('h, 'w) grpc_libs_scheme \<Rightarrow> bool \<Rightarrow>
     ('t, 'm, 'r, 'c, 'h) process \<Rightarrow> ('t, 'm, 'r, 'c, 'h) process \<Rightarrow> bool"
  for L tsend G checks p0 where
  started: "process_reachable L tsend G checks p0 p0"
| step: "process_reachable L tsend G checks p0 p \<Longrightarrow> process_step L tsend G checks p p' \<Longrightarrow>
    process_reachable L tsend G checks p0 p'"

inductive_cases process_stepE: "process_step L tsend G checks p p'"

section \<open>The end of main\<close>

text \<open>
  What \<open>main\<close> returns, if it does: \<open>run_tui\<close> restores the terminal and returns; then the
  thread of the ready loop is joined, which waits until it has ended; an error of the
  interface comes before one of the loop. A panic ends the process.
\<close>

definition main_returns ::
    "('t, 'm, 'r, 'z) raft_libs_scheme \<Rightarrow> (unit, string) result \<Rightarrow>
     ('t, 'm, 'r, 'c, 'h) process \<Rightarrow> (unit, string) result option" where
  "main_returns L restore p =
     (case sp_tui_result p of
        None \<Rightarrow> None
      | Some Panic \<Rightarrow> Some Panic
      | Some tui_result \<Rightarrow>
          let loop_result = bindR restore (\<lambda>_. tui_result) in
          map_option (\<lambda>raft_result.
            if raft_result = Panic then Panic
            else bindR loop_result (\<lambda>_. map_err (show_raft_loop_error L) raft_result)) (sp_ended p))"

section \<open>What a turn of each thread does to the channels\<close>

lemma apply_state_update_channels [simp]:
  "cmd_tx (apply_state_update u a) = cmd_tx a" "shutdown_tx (apply_state_update u a) = shutdown_tx a"
  by (cases u; simp add: add_system_message_def)+

lemma apply_updates_channels [simp]:
  "cmd_tx (fold apply_state_update us a) = cmd_tx a"
  "shutdown_tx (fold apply_state_update us a) = shutdown_tx a"
  by (induction us arbitrary: a) simp_all

text \<open>
  A key sends nothing, or one TUI command while the loop receives; it never signals the
  shutdown itself.
\<close>

definition key_sends :: "tui_app \<Rightarrow> tui_app \<Rightarrow> bool" where
  "key_sends a a' \<longleftrightarrow>
     shutdown_tx a' = shutdown_tx a \<and> rx_alive (cmd_tx a') = rx_alive (cmd_tx a) \<and>
     (\<exists>cs. sent (cmd_tx a') = sent (cmd_tx a) @ map User cs \<and> (\<not> rx_alive (cmd_tx a) \<longrightarrow> cs = []))"

lemma key_sends_nothing: "cmd_tx a' = cmd_tx a \<Longrightarrow> shutdown_tx a' = shutdown_tx a \<Longrightarrow> key_sends a a'"
  by (auto simp: key_sends_def)

lemma submit_command_sends:
  assumes "submit_command a = (r, a')"
  shows "key_sends a a'"
proof -
  have one: "key_sends a a'" if "channel_send (User c) (cmd_tx a) = (q, tx)" "cmd_tx a' = tx"
    "shutdown_tx a' = shutdown_tx a" for c q tx
  proof (cases "rx_alive (cmd_tx a)")
    case True
    with that have "cmd_tx a' = (cmd_tx a)\<lparr>sent := sent (cmd_tx a) @ map User [c]\<rparr>"
      by (auto simp: channel_send_def)
    with True that(3) show ?thesis unfolding key_sends_def by (intro conjI exI [of _ "[c]"]) simp_all
  next
    case False
    with that show ?thesis by (auto simp: channel_send_def intro: key_sends_nothing)
  qed
  show ?thesis
  proof (cases "\<exists>c. parse_command (input a) = Some c \<and> trim (input a) \<notin> {[], ''quit'', ''exit''}")
    case False
    then show ?thesis
      using assms
      by (auto simp: submit_command_def Let_def add_system_message_def
          split: if_splits option.splits intro: key_sends_nothing)
  next
    case True
    then obtain c where c: "parse_command (input a) = Some c" "trim (input a) \<notin> {[], ''quit'', ''exit''}"
      by blast
    obtain q tx where q: "channel_send (User c) (cmd_tx a) = (q, tx)" by fastforce
    have "cmd_tx a' = tx \<and> shutdown_tx a' = shutdown_tx a"
      using assms c q
      by (cases q) (auto simp: submit_command_def Let_def add_system_message_def add_command_history_def)
    with one [OF q] show ?thesis by blast
  qed
qed

lemma handle_key_sends:
  assumes "handle_key_event key a = (r, a')"
  shows "key_sends a a'"
  using assms
  by (auto simp: handle_key_event_def bindO_def liftR_def
      split: tui_mode.splits key_code.splits if_splits result.splits
      intro: key_sends_nothing dest: submit_command_sends)

text \<open>A turn of the interface.\<close>

definition turn_sends :: "(bool, string) result \<Rightarrow> tui_app \<Rightarrow> tui_app \<Rightarrow> bool" where
  "turn_sends r a a' \<longleftrightarrow>
     rx_alive (cmd_tx a') = rx_alive (cmd_tx a) \<and>
     (\<exists>cs. sent (cmd_tx a') = sent (cmd_tx a) @ map User cs \<and> (\<not> rx_alive (cmd_tx a) \<longrightarrow> cs = [])) \<and>
     rx_alive (shutdown_tx a') = rx_alive (shutdown_tx a) \<and>
     sent (shutdown_tx a') = sent (shutdown_tx a) @ (if r = Ok True then [()] else []) \<and>
     (r = Ok True \<longrightarrow> rx_alive (shutdown_tx a))"

lemma tui_turn_sends:
  assumes "tui_turn checks i a = (r, a')"
  shows "turn_sends r a a'"
proof -
  let ?a = "drain_updates (a\<lparr>state_rx := state_rx a @ ti_arrived i\<rparr>)"
  have same: "cmd_tx ?a = cmd_tx a" "shutdown_tx ?a = shutdown_tx a"
    by (simp_all add: drain_updates_def)
  have stay: "turn_sends q a b" if "key_sends ?a b" "q \<noteq> Ok True" for q b
    using that by (simp add: turn_sends_def key_sends_def same)
  have none: "turn_sends q a ?a" if "q \<noteq> Ok True" for q
    using that by (intro stay key_sends_nothing) simp_all
  obtain d where d: "bindR (ui checks (ti_layout i) ?a) (\<lambda>v. ti_draw i) = d" by simp
  have run: "tui_turn checks i a =
      bindO (liftR d) (\<lambda>_. bindO (liftR (ti_poll i)) (\<lambda>polled.
        case polled of
          None \<Rightarrow> retO False
        | Some key \<Rightarrow>
            bindO (handle_key_event key) (\<lambda>action a.
              case action of
                KeyContinue \<Rightarrow> (Ok False, a)
              | KeyQuit \<Rightarrow>
                  (case channel_send () (shutdown_tx a) of
                     (r, tx) \<Rightarrow> (bindR r (\<lambda>_. Ok True), a\<lparr>shutdown_tx := tx\<rparr>))))) ?a"
    by (simp add: tui_turn_def Let_def d [symmetric])
  show ?thesis
  proof (cases "\<exists>key. d = Ok () \<and> ti_poll i = Ok (Some key)")
    case False
    then have "r \<noteq> Ok True \<and> a' = ?a"
      using assms unfolding run
      by (cases d; cases "ti_poll i") (auto split: option.splits)
    with none show ?thesis by blast
  next
    case True
    then obtain key where key: "d = Ok ()" "ti_poll i = Ok (Some key)" by blast
    obtain q b where b: "handle_key_event key ?a = (q, b)" by fastforce
    note sends = handle_key_sends [OF b]
    show ?thesis
    proof (cases "q = Ok KeyQuit")
      case True
      with assms b key sends show ?thesis
        unfolding run
        by (auto simp: channel_send_def key_sends_def turn_sends_def same split: if_splits)
    next
      case False
      with assms b key have "r \<noteq> Ok True \<and> a' = b"
        unfolding run by (cases q) (auto split: key_action.splits)
      with sends stay show ?thesis by blast
    qed
  qed
qed

text \<open>A call of the service sends its command, under a new oneshot, while the loop receives.\<close>

lemma service_put_sends:
  assumes "service_put G req rx s = (r, s')"
  shows "driver_alive s' = driver_alive s \<and> oneshots s' = Suc (oneshots s) \<and>
    cmd_queue s' = cmd_queue s @
      (if driver_alive s then [Rpc (RpcPut (pr_key req) (pr_value req) (oneshots s))] else [])"
  using assms by (auto simp: service_put_def make_oneshot_def send_cmd_def bindO_def split: if_splits)

lemma service_get_sends:
  assumes "service_get req rx s = (r, s')"
  shows "driver_alive s' = driver_alive s \<and> oneshots s' = Suc (oneshots s) \<and>
    cmd_queue s' = cmd_queue s @
      (if driver_alive s then [Rpc (RpcGet (gr_key req) (oneshots s))] else [])"
  using assms by (auto simp: service_get_def make_oneshot_def send_cmd_def bindO_def split: if_splits)

lemma newly_sent_append [simp]: "newly_sent xs (xs @ ys) = ys" "newly_sent xs xs = []" "newly_sent [] ys = ys"
  by (simp_all add: newly_sent_def)

text \<open>The loop returns \<open>Ok\<close> for the shutdown signal only.\<close>

lemma loop_turn_stop:
  assumes "loop_turn L tsend (inp, due) s = (Ok Stop, s')"
  shows "inp = InShutdown"
proof -
  have "r \<noteq> Ok Stop" if "after_input L tsend due Continue t = (r, t')" for r t t'
    using that by (auto simp: after_input_def bindO_def split: if_splits prod.splits result.splits)
  with assms show ?thesis
    by (cases inp) (auto simp: loop_turn_eq bindO_eq_Ok split: loop_control.splits)
qed

section \<open>Invariants of the process\<close>

text \<open>
  Who may end whom: a channel is open as long as the loop runs; the shutdown signal is sent
  by quitting and by nothing else, and waits until the loop takes it; the loop returns
  \<open>Ok\<close> only for it.
\<close>

definition signals_inv :: "('t, 'm, 'r, 'c, 'h) process \<Rightarrow> bool" where
  "signals_inv p \<longleftrightarrow>
     rx_alive (cmd_tx (sp_tui p)) = (sp_ended p = None) \<and>
     rx_alive (shutdown_tx (sp_tui p)) = (sp_ended p = None) \<and>
     driver_alive (sp_grpc p) = (sp_ended p = None) \<and>
     (sp_tui_result p = Some (Ok ()) \<longleftrightarrow> sent (shutdown_tx (sp_tui p)) \<noteq> []) \<and>
     (sp_ended p = None \<longrightarrow> sp_shutdown p = sent (shutdown_tx (sp_tui p))) \<and>
     (sp_ended p = Some (Ok ()) \<longrightarrow> sp_tui_result p = Some (Ok ()))"

text \<open>
  Every call of the gRPC service is in exactly one place while the loop runs: in the
  channel, waiting for its entry, or answered.
\<close>

definition queued :: "('t, 'm, 'r, 'c, 'h) process \<Rightarrow> oneshot list" where
  "queued p = concat (map command_oneshots (sp_queue p))"

definition calls_inv ::
    "('t, 'm, 'r, 'z) raft_libs_scheme \<Rightarrow> ('t, 'm, 'r, 'c, 'h) process \<Rightarrow> bool" where
  "calls_inv L p \<longleftrightarrow>
     distinct (queued p) \<and> set (queued p) \<subseteq> {..<oneshots (sp_grpc p)} \<and>
     caller_inv L ({..<oneshots (sp_grpc p)} - set (queued p)) (sp_loop p) \<and>
     (sp_ended p = None \<longrightarrow>
        callers_kept L ({..<oneshots (sp_grpc p)} - set (queued p)) (sp_loop p))"

lemma signals_started:
  assumes "rx_alive (cmd_tx (srv_app srv))" and "shutdown_tx (srv_app srv) = \<lparr>rx_alive = True, sent = []\<rparr>"
    and "driver_alive (srv_service srv)"
  shows "signals_inv (process_start setup srv)"
  using assms by (simp add: signals_inv_def process_start_def)

lemma signals_step:
  assumes "process_step L tsend G checks p p'" and inv: "signals_inv p"
  shows "signals_inv p'"
  using assms(1)
proof cases
  case (loop inp due r s)
  let ?q = "received inp p"
  have same: "sp_tui ?q = sp_tui p" "sp_tui_result ?q = sp_tui_result p" "sp_grpc ?q = sp_grpc p"
    "inp \<noteq> InShutdown \<longrightarrow> sp_shutdown ?q = sp_shutdown p" "sp_ended ?q = sp_ended p"
    by (cases inp; simp)+
  have down: "r = Ok Stop" if "inp = InShutdown"
    using loop(4) that by (simp add: loop_turn_eq after_input_def)
  show ?thesis
  proof (cases "r = Ok Continue")
    case True
    with down same(4) have "sp_shutdown ?q = sp_shutdown p" by blast
    with True inv show ?thesis
      unfolding loop(1) by (simp add: loop_moves_def signals_inv_def same)
  next
    case False
    have "sp_tui_result p = Some (Ok ())" if "thread_result r = Ok ()"
    proof -
      have "r = Ok Stop"
        using that False by (cases r) (auto simp: thread_result_def intro: loop_control.exhaust)
      then have "inp = InShutdown" using loop(4) loop_turn_stop by fastforce
      with loop(2,3) inv show ?thesis by (auto simp: signals_inv_def)
    qed
    with False inv show ?thesis
      unfolding loop(1) by (simp add: loop_moves_def loop_over_def signals_inv_def same Let_def)
  qed
next
  case (tui i r a)
  have r: "turn_sends r (sp_tui p) a" by (rule tui_turn_sends [OF tui(4)])
  have "thread_result r = Ok () \<longleftrightarrow> r = Ok True \<or> r = Ok False"
    by (cases r) (auto simp: thread_result_def)
  with r inv tui(2) show ?thesis
    unfolding tui(1) by (auto simp: signals_inv_def tui_moves_def turn_sends_def)
qed (use inv in \<open>auto simp: signals_inv_def grpc_moves_def dest: service_put_sends service_get_sends\<close>)

lemma oneshots_of_user [simp]: "concat (map command_oneshots (map User cs)) = []"
  by (induction cs) simp_all

lemma calls_new:
  assumes inv: "calls_inv L p" and alive: "driver_alive (sp_grpc p) = (sp_ended p = None)"
    and g: "oneshots g = Suc (oneshots (sp_grpc p))"
      "cmd_queue g = cmd_queue (sp_grpc p) @ (if driver_alive (sp_grpc p) then [c] else [])"
    and c: "command_oneshots c = [oneshots (sp_grpc p)]"
  shows "calls_inv L (grpc_moves g p)"
proof -
  let ?n = "oneshots (sp_grpc p)" and ?p = "grpc_moves g p"
  have loop: "sp_loop ?p = sp_loop p" "sp_ended ?p = sp_ended p" "oneshots (sp_grpc ?p) = Suc ?n"
    by (simp_all add: grpc_moves_def g)
  have fresh: "?n \<notin> set (queued p)" using inv by (auto simp: calls_inv_def)
  show ?thesis
  proof (cases "sp_ended p = None")
    case True
    then have q: "queued ?p = queued p @ [?n]"
      by (simp add: grpc_moves_def queued_def g(2) alive c)
    have "{..<Suc ?n} - set (queued ?p) = {..<?n} - set (queued p)" unfolding q by auto
    moreover have "set (queued ?p) \<subseteq> {..<Suc ?n}" "distinct (queued ?p)"
      using inv fresh unfolding q calls_inv_def by auto
    ultimately show ?thesis
      using inv unfolding calls_inv_def loop by (simp only:) blast
  next
    case False
    with alive have "\<not> driver_alive (sp_grpc p)" by simp
    then have q: "queued ?p = queued p" by (simp add: grpc_moves_def queued_def g(2))
    have "caller_inv L ({..<Suc ?n} - set (queued p)) (sp_loop p)"
      by (rule caller_inv_mono) (use inv in \<open>auto simp: calls_inv_def\<close>)
    with inv False q show ?thesis unfolding calls_inv_def loop by (auto simp: less_Suc_eq)
  qed
qed

lemma calls_loop:
  assumes L: "bincode_ok L" "prost_ok L" "inj (uuid_v4 L)"
    and inv: "calls_inv L p" and run: "sp_ended p = None" "receivable inp p"
      "loop_turn L tsend (inp, due) (sp_loop p) = (r, s)"
  shows "calls_inv L (loop_moves inp r s p)"
proof -
  let ?n = "oneshots (sp_grpc p)" and ?p = "(received inp p)\<lparr>sp_loop := s\<rparr>"
  let ?U = "{..<?n} - set (queued p)"
  have split: "queued p = input_oneshots (inp, due) @ queued ?p"
    using run(2) by (cases inp; cases "sp_queue p") (auto simp: queued_def)
  then have U: "?U \<union> set (input_oneshots (inp, due)) = {..<?n} - set (queued ?p)"
    "set (input_oneshots (inp, due)) \<inter> ?U = {}"
    using inv by (auto simp: calls_inv_def)
  have new: "caller_inv L ({..<?n} - set (queued ?p)) s" "callers_kept L ({..<?n} - set (queued ?p)) s"
    using caller_inv_turn [OF L(1) _ U(2) run(3)] callers_kept_turn [OF L(2,3) _ run(3), of ?U] inv run(1)
    unfolding calls_inv_def U(1) by blast+
  have same: "sp_grpc ?p = sp_grpc p" "sp_loop ?p = s" by (cases inp; simp)+
  have cont: "calls_inv L ?p"
    using new inv split unfolding calls_inv_def same by auto
  show ?thesis
  proof (cases "r = Ok Continue")
    case True
    with cont show ?thesis by (simp add: loop_moves_def)
  next
    case False
    have "caller_inv L {..<?n} s" by (rule caller_inv_mono [OF new(1)]) blast
    with False show ?thesis
      by (simp add: loop_moves_def Let_def calls_inv_def loop_over_def queued_def same)
  qed
qed

lemma calls_step:
  assumes "bincode_ok L" and "prost_ok L" and "inj (uuid_v4 L)"
    and "process_step L tsend G checks p p'" and inv: "calls_inv L p" and sig: "signals_inv p"
  shows "calls_inv L p'"
  using assms(4)
proof cases
  case (loop inp due r s)
  show ?thesis unfolding loop(1) by (rule calls_loop [OF assms(1-3) inv loop(2-4)])
next
  case (tui i r a)
  obtain cs where "sent (cmd_tx a) = sent (cmd_tx (sp_tui p)) @ map User cs"
    using tui_turn_sends [OF tui(4)] by (auto simp: turn_sends_def)
  then have "queued p' = queued p" "sp_loop p' = sp_loop p" "sp_grpc p' = sp_grpc p" "sp_ended p' = sp_ended p"
    by (simp_all add: tui(1) queued_def tui_moves_def del: map_map concat_map_singleton)
  with inv show ?thesis by (simp add: calls_inv_def)
next
  case (put req rx r g)
  have alive: "driver_alive (sp_grpc p) = (sp_ended p = None)" using sig by (simp add: signals_inv_def)
  show ?thesis
    unfolding put(1)
    by (rule calls_new [OF inv alive, where c = "Rpc (RpcPut (pr_key req) (pr_value req) (oneshots (sp_grpc p)))"])
      (use service_put_sends [OF put(2)] in simp_all)
next
  case (get req rx r g)
  have alive: "driver_alive (sp_grpc p) = (sp_ended p = None)" using sig by (simp add: signals_inv_def)
  show ?thesis
    unfolding get(1)
    by (rule calls_new [OF inv alive, where c = "Rpc (RpcGet (gr_key req) (oneshots (sp_grpc p)))"])
      (use service_get_sends [OF get(2)] in simp_all)
next
  case listener_ends
  with inv show ?thesis by (simp add: calls_inv_def queued_def)
qed

lemma signals_reachable:
  "process_reachable L tsend G checks p0 p \<Longrightarrow> signals_inv p0 \<Longrightarrow> signals_inv p"
  by (induction rule: process_reachable.induct) (auto intro: signals_step)

lemma calls_reachable:
  assumes "bincode_ok L" and "prost_ok L" and "inj (uuid_v4 L)"
  shows "process_reachable L tsend G checks p0 p \<Longrightarrow> signals_inv p0 \<Longrightarrow> calls_inv L p0 \<Longrightarrow> calls_inv L p"
  by (induction rule: process_reachable.induct)
    (auto intro: calls_step [OF assms] dest: signals_reachable)

section \<open>From the start of the server\<close>

lemma server_start_parts:
  assumes "server_start L T A os checks args = Ok srv"
  obtains n x ids storage where "create_storage L os (arg_data_dir args) (arg_id args) = Ok storage"
    "raft_node_new L (arg_id args) ids storage = Ok n"
    "srv_driver srv = driver_init n node_new x" "srv_app srv = app_new (arg_id args)"
    "driver_alive (srv_service srv)" "cmd_queue (srv_service srv) = []" "oneshots (srv_service srv) = 0"
proof -
  obtain peers my_addr storage n x where
    st: "create_storage L os (arg_data_dir args) (arg_id args) = Ok storage"
    and n: "raft_node_new L (arg_id args) (hash_order os (bt_keys peers)) storage = Ok n"
    and g: "spawn_grpc_server checks my_addr peers =
      (Ok (srv_grpc_addr srv, srv_service srv) :: (_, string) result)"
    and d: "spawn_raft_loop os (arg_id args) n node_new x = Ok (srv_driver srv)"
    and app: "srv_app srv = app_new (arg_id args)"
    using assms by (cases "bt_get (case parse_peers A (arg_peers args) of Ok p \<Rightarrow> p) (arg_id args)")
      (auto simp: server_start_def split: prod.splits)
  from g obtain q where "\<lparr>driver_alive = True, cmd_queue = [], oneshots = 0, peers_map = q\<rparr> = srv_service srv"
    by (auto simp: spawn_grpc_server_def)
  then have "driver_alive (srv_service srv)" "cmd_queue (srv_service srv) = []" "oneshots (srv_service srv) = 0"
    by (simp_all add: \<open>_ = srv_service srv\<close> [symmetric])
  with that [OF st n spawn_raft_loop_Ok [OF d] app] show ?thesis by blast
qed

lemma started_invariants:
  assumes "server_start L T A os checks args = Ok srv"
  shows "signals_inv (process_start setup srv)" "calls_inv L (process_start setup srv)"
proof -
  from assms obtain n x ids storage where n: "raft_node_new L (arg_id args) ids storage = Ok n"
    and srv: "srv_driver srv = driver_init n node_new x" "srv_app srv = app_new (arg_id args)"
      "driver_alive (srv_service srv)" "oneshots (srv_service srv) = 0"
    by (rule server_start_parts)
  show "signals_inv (process_start setup srv)"
    using srv by (simp add: signals_inv_def process_start_def app_new_def)
  have "callbacks n = Map.empty" using n by (auto simp: raft_node_new_def Let_def split: prod.splits)
  with srv callbacks_inv_new [OF n] show "calls_inv L (process_start setup srv)"
    by (simp add: calls_inv_def process_start_def queued_def caller_inv_def callers_kept_def
        driver_init_def node_new_def)
qed

text \<open>Without the signal, and with the channels open, working libraries keep the loop going.\<close>

lemma sent_only_grows:
  assumes "process_step L tsend G checks p p'" and "sent (shutdown_tx (sp_tui p')) = []"
  shows "sent (shutdown_tx (sp_tui p)) = []"
  using assms(1)
proof cases
  case (loop inp due r s)
  have "sp_tui (received inp p) = sp_tui p" by (cases inp) simp_all
  with loop(1) assms(2) show ?thesis
    by (simp add: loop_moves_def loop_over_def Let_def split: if_splits)
next
  case (tui i r a)
  with tui_turn_sends [OF tui(4)] assms(2) show ?thesis
    by (auto simp: tui_moves_def turn_sends_def)
qed (use assms(2) in \<open>simp_all add: grpc_moves_def\<close>)

lemma loop_goes_on:
  assumes L: "apply_ok L V D" "crate_ok L" "prost_ok L" "returns tsend"
    and start: "loop_inv L V D (sp_loop p0)" "sp_ended p0 = None" "signals_inv p0"
    and "process_reachable L tsend G checks p0 p"
  shows "sp_listening p \<Longrightarrow> sent (shutdown_tx (sp_tui p)) = [] \<Longrightarrow>
    sp_ended p = None \<and> loop_inv L V D (sp_loop p)"
  using assms(8)
proof induction
  case started
  with start show ?case by blast
next
  case (step p p')
  have listening: "sp_listening p"
    using step.hyps(2) step.prems(1)
  proof cases
    case (loop inp due r s)
    have "sp_listening (received inp p) = sp_listening p" by (cases inp) simp_all
    with loop(1) step.prems(1) show ?thesis
      by (simp add: loop_moves_def loop_over_def Let_def split: if_splits)
  qed (simp_all add: tui_moves_def grpc_moves_def)
  have quiet: "sent (shutdown_tx (sp_tui p)) = []" by (rule sent_only_grows [OF step.hyps(2) step.prems(2)])
  from step.IH [OF listening quiet] have inv: "sp_ended p = None" "loop_inv L V D (sp_loop p)" by auto
  from step.hyps(2) show ?case
  proof cases
    case (loop inp due r s)
    have sig: "signals_inv p" by (rule signals_reachable [OF step.hyps(1) start(3)])
    then have "sp_shutdown p = []" using inv(1) quiet by (simp add: signals_inv_def)
    with loop(3) listening have inp: "inp \<noteq> InShutdown" "inp \<noteq> InCommandClosed" "inp \<noteq> InMessageClosed"
      by auto
    obtain s' where run: "driver_run L tsend [(inp, due)] (sp_loop p) =
        (loop_outcome (map fst [(inp, due)]), s')" "loop_inv L V D s'"
      using driver_run_outcome [OF L inv(2)] by blast
    have "loop_outcome (map fst [(inp, due)]) = Ok Continue" using inp by (cases inp) simp_all
    with run(1) loop(4) have "r = Ok Continue \<and> s = s'"
      by (cases r) (auto split: loop_control.splits)
    moreover have "sp_ended (received inp p) = sp_ended p" by (cases inp) simp_all
    ultimately show ?thesis using run(2) inv(1) unfolding loop(1) by (simp add: loop_moves_def)
  qed (use inv in \<open>simp_all add: tui_moves_def grpc_moves_def\<close>)
qed

section \<open>Properties\<close>

text \<open>
  C5: no call is lost and none is answered twice. In every state a started server reaches,
  under every interleaving of its threads and whatever crate, storage and network do: while
  the ready loop runs, each gRPC call made so far is in exactly one place, once: in the
  command channel, waiting under a proposal, or answered.
\<close>

theorem calls_accounted_for:
  assumes "bincode_ok L" and "prost_ok L" and "inj (uuid_v4 L)"
    and "server_start L T A os checks args = Ok srv"
    and "process_reachable L tsend G checks (process_start setup srv) p" and "sp_ended p = None"
  shows "{..<oneshots (sp_grpc p)} = set (queued p) \<union> ran (callbacks (raft_node_of (sp_loop p))) \<union>
      reply_to ` set (replies (sp_loop p)) \<and>
    set (queued p) \<inter> ran (callbacks (raft_node_of (sp_loop p))) = {} \<and>
    set (queued p) \<inter> reply_to ` set (replies (sp_loop p)) = {} \<and>
    ran (callbacks (raft_node_of (sp_loop p))) \<inter> reply_to ` set (replies (sp_loop p)) = {} \<and>
    distinct (queued p) \<and> distinct (map reply_to (replies (sp_loop p)))"
proof -
  have "calls_inv L p"
    by (rule calls_reachable [OF assms(1-3,5) started_invariants [OF assms(4)]])
  with assms(6) show ?thesis
    unfolding calls_inv_def caller_inv_def callers_kept_def by blast
qed

text \<open>
  A server on the sample disk, for the witnesses; a state of it in which a call was made;
  and one in which drawing failed.
\<close>

definition sample_meta_libs :: "string grpc_libs" where
  "sample_meta_libs = addr_libs.extend sample_addr_libs (grpc_libs.fields (\<lambda>s. Ok s))"

lemma sample_process:
  "\<exists>srv d. server_start (sample_raft_libs (\<lambda>_. [])) sample_tcp sample_addr_libs sample_os True (sample_args None) = Ok srv \<and>
     create_storage (sample_raft_libs (\<lambda>_. [])) sample_os None 2 = Ok (Disk d) \<and>
     storage_inv (sample_raft_libs (\<lambda>_. [])) map_of map_of (Disk d)"
proof -
  let ?L = "sample_raft_libs (\<lambda>_. [])"
  have ok: "disk_ok ?L map_of map_of"
    using sample_raft_storage_ok [of "\<lambda>_. []"] by (simp add: storage_ok_def)
  have "opens_to ?L map_of path (map_of (meta_tree sample_fresh)) (map_of (entries_tree sample_fresh))
      (map_of (snapshots_tree sample_fresh))" for path
    by (simp add: opens_to_def sample_raft_defs sample_store_libs_def sample_disk_libs_def sample_fresh_def)
  from disk_open_ok [OF ok sample_raft_disk_inv this] obtain d where
    d: "create_storage ?L sample_os None 2 = Ok (Disk d)" "disk_inv ?L map_of d"
    by (fastforce simp: create_storage_def sample_os_def storage_new_with_disk_def)
  have dur: "disk_durable map_of map_of d" by (simp add: disk_durable_def)
  have sel: "config_validate ?L c = (if cfg_id c = 0 then Err (OtherRaft ''invalid node id'') else Ok ())"
    "is_ok (raw_new ?L c st)" for c st
    by (simp_all add: sample_raft_defs)
  have "\<exists>n. raft_node_new ?L 2 ids (Disk d) = Ok n" for ids
  proof -
    obtain d' where "disk_initialize ?L (conf_state_default\<lparr>voters := ids\<rparr>) d = (Ok (), d')"
      using disk_initialize_ok [OF ok d(2) dur] by blast
    moreover obtain w where "raw_new ?L (raft_node_config 2) (Disk d') = Ok w"
      using sel(2) by (auto simp: is_ok_iff)
    ultimately show ?thesis
      by (simp add: raft_node_new_def Let_def sel(1) on_disk_def) (simp add: raft_node_config_def)
  qed
  with d dur show ?thesis using sample_server_starts [OF d(1)] by auto
qed

theorem calls_accounted_for_witness:
  "\<exists>srv p. server_start (sample_raft_libs (\<lambda>_. [])) sample_tcp sample_addr_libs sample_os True (sample_args None) = Ok srv \<and>
     process_reachable (sample_raft_libs (\<lambda>_. [])) (tcp_send sample_tcp) sample_meta_libs True (process_start (Ok ()) srv) p \<and>
     {..<1} = set (queued p) \<union> ran (callbacks (raft_node_of (sp_loop p))) \<union> reply_to ` set (replies (sp_loop p))"
proof -
  let ?L = "sample_raft_libs (\<lambda>_. [])"
  obtain srv where srv: "server_start ?L sample_tcp sample_addr_libs sample_os True (sample_args None) = Ok srv"
    using sample_process by blast
  let ?p0 = "process_start (Ok ()) srv"
  let ?reach = "process_reachable ?L (tcp_send sample_tcp) sample_meta_libs True ?p0"
  obtain r g where g: "service_put sample_meta_libs \<lparr>pr_key = ''k'', pr_value = ''v''\<rparr> Dropped (sp_grpc ?p0) = (r, g)"
    by fastforce
  let ?p = "grpc_moves g ?p0"
  have reach: "?reach ?p"
    by (rule process_reachable.step [OF process_reachable.started process_step.put [OF g]])
  have run: "sp_ended ?p = None" by (simp add: grpc_moves_def process_start_def)
  have "oneshots (srv_service srv) = 0"
    using srv by (rule server_start_parts)
  then have "oneshots (sp_grpc ?p) = 1"
    using service_put_sends [OF g] by (simp add: grpc_moves_def process_start_def)
  moreover have "bincode_ok ?L" using sample_apply_ok by (simp add: apply_ok_def)
  ultimately have "{..<1} = set (queued ?p) \<union> ran (callbacks (raft_node_of (sp_loop ?p))) \<union>
      reply_to ` set (replies (sp_loop ?p))"
    using calls_accounted_for [OF _ sample_raft_prost sample_raft_uuid srv reach run] by simp
  with srv reach show ?thesis by blast
qed

text \<open>
  What \<open>q\<close> does to the interface: the frame is drawn, the signal sent, the loop left. The
  areas must leave room for a border.
\<close>

definition drawable :: "tui_turn_input \<Rightarrow> bool" where
  "drawable i \<longleftrightarrow> 2 \<le> logs_height (ti_layout i) \<and> 2 \<le> history_height (ti_layout i) \<and> ti_draw i = Ok ()"

lemma drain_keeps [simp]: "tui_input_mode (drain_updates a) = tui_input_mode a"
proof -
  have one: "tui_input_mode (apply_state_update u b) = tui_input_mode b" for u b
    by (cases u) (simp_all add: add_system_message_def)
  have "tui_input_mode (fold apply_state_update us b) = tui_input_mode b" for us b
    by (induction us arbitrary: b) (simp_all add: one)
  then show ?thesis by (simp add: drain_updates_def)
qed

lemma quit_turn:
  assumes "drawable i" and "ti_poll i = Ok (Some key)" and "key_code_of key = CharKey 113"
    and "tui_input_mode a = NormalMode" and "rx_alive (shutdown_tx a)"
  obtains a' where "tui_turn checks i a = (Ok True, a')"
proof -
  let ?a = "drain_updates (a\<lparr>state_rx := state_rx a @ ti_arrived i\<rparr>)"
  have mode: "tui_input_mode ?a = NormalMode" using assms(4) by simp
  have "bindR (ui checks (ti_layout i) ?a) (\<lambda>v. ti_draw i) = Ok ()"
    using assms(1) mode
    by (auto simp: drawable_def ui_def newest_def command_history_items_def input_cursor_def)
  moreover have "handle_key_event key ?a = (Ok KeyQuit, ?a)"
    using assms(3) mode by (simp add: handle_key_event_def)
  moreover have "rx_alive (shutdown_tx ?a)"
    using assms(5) by (simp add: drain_updates_def)
  ultimately show ?thesis
    using assms(2) that by (simp add: tui_turn_def Let_def channel_send_def)
qed

text \<open>
  C15: quitting ends the server. With the interface and the ready loop running, the key \<open>q\<close>
  ends the loop of the interface; and in every state reached after it, whatever the other
  threads do meanwhile, the ready loop has ended, or the shutdown signal is there to be
  received, and then \<open>main\<close> returns \<open>Ok\<close>.
\<close>

theorem quit_ends_server:
  assumes "server_start L T A os checks args = Ok srv"
    and "process_reachable L tsend G checks (process_start setup srv) p"
    and "sp_tui_result p = None" and "sp_ended p = None" and "tui_input_mode (sp_tui p) = NormalMode"
    and "drawable i" and "ti_poll i = Ok (Some key)" and "key_code_of key = CharKey 113"
    and "ti_arrived i = drop (sp_seen p) (updates (sp_loop p))"
  shows "\<exists>a. process_step L tsend G checks p (tui_moves (Ok True) a p) \<and>
    (\<forall>p1. process_reachable L tsend G checks (tui_moves (Ok True) a p) p1 \<longrightarrow>
       sp_ended p1 \<noteq> None \<or>
       (\<exists>p2. process_step L tsend G checks p1 p2 \<and> sp_ended p2 = Some (Ok ()) \<and>
          main_returns L (Ok ()) p2 = Some (Ok ())))"
proof -
  have sig: "signals_inv p" by (rule signals_reachable [OF assms(2) started_invariants(1) [OF assms(1)]])
  then have "rx_alive (shutdown_tx (sp_tui p))" using assms(4) by (simp add: signals_inv_def)
  from quit_turn [OF assms(6-8,5) this, of checks] obtain a where
    a: "tui_turn checks i (sp_tui p) = (Ok True, a)" by blast
  let ?q = "tui_moves (Ok True) a p"
  have step: "process_step L tsend G checks p ?q" by (rule process_step.tui [OF assms(3,9) a])
  have quit: "sp_tui_result p1 = Some (Ok ())" if "process_reachable L tsend G checks ?q p1" for p1
    using that
  proof induction
    case started
    show ?case by (simp add: tui_moves_def thread_result_def)
  next
    case (step p1 p2)
    from step.hyps(2) step.IH show ?case
    proof cases
      case (loop inp due r s)
      have "sp_tui_result (received inp p1) = sp_tui_result p1" by (cases inp) simp_all
      with loop(1) step.IH show ?thesis by (simp add: loop_moves_def loop_over_def Let_def)
    qed (simp_all add: grpc_moves_def)
  qed
  have "\<exists>p2. process_step L tsend G checks p1 p2 \<and> sp_ended p2 = Some (Ok ()) \<and>
      main_returns L (Ok ()) p2 = Some (Ok ())"
    if r: "process_reachable L tsend G checks ?q p1" and up: "sp_ended p1 = None" for p1
  proof -
    have "signals_inv p1" by (rule signals_reachable [OF r signals_step [OF step sig]])
    with quit [OF r] up have "receivable InShutdown p1" by (simp add: signals_inv_def)
    moreover have "loop_turn L tsend (InShutdown, False) (sp_loop p1) = (Ok Stop, sp_loop p1)"
      by (simp add: loop_turn_def)
    ultimately have "process_step L tsend G checks p1 (loop_moves InShutdown (Ok Stop) (sp_loop p1) p1)"
      by (rule process_step.loop [OF up])
    with quit [OF r] show ?thesis
      by (intro exI [of _ "loop_moves InShutdown (Ok Stop) (sp_loop p1) p1"])
        (simp add: loop_moves_def loop_over_def thread_result_def main_returns_def Let_def)
  qed
  with step show ?thesis by blast
qed

theorem quit_ends_server_witness:
  "\<exists>srv p p2. server_start (sample_raft_libs (\<lambda>_. [])) sample_tcp sample_addr_libs sample_os True (sample_args None) = Ok srv \<and>
     process_reachable (sample_raft_libs (\<lambda>_. [])) (tcp_send sample_tcp) sample_meta_libs True (process_start (Ok ()) srv) p \<and>
     process_step (sample_raft_libs (\<lambda>_. [])) (tcp_send sample_tcp) sample_meta_libs True p p2 \<and>
     main_returns (sample_raft_libs (\<lambda>_. [])) (Ok ()) p2 = Some (Ok ())"
proof -
  let ?L = "sample_raft_libs (\<lambda>_. [])"
  let ?lay = "\<lparr>logs_height = 10, history_height = 10, input_x = 0, input_y = 0\<rparr>"
  let ?turn = "\<lambda>k. \<lparr>ti_arrived = [], ti_layout = ?lay, ti_draw = Ok (),
    ti_poll = Ok (Some \<lparr>key_code_of = k, key_control = False\<rparr>)\<rparr>"
  obtain srv where srv: "server_start ?L sample_tcp sample_addr_libs sample_os True (sample_args None) = Ok srv"
    using sample_process by blast
  from srv obtain n x where parts: "srv_driver srv = driver_init n node_new x" "srv_app srv = app_new 2"
    by (rule server_start_parts) (simp add: sample_args_def)
  let ?p0 = "process_start (Ok ()) srv"
  let ?reach = "process_reachable ?L (tcp_send sample_tcp) sample_meta_libs True"
  let ?a = "(app_new 2)\<lparr>tui_input_mode := NormalMode\<rparr>"
  let ?p1 = "tui_moves (Ok False) ?a ?p0"
  have p0: "sp_tui_result ?p0 = None" "sp_tui ?p0 = app_new 2" "drop (sp_seen ?p0) (updates (sp_loop ?p0)) = []"
    "sp_ended ?p0 = None"
    by (simp_all add: process_start_def parts driver_init_def)
  have esc: "tui_turn True (?turn EscKey) (sp_tui ?p0) = (Ok False, ?a)"
    by (simp add: p0 tui_turn_def Let_def drain_updates_def app_new_def ui_def newest_def
        command_history_items_def input_cursor_def add_u16_def handle_key_event_def)
  have r1: "?reach ?p0 ?p1"
    by (rule process_reachable.step [OF process_reachable.started process_step.tui [OF p0(1) _ esc]])
      (simp add: p0(3))
  have p1: "sp_tui_result ?p1 = None" "sp_ended ?p1 = None" "tui_input_mode (sp_tui ?p1) = NormalMode"
    "ti_arrived (?turn (CharKey 113)) = drop (sp_seen ?p1) (updates (sp_loop ?p1))"
    by (simp_all add: tui_moves_def p0(4))
  have draw: "drawable (?turn (CharKey 113))" by (simp add: drawable_def)
  obtain a where a: "process_step ?L (tcp_send sample_tcp) sample_meta_libs True ?p1 (tui_moves (Ok True) a ?p1)"
    "\<forall>q. ?reach (tui_moves (Ok True) a ?p1) q \<longrightarrow> sp_ended q \<noteq> None \<or>
      (\<exists>p2. process_step ?L (tcp_send sample_tcp) sample_meta_libs True q p2 \<and> sp_ended p2 = Some (Ok ()) \<and>
         main_returns ?L (Ok ()) p2 = Some (Ok ()))"
    using quit_ends_server [OF srv r1 p1(1-3) draw _ _ p1(4)] by auto
  let ?p2 = "tui_moves (Ok True) a ?p1"
  have "?reach ?p0 ?p2" by (rule process_reachable.step [OF r1 a(1)])
  moreover have "sp_ended ?p2 = None" by (simp add: tui_moves_def p0(4))
  ultimately show ?thesis using srv a(2) process_reachable.started by blast
qed

text \<open>
  C21: when the interface fails, the server goes on without it for ever. Once the loop of the
  interface has returned an error - drawing, polling or reading failed, or the terminal could
  not be set up - no shutdown signal was sent and none ever will be: with working libraries
  and a disk store, the ready loop runs on in every state reached, and \<open>main\<close>, which waits
  for it, does not return, so that the error is never shown. A panic does end the process.
\<close>

theorem interface_failure_hangs:
  assumes "server_start L T A os checks args = Ok srv"
    and "apply_ok L V D" and "crate_ok L" and "prost_ok L" and "returns tsend"
    and "create_storage L os (arg_data_dir args) (arg_id args) = Ok (Disk d)"
    and "storage_inv L V D (Disk d)"
    and "process_reachable L tsend G checks (process_start setup srv) p"
    and "sp_tui_result p = Some (Err e)" and "sp_listening p"
  shows "main_returns L restore p = None \<and> sp_ended p = None \<and> sp_shutdown p = []"
proof -
  note started = started_invariants(1) [OF assms(1)]
  obtain n x ids where n: "raft_node_new L (arg_id args) ids (Disk d) = Ok n"
    "srv_driver srv = driver_init n node_new x"
    using assms(1) by (rule server_start_parts) (use assms(6) in auto)
  have "loop_inv L V D (sp_loop (process_start setup srv))"
    by (rule started_on_disk [OF assms(2,7) n(1), where x = x]) (simp add: process_start_def n(2))
  moreover have sig: "signals_inv p" by (rule signals_reachable [OF assms(8) started])
  then have quiet: "sent (shutdown_tx (sp_tui p)) = []" using assms(9) by (simp add: signals_inv_def)
  ultimately have "sp_ended p = None"
    using loop_goes_on [OF assms(2-5) _ _ started assms(8,10) quiet] by (simp add: process_start_def)
  with sig quiet assms(9) show ?thesis by (simp add: main_returns_def signals_inv_def)
qed

lemma sample_tcp_returns: "returns (tcp_send sample_tcp)"
proof -
  have "chan_ok sample_tcp (\<lambda>c. c)"
    using sample_chan_ok by (simp add: chan_ok_def sample_tcp_def chan_libs.defs)
  then show ?thesis by (rule tcp.sending_returns)
qed

theorem interface_failure_hangs_witness:
  "\<exists>srv. server_start (sample_raft_libs (\<lambda>_. [])) sample_tcp sample_addr_libs sample_os True (sample_args None) = Ok srv \<and>
     main_returns (sample_raft_libs (\<lambda>_. [])) (Ok ()) (process_start (Err ''not a terminal'') srv) = None"
proof -
  let ?L = "sample_raft_libs (\<lambda>_. [])"
  obtain srv d where srv: "server_start ?L sample_tcp sample_addr_libs sample_os True (sample_args None) = Ok srv"
    "create_storage ?L sample_os None 2 = Ok (Disk d)" "storage_inv ?L map_of map_of (Disk d)"
    using sample_process by blast
  have args: "create_storage ?L sample_os (arg_data_dir (sample_args None)) (arg_id (sample_args None)) = Ok (Disk d)"
    by (simp add: sample_args_def srv(2))
  let ?p = "process_start (Err ''not a terminal'') srv"
  have "sp_tui_result ?p = Some (Err ''not a terminal'')" "sp_listening ?p"
    by (simp_all add: process_start_def)
  from interface_failure_hangs [OF srv(1) sample_apply_ok sample_crate_ok sample_raft_prost sample_tcp_returns
      args srv(3) process_reachable.started this] srv(1)
  show ?thesis by blast
qed

text \<open>
  C33: an error of the ready loop is never the one shown. Once the loop has ended with an
  error while the interface was up, the interface cannot quit: its command and shutdown
  sends fail, and \<open>main\<close>, if it returns, returns what the interface ended with, never \<open>Ok\<close>
  and, unless restoring the terminal fails, never the error of the loop.
\<close>

theorem loop_error_hidden:
  assumes "server_start L T A os checks args = Ok srv"
    and "process_reachable L tsend G checks (process_start setup srv) p"
    and "sp_ended p = Some (Err e)" and "sp_tui_result p = None"
    and "process_reachable L tsend G checks p p1"
    and "main_returns L restore p1 = Some r"
  shows "r \<noteq> Ok () \<and> (restore = Ok () \<longrightarrow> sp_tui_result p1 = Some r) \<and> sp_ended p1 = Some (Err e)"
proof -
  have inv: "signals_inv p1 \<and> sp_ended p1 = Some (Err e) \<and> sp_tui_result p1 \<noteq> Some (Ok ())"
    using assms(5)
  proof induction
    case started
    with signals_reachable [OF assms(2) started_invariants(1) [OF assms(1)]] assms(3,4) show ?case by simp
  next
    case (step p1 p2)
    have sig: "signals_inv p2" by (rule signals_step [OF step.hyps(2)]) (use step.IH in blast)
    from step.hyps(2) show ?case
    proof cases
      case (loop inp due r s)
      with step.IH show ?thesis by simp
    next
      case (tui i q a)
      have "sent (shutdown_tx (sp_tui p1)) = []" "\<not> rx_alive (shutdown_tx (sp_tui p1))"
        using step.IH by (auto simp: signals_inv_def)
      with tui_turn_sends [OF tui(4)] have "sent (shutdown_tx (sp_tui p2)) = []"
        by (auto simp: tui(1) tui_moves_def turn_sends_def)
      with sig have "sp_tui_result p2 \<noteq> Some (Ok ())" by (simp add: signals_inv_def)
      with sig step.IH show ?thesis by (simp add: tui(1) tui_moves_def)
    qed (use sig step.IH in \<open>simp_all add: grpc_moves_def\<close>)
  qed
  then obtain t where t: "sp_tui_result p1 = Some t" "t \<noteq> Ok ()"
    using assms(6) by (cases "sp_tui_result p1") (auto simp: main_returns_def)
  with inv assms(6) show ?thesis
    by (cases t; cases restore) (auto simp: main_returns_def Let_def)
qed

theorem loop_error_hidden_witness:
  "\<exists>srv p p1. server_start (sample_raft_libs (\<lambda>_. [])) sample_tcp sample_addr_libs sample_os True (sample_args None) = Ok srv \<and>
     process_reachable (sample_raft_libs (\<lambda>_. [])) (tcp_send sample_tcp) sample_meta_libs True (process_start (Ok ()) srv) p \<and>
     sp_ended p = Some (Err MessageChannelClosed) \<and>
     process_reachable (sample_raft_libs (\<lambda>_. [])) (tcp_send sample_tcp) sample_meta_libs True p p1 \<and>
     sp_tui_result p1 = Some (Err ''sending on a disconnected channel'') \<and>
     main_returns (sample_raft_libs (\<lambda>_. [])) (Ok ()) p1 = Some (Err ''sending on a disconnected channel'')"
proof -
  let ?L = "sample_raft_libs (\<lambda>_. [])" and ?e = "''sending on a disconnected channel''"
  let ?i = "\<lparr>ti_arrived = [], ti_layout = \<lparr>logs_height = 10, history_height = 10, input_x = 0, input_y = 0\<rparr>,
    ti_draw = Ok (), ti_poll = Ok (Some \<lparr>key_code_of = CharKey 99, key_control = True\<rparr>)\<rparr>"
  obtain srv where srv: "server_start ?L sample_tcp sample_addr_libs sample_os True (sample_args None) = Ok srv"
    using sample_process by blast
  from srv obtain n x where parts: "srv_driver srv = driver_init n node_new x" "srv_app srv = app_new 2"
    by (rule server_start_parts) (simp add: sample_args_def)
  let ?step = "process_step ?L (tcp_send sample_tcp) sample_meta_libs True"
  let ?reach = "process_reachable ?L (tcp_send sample_tcp) sample_meta_libs True"
  let ?p0 = "(process_start (Ok ()) srv)\<lparr>sp_listening := False\<rparr>"
  let ?q = "loop_moves InMessageClosed (Err MessageChannelClosed) (srv_driver srv) ?p0"
  have r0: "?reach (process_start (Ok ()) srv) ?p0"
    by (rule process_reachable.step [OF process_reachable.started process_step.listener_ends])
  have "?step ?p0 ?q"
    by (rule process_step.loop [where due = False])
      (simp_all add: process_start_def loop_turn_def parts bindO_def)
  then have r: "?reach (process_start (Ok ()) srv) ?q"
    by (rule process_reachable.step [OF r0])
  have p: "sp_ended ?q = Some (Err MessageChannelClosed)" "sp_tui_result ?q = None"
    by (simp_all add: loop_moves_def loop_over_def Let_def thread_result_def process_start_def)
  have "\<exists>a. tui_turn True ?i (sp_tui ?q) = (Err ?e, a)"
    by (simp add: loop_moves_def loop_over_def Let_def process_start_def parts tui_turn_def drain_updates_def
        app_new_def ui_def newest_def command_history_items_def input_cursor_def add_u16_def
        handle_key_event_def channel_send_def)
  then obtain a where a: "tui_turn True ?i (sp_tui ?q) = (Err ?e, a)" by blast
  have "ti_arrived ?i = drop (sp_seen ?q) (updates (sp_loop ?q))"
    by (simp add: loop_moves_def loop_over_def Let_def process_start_def parts driver_init_def)
  from process_step.tui [OF p(2) this a]
  have r1: "?reach ?q (tui_moves (Err ?e) a ?q)"
    by (rule process_reachable.step [OF process_reachable.started])
  have "main_returns ?L (Ok ()) (tui_moves (Err ?e) a ?q) = Some (Err ?e)"
    using p(1) by (simp add: main_returns_def tui_moves_def thread_result_def Let_def)
  with loop_error_hidden [OF srv r p r1 this] srv r p(1) r1 show ?thesis by metis
qed

end
