(* ===== verification/Sample_Session.thy ===== *)
theory Sample_Session
  imports Server_Process
begin

text \<open>
  For the witnesses of whole sessions: a crate that leads and commits at once what it is
  given, and a server in memory on it that takes a PUT and then a GET.
\<close>

record sample_carry =
  sc_proposed :: "bytes \<rightharpoonup> bytes"
  sc_inbox :: "entry list"
  sc_handed :: "handed_item list"

definition sample_commits :: "sample_carry \<Rightarrow> entry list" where
  "sample_commits w = filter (\<lambda>e. sc_proposed w (e_context e) = Some (e_data e)) (sc_inbox w)"

definition sample_carry_libs :: "(sample_tree, sample_mem, sample_carry) raft_libs" where
  "sample_carry_libs = store_libs.extend (sample_store_libs (\<lambda>_. [])) (raft_libs.fields
     (\<lambda>c. Ok ())
     (\<lambda>c st. Ok \<lparr>sc_proposed = Map.empty, sc_inbox = [], sc_handed = []\<rparr>)
     (\<lambda>st c d w. (Ok (), w\<lparr>sc_proposed := (sc_proposed w)(c \<mapsto> d),
        sc_inbox := sc_inbox w @ [\<lparr>e_type = EntryNormal, e_term = 1, e_index = 1, e_data = d, e_context = c\<rparr>]\<rparr>))
     (\<lambda>st w. (Ok (), w))
     (\<lambda>st m w. (Ok (), w))
     (\<lambda>st w. w)
     (\<lambda>st w. sc_inbox w \<noteq> [])
     (\<lambda>st w. (sample_ready\<lparr>ry_committed_entries := sample_commits w\<rparr>,
        w\<lparr>sc_inbox := [], sc_handed := sc_handed w @ map Committed (sample_commits w)\<rparr>))
     (\<lambda>st rd w. (sample_light, w))
     (\<lambda>st cc w. (Ok conf_state_default, w))
     (\<lambda>w. 1)
     (\<lambda>w. 1)
     (\<lambda>w. Leader)
     (\<lambda>w. 1)
     (\<lambda>w. 0)
     (\<lambda>w. 1)
     (\<lambda>b. Err ''no configuration change'')
     (\<lambda>b. Err ''no configuration change'')
     (\<lambda>sn. snap_index sn = 0)
     (\<lambda>e. ''raft error'')
     (\<lambda>i. replicate i 0))"

lemmas sample_carry_defs = sample_carry_libs_def raft_libs.defs store_libs.defs disk_libs.defs kv_libs.defs

lemma sample_carry_sel:
  "raw_propose sample_carry_libs st c d w = (Ok (), w\<lparr>sc_proposed := (sc_proposed w)(c \<mapsto> d),
     sc_inbox := sc_inbox w @ [\<lparr>e_type = EntryNormal, e_term = 1, e_index = 1, e_data = d, e_context = c\<rparr>]\<rparr>)"
  "raw_has_ready sample_carry_libs st w = (sc_inbox w \<noteq> [])"
  "raw_ready sample_carry_libs st w = (sample_ready\<lparr>ry_committed_entries := sample_commits w\<rparr>,
     w\<lparr>sc_inbox := [], sc_handed := sc_handed w @ map Committed (sample_commits w)\<rparr>)"
  "raw_advance sample_carry_libs st rd w = (sample_light, w)"
  "raw_state sample_carry_libs w = Leader"
  "snapshot_is_empty sample_carry_libs sn = (snap_index sn = 0)"
  "uuid_v4 sample_carry_libs i = replicate i 0"
  "prost_encode sample_carry_libs = sample_cmd_encode"
  "prost_decode sample_carry_libs = sample_cmd_decode"
  "config_validate sample_carry_libs cfg = Ok ()"
  "raw_new sample_carry_libs cfg st = Ok \<lparr>sc_proposed = Map.empty, sc_inbox = [], sc_handed = []\<rparr>"
  "mem_new sample_carry_libs = sample_mem_new"
  "mem_initialize_with_conf_state sample_carry_libs cs m = (Ok (), m\<lparr>sm_conf := cs\<rparr>)"
  by (simp_all add: sample_carry_defs sample_store_libs_def sample_disk_libs_def sample_kv_libs_def)

lemma sample_carry_prost: "prost_ok sample_carry_libs"
  using sample_prost_ok by (simp add: prost_ok_def sample_carry_sel sample_kv_libs_def)

lemma sample_carry_bincode: "bincode_ok sample_carry_libs"
  using sample_bincode_ok
  by (simp add: bincode_ok_def sample_carry_defs sample_store_libs_def sample_disk_libs_def)

lemma sample_carry_uuid: "inj (uuid_v4 sample_carry_libs)"
  by (simp add: inj_def sample_carry_sel)

section \<open>The turns\<close>

definition carry_node :: "bytes option \<Rightarrow> conf_state \<Rightarrow> (sample_tree, sample_mem, sample_carry) raft_node" where
  "carry_node d cs =
     \<lparr>raw = \<lparr>sc_proposed = (case d of Some b \<Rightarrow> [[] \<mapsto> b] | None \<Rightarrow> Map.empty), sc_inbox = [], sc_handed = []\<rparr>,
      raft_store = Memory (sample_mem_new\<lparr>sm_conf := cs\<rparr>) (if d = None then 0 else 1),
      callbacks = Map.empty, uuids = (if d = None then 0 else 1)\<rparr>"

text \<open>The PUT is proposed, committed, applied and answered in one turn.\<close>

lemma carry_put:
  assumes "s = driver_init (carry_node None cs) node_new x"
  shows "\<exists>s'. loop_turn sample_carry_libs tsend (InCommand (Rpc (RpcPut k v i)), False) s = (Ok Continue, s') \<and>
    replies s' = [PutReply i (Ok ())] \<and> kv (kv_node s') = [(k, v)] \<and> sc_inbox (raw (raft_node_of s')) = []"
proof -
  let ?L = sample_carry_libs
  define data where "data = flat_enc [k, v]"
  have put: "sample_cmd_encode \<lparr>cmd = Some (CmdPut k v)\<rparr> = Ok data"
    "sample_cmd_decode data = Ok \<lparr>cmd = Some (CmdPut k v)\<rparr>" "data \<noteq> []"
    unfolding data_def sample_cmd_encode_def sample_cmd_decode_def
    by (simp_all add: flat_dec_enc del: flat_enc.simps)
  let ?e = "\<lparr>e_type = EntryNormal, e_term = 1, e_index = 1, e_data = data, e_context = []\<rparr>"
  let ?w = "\<lparr>sc_proposed = [[] \<mapsto> data], sc_inbox = [?e], sc_handed = []\<rparr>"
  let ?t = "s\<lparr>raft_node_of := (carry_node None cs)\<lparr>raw := ?w, uuids := 1, callbacks := [[] \<mapsto> i]\<rparr>\<rparr>"
  have "handle ?L (Rpc (RpcPut k v i)) s = (Ok (), ?t)"
    by (simp add: assms driver_init_def carry_node_def is_leader_def on_node_def propose_command_def Let_def
        encode_put_command_def codec_encode_def on_raw_def sample_carry_sel put)
  moreover have "fst (driver_process_ready ?L tsend ?t) = Ok () \<and>
      replies (snd (driver_process_ready ?L tsend ?t)) = [PutReply i (Ok ())] \<and>
      kv (kv_node (snd (driver_process_ready ?L tsend ?t))) = [(k, v)] \<and>
      sc_inbox (raw (raft_node_of (snd (driver_process_ready ?L tsend ?t)))) = []"
    by (simp add: assms driver_init_def carry_node_def driver_process_ready_def process_ready_def take_ready_def
        sample_carry_sel sample_ready_def sample_light_def send_batch_def persist_ready_defs finish_ready_def
        advance_ready_def apply_entry_def apply_normal_entry_def apply_kv_command_def codec_decode_def put
        notify_kv_update_def answer_callback_def take_callback_def send_update_def send_reply_def
        storage_op_def update_tui_state_frame bindO_def node_new_def
        snapshot_default_def get_metadata_def snapshot_metadata_default_def sample_commits_def)
  ultimately show ?thesis
    by (cases "driver_process_ready ?L tsend ?t")
      (auto simp: loop_turn_eq after_input_def bindO_def tick_if_def carry_node_def sample_carry_sel)
qed

lemma carry_get:
  assumes "sc_inbox (raw (raft_node_of s)) = []"
  shows "loop_turn sample_carry_libs tsend (InCommand (Rpc (RpcGet k j)), False) s =
    (Ok Continue, send_reply (GetReply j (bt_get (kv (kv_node s)) k)) s)"
  using assms
  by (simp add: loop_turn_eq after_input_def bindO_def tick_if_def sample_carry_sel send_reply_def
      get_internal_map_def)

text \<open>A session: a PUT is called and answered, then a GET.\<close>

lemma sample_session_calls:
  "\<exists>srv g p g' p1. server_start sample_carry_libs sample_tcp sample_addr_libs sample_os True
       (sample_args (Some '':memory:'')) = Ok srv \<and>
     snd (service_put sample_meta_libs \<lparr>pr_key = ''k'', pr_value = ''v''\<rparr> Dropped
       (sp_grpc (process_start (Ok ()) srv))) = g \<and>
     process_reachable sample_carry_libs (tcp_send sample_tcp) sample_meta_libs True
       (grpc_moves g (process_start (Ok ()) srv)) p \<and>
     snd (service_get \<lparr>gr_key = ''k''\<rparr> Dropped (sp_grpc p)) = g' \<and>
     process_reachable sample_carry_libs (tcp_send sample_tcp) sample_meta_libs True (grpc_moves g' p) p1 \<and>
     driver_alive (sp_grpc (process_start (Ok ()) srv)) \<and> oneshots (sp_grpc (process_start (Ok ()) srv)) = 0 \<and>
     driver_alive (sp_grpc p) \<and> oneshots (sp_grpc p) = 1 \<and>
     cmd_queue (sp_grpc p) = [Rpc (RpcPut ''k'' ''v'' 0)] \<and> replies (sp_loop p) = [PutReply 0 (Ok ())] \<and>
     cmd_queue (sp_grpc p1) = [Rpc (RpcPut ''k'' ''v'' 0), Rpc (RpcGet ''k'' 1)] \<and>
     replies (sp_loop p1) = [PutReply 0 (Ok ()), GetReply 1 (Some ''v'')]"
proof -
  let ?L = sample_carry_libs and ?args = "sample_args (Some '':memory:'')"
  let ?step = "process_step ?L (tcp_send sample_tcp) sample_meta_libs True"
  have st: "create_storage ?L sample_os (Some '':memory:'') 2 = Ok (storage_new ?L)"
    by (simp add: create_storage_def)
  have new: "raft_node_new ?L 2 ids (storage_new ?L) = Ok (carry_node None (conf_state_default\<lparr>voters := ids\<rparr>))" for ids
    by (simp add: raft_node_new_def Let_def sample_carry_sel storage_new_def on_mem_def carry_node_def)
  obtain srv where srv: "server_start ?L sample_tcp sample_addr_libs sample_os True ?args = Ok srv"
    using sample_server_starts [OF st] new by blast
  obtain n x ids storage where
    storage: "create_storage ?L sample_os (arg_data_dir ?args) (arg_id ?args) = Ok storage"
    and node: "raft_node_new ?L (arg_id ?args) ids storage = Ok n"
    and start: "srv_driver srv = driver_init n node_new x" "driver_alive (srv_service srv)"
      "cmd_queue (srv_service srv) = []" "oneshots (srv_service srv) = 0"
    using srv by (rule server_start_parts)
  have "storage = storage_new ?L" using storage by (simp add: sample_args_def st)
  with node have n: "n = carry_node None (conf_state_default\<lparr>voters := ids\<rparr>)"
    by (simp add: sample_args_def new)
  let ?p0 = "process_start (Ok ()) srv"
  have p0: "sp_grpc ?p0 = srv_service srv" by (simp add: process_start_def)
  let ?put = "\<lparr>pr_key = ''k'', pr_value = ''v''\<rparr>" and ?get = "\<lparr>gr_key = ''k''\<rparr>"
  let ?c = "Rpc (RpcPut ''k'' ''v'' 0)" and ?d = "Rpc (RpcGet ''k'' 1)"
  obtain r g where g: "service_put sample_meta_libs ?put Dropped (sp_grpc ?p0) = (r, g)" by fastforce
  define p1 where "p1 = grpc_moves g ?p0"
  have p1: "cmd_queue (sp_grpc p1) = [?c]" "oneshots (sp_grpc p1) = 1" "driver_alive (sp_grpc p1)"
    "sp_queue p1 = [?c]" "sp_loop p1 = srv_driver srv" "sp_ended p1 = None"
    using service_put_sends [OF g] start by (simp_all add: p1_def grpc_moves_def process_start_def)
  have s1: "?step ?p0 p1" unfolding p1_def by (rule process_step.put [OF g])
  obtain s where s: "loop_turn ?L (tcp_send sample_tcp) (InCommand ?c, False) (sp_loop p1) = (Ok Continue, s)"
    "replies s = [PutReply 0 (Ok ())]" "kv (kv_node s) = [(''k'', ''v'')]" "sc_inbox (raw (raft_node_of s)) = []"
    using carry_put [OF trans [OF p1(5) start(1) [unfolded n]], of "tcp_send sample_tcp" "''k''" "''v''" 0] by blast
  define p2 where "p2 = loop_moves (InCommand ?c) (Ok Continue) s p1"
  have s2: "?step p1 p2"
    unfolding p2_def by (rule process_step.loop [OF p1(6) _ s(1)]) (simp add: p1)
  have p2: "cmd_queue (sp_grpc p2) = [?c]" "oneshots (sp_grpc p2) = 1" "driver_alive (sp_grpc p2)"
    "sp_queue p2 = []" "sp_loop p2 = s" "sp_ended p2 = None"
    using p1 by (simp_all add: p2_def loop_moves_def)
  obtain r' g' where g': "service_get ?get Dropped (sp_grpc p2) = (r', g')" by fastforce
  define p3 where "p3 = grpc_moves g' p2"
  have p3: "cmd_queue (sp_grpc p3) = [?c, ?d]" "sp_queue p3 = [?d]" "sp_loop p3 = s" "sp_ended p3 = None"
    using service_get_sends [OF g'] p2 by (simp_all add: p3_def grpc_moves_def newly_sent_def)
  have s3: "?step p2 p3" unfolding p3_def by (rule process_step.get [OF g'])
  let ?s = "send_reply (GetReply 1 (Some ''v'')) s"
  have "loop_turn ?L (tcp_send sample_tcp) (InCommand ?d, False) (sp_loop p3) = (Ok Continue, ?s)"
    using carry_get [OF s(4)] s(3) p3(3) by (simp add: bt_get_def)
  from process_step.loop [OF p3(4) _ this] have s4: "?step p3 (loop_moves (InCommand ?d) (Ok Continue) ?s p3)"
    by (simp add: p3)
  have "cmd_queue (sp_grpc (loop_moves (InCommand ?d) (Ok Continue) ?s p3)) = [?c, ?d]"
    "replies (sp_loop (loop_moves (InCommand ?d) (Ok Continue) ?s p3)) = [PutReply 0 (Ok ()), GetReply 1 (Some ''v'')]"
    using p3 s(2) by (simp_all add: loop_moves_def send_reply_def)
  moreover have "process_reachable ?L (tcp_send sample_tcp) sample_meta_libs True (grpc_moves g ?p0) p2"
    "process_reachable ?L (tcp_send sample_tcp) sample_meta_libs True (grpc_moves g' p2)
      (loop_moves (InCommand ?d) (Ok Continue) ?s p3)"
    using s2 s4 unfolding p1_def p3_def by (blast intro: process_reachable.intros)+
  ultimately show ?thesis using srv p2(1-3) s(2) p2(5) start(2,4) g g' unfolding p0 [symmetric] by fastforce
qed

lemma reachable_after:
  assumes "process_step L tsend G checks p p1" and "process_reachable L tsend G checks p1 p2"
  shows "process_reachable L tsend G checks p p2"
  using assms(2) by induction (auto intro: assms(1) process_reachable.intros)

lemma sample_session:
  "\<exists>srv p p1. server_start sample_carry_libs sample_tcp sample_addr_libs sample_os True
       (sample_args (Some '':memory:'')) = Ok srv \<and>
     process_reachable sample_carry_libs (tcp_send sample_tcp) sample_meta_libs True (process_start (Ok ()) srv) p \<and>
     process_reachable sample_carry_libs (tcp_send sample_tcp) sample_meta_libs True p p1 \<and>
     cmd_queue (sp_grpc p) = [Rpc (RpcPut ''k'' ''v'' 0)] \<and> replies (sp_loop p) = [PutReply 0 (Ok ())] \<and>
     cmd_queue (sp_grpc p1) = [Rpc (RpcPut ''k'' ''v'' 0), Rpc (RpcGet ''k'' 1)] \<and>
     replies (sp_loop p1) = [PutReply 0 (Ok ()), GetReply 1 (Some ''v'')]"
proof -
  let ?step = "process_step sample_carry_libs (tcp_send sample_tcp) sample_meta_libs True"
  have put: "?step q (grpc_moves (snd (service_put sample_meta_libs req Dropped (sp_grpc q))) q)" for req q
    by (rule process_step.put) (rule prod.collapse [symmetric])
  have get: "?step q (grpc_moves (snd (service_get req Dropped (sp_grpc q))) q)" for req q
    by (rule process_step.get) (rule prod.collapse [symmetric])
  from sample_session_calls reachable_after [OF put] reachable_after [OF get] show ?thesis by blast
qed

end
