(* ===== verification/Store_History.thy ===== *)
theory Store_History
  imports Driver_Safety
begin

text \<open>
  What a server promises its callers: the histories of an atomic key-value store. Every call
  takes effect at one moment between its call and its answer: a PUT that succeeds at the
  moment its value is written, a GET at the moment it is read. A history is the list of what
  happened, newest first; the value of the store, the calls and the answers are read off it.
\<close>

section \<open>Histories\<close>

text \<open>
  \<open>Wrote k v (Some i)\<close> is the effect and the answer of the PUT with oneshot \<open>i\<close>; a write
  without a oneshot comes from elsewhere, another node or the interface. \<open>Restored\<close> is a
  snapshot taken over.
\<close>

datatype store_event =
    Called server_command
  | Wrote string string "oneshot option"
  | Refused oneshot string
  | Looked_up oneshot string "string option"
  | Restored "string \<rightharpoonup> string"

type_synonym history = "store_event list"

fun value_of :: "history \<Rightarrow> string \<rightharpoonup> string" where
  "value_of [] = Map.empty"
| "value_of (Wrote k v i # h) = (value_of h)(k \<mapsto> v)"
| "value_of (Restored m # h) = m"
| "value_of (_ # h) = value_of h"

fun calls_of :: "history \<Rightarrow> server_command list" where
  "calls_of [] = []"
| "calls_of (Called c # h) = calls_of h @ [c]"
| "calls_of (_ # h) = calls_of h"

fun answers_of :: "history \<Rightarrow> reply list" where
  "answers_of [] = []"
| "answers_of (Wrote k v (Some i) # h) = answers_of h @ [PutReply i (Ok ())]"
| "answers_of (Refused i m # h) = answers_of h @ [PutReply i (Err m)]"
| "answers_of (Looked_up i k v # h) = answers_of h @ [GetReply i v]"
| "answers_of (_ # h) = answers_of h"

text \<open>What changed the store, oldest first.\<close>

datatype store_effect = Set_key string string | Set_all "string \<rightharpoonup> string"

fun effects_of :: "history \<Rightarrow> store_effect list" where
  "effects_of [] = []"
| "effects_of (Wrote k v i # h) = effects_of h @ [Set_key k v]"
| "effects_of (Restored m # h) = effects_of h @ [Set_all m]"
| "effects_of (_ # h) = effects_of h"

text \<open>A call that was made and not answered yet.\<close>

definition is_open :: "rpc_command \<Rightarrow> oneshot \<Rightarrow> history \<Rightarrow> bool" where
  "is_open c i h \<longleftrightarrow> Rpc c \<in> set (calls_of h) \<and> i \<notin> reply_to ` set (answers_of h)"

fun legal :: "history \<Rightarrow> bool" where
  "legal [] \<longleftrightarrow> True"
| "legal (Called c # h) \<longleftrightarrow>
     set (command_oneshots c) \<inter> set (concat (map command_oneshots (calls_of h))) = {} \<and> legal h"
| "legal (Wrote k v (Some i) # h) \<longleftrightarrow> is_open (RpcPut k v i) i h \<and> legal h"
| "legal (Wrote k v None # h) \<longleftrightarrow> legal h"
| "legal (Refused i m # h) \<longleftrightarrow>
     (\<exists>k v. is_open (RpcPut k v i) i h) \<and> (\<exists>leader. m = not_leader_error leader) \<and> legal h"
| "legal (Looked_up i k v # h) \<longleftrightarrow> is_open (RpcGet k i) i h \<and> v = value_of h k \<and> legal h"
| "legal (Restored m # h) \<longleftrightarrow> legal h"

section \<open>What follows for the callers\<close>

lemma legal_append: "legal (later @ h) \<Longrightarrow> legal h"
  by (induction later) (auto elim: legal.elims)

lemma calls_append: "\<exists>cs. calls_of (later @ h) = calls_of h @ cs"
  by (induction later rule: calls_of.induct) auto

lemma answers_append: "\<exists>rs. answers_of (later @ h) = answers_of h @ rs"
  by (induction later rule: answers_of.induct) auto

text \<open>A oneshot belongs to one call.\<close>

lemma oneshots_distinct: "legal h \<Longrightarrow> distinct (concat (map command_oneshots (calls_of h)))"
proof (induction h rule: legal.induct)
  case (2 c h)
  have "distinct (command_oneshots c)" by (cases c rule: command_oneshots.cases) simp_all
  with 2 show ?case by auto
qed auto

lemma distinct_concat_same:
  "distinct (concat (map f xs)) \<Longrightarrow> x \<in> set xs \<Longrightarrow> y \<in> set xs \<Longrightarrow> i \<in> set (f x) \<Longrightarrow> i \<in> set (f y) \<Longrightarrow> x = y"
  by (induction xs) auto

lemma one_call:
  assumes "legal h" and "Rpc c \<in> set (calls_of h)" and "Rpc c' \<in> set (calls_of h)"
    and "i \<in> set (command_oneshots (Rpc c))" and "i \<in> set (command_oneshots (Rpc c'))"
  shows "c = c'"
  using distinct_concat_same [OF oneshots_distinct [OF assms(1)] assms(2-5)] by simp

text \<open>Every answer has its moment in the history.\<close>

lemma put_answered:
  assumes "PutReply i (Ok ()) \<in> set (answers_of h)"
  shows "\<exists>later k v before. h = later @ Wrote k v (Some i) # before"
  using assms
proof (induction h rule: answers_of.induct)
  case (2 k v j h)
  then show ?case by (cases "j = i") (auto intro: exI [of _ "[]"], metis append_Cons)
qed (auto, (metis append_Cons)+)

lemma get_answered:
  assumes "GetReply j x \<in> set (answers_of h)"
  shows "\<exists>later k before. h = later @ Looked_up j k x # before"
  using assms
  by (induction h rule: answers_of.induct) (auto intro: exI [of _ "[]"], (metis append_Cons append_Nil)+)

text \<open>What may change the value of a key.\<close>

fun overwrites :: "string \<Rightarrow> store_event \<Rightarrow> bool" where
  "overwrites k (Wrote k' v i) \<longleftrightarrow> k' = k"
| "overwrites k (Restored m) \<longleftrightarrow> True"
| "overwrites k _ \<longleftrightarrow> False"

lemma value_since:
  "value_of (since @ Wrote k v i # before) k = Some v \<or> (\<exists>e \<in> set since. overwrites k e)"
  by (induction since rule: value_of.induct) auto

text \<open>
  A GET called after a PUT to its key was answered with success reads what was put, unless
  it was overwritten.
\<close>

lemma read_after_put:
  assumes legal: "legal (later @ h)"
    and put: "PutReply i (Ok ()) \<in> set (answers_of h)" "Rpc (RpcPut k v i) \<in> set (calls_of h)"
    and get: "GetReply j x \<in> set (answers_of (later @ h))" "Rpc (RpcGet k j) \<in> set (calls_of (later @ h))"
      "Rpc (RpcGet k j) \<notin> set (calls_of h)"
  shows "\<exists>since before. later @ h = since @ Wrote k v (Some i) # before \<and>
    (x = Some v \<or> (\<exists>e \<in> set since. overwrites k e))"
proof -
  have sub: "set (calls_of b) \<subseteq> set (calls_of (a @ b))" for a b
    using calls_append [of a b] by auto
  obtain l k' v' b where h: "h = l @ Wrote k' v' (Some i) # b" using put_answered [OF put(1)] by blast
  have lh: "legal h" by (rule legal_append [OF legal])
  have "legal (Wrote k' v' (Some i) # b)" by (rule legal_append) (use lh h in simp)
  then have "Rpc (RpcPut k' v' i) \<in> set (calls_of b)" by (simp add: is_open_def)
  then have "Rpc (RpcPut k' v' i) \<in> set (calls_of h)" using sub [of "Wrote k' v' (Some i) # b" l] by (auto simp: h)
  with one_call [OF lh put(2), of "RpcPut k' v' i" i] have kv: "k' = k" "v' = v" by simp_all
  obtain a k'' b2 where g: "later @ h = a @ Looked_up j k'' x # b2" using get_answered [OF get(1)] by blast
  have "legal (Looked_up j k'' x # b2)" by (rule legal_append) (use legal g in simp)
  then have b2: "Rpc (RpcGet k'' j) \<in> set (calls_of b2)" "x = value_of b2 k''" by (simp_all add: is_open_def)
  have "Rpc (RpcGet k'' j) \<in> set (calls_of (later @ h))"
    unfolding g using b2(1) sub [of "Looked_up j k'' x # b2" a] by auto
  with one_call [OF legal get(2), of "RpcGet k'' j" j] have k'': "k'' = k" by simp
  have "\<exists>us. us @ h = b2 \<and> set us \<subseteq> set later"
  proof -
    have "later @ h = (a @ [Looked_up j k'' x]) @ b2" using g by simp
    then obtain us where "later = (a @ [Looked_up j k'' x]) @ us \<and> us @ h = b2 \<or>
        later @ us = a @ [Looked_up j k'' x] \<and> h = us @ b2"
      unfolding append_eq_append_conv2 by blast
    moreover have "h \<noteq> us @ b2" for us using get(3) b2(1) sub [of b2 us] by (auto simp: k'')
    ultimately show ?thesis by auto
  qed
  then obtain us where us: "us @ h = b2" "set us \<subseteq> set later" by blast
  have "x = Some v \<or> (\<exists>e \<in> set (us @ l). overwrites k e)"
    using value_since [of "us @ l" k v "Some i" b] b2(2) by (simp add: us(1) [symmetric] h kv k'')
  with us(2) show ?thesis by (intro exI [of _ "later @ l"] exI [of _ b]) (auto simp: h kv)
qed

text \<open>A PUT is written between its call and the end, and once.\<close>

fun written_by :: "oneshot \<Rightarrow> store_event \<Rightarrow> bool" where
  "written_by j (Wrote k v (Some i)) \<longleftrightarrow> i = j"
| "written_by j _ \<longleftrightarrow> False"

lemma written_answered: "e \<in> set h \<Longrightarrow> written_by j e \<Longrightarrow> j \<in> reply_to ` set (answers_of h)"
  by (induction h rule: answers_of.induct) (auto simp: image_iff)

lemma written_once: "legal h \<Longrightarrow> length (filter (written_by j) h) \<le> 1"
proof (induction h rule: legal.induct)
  case (3 k v i h)
  then have "filter (written_by i) h = []"
    using written_answered [of _ h i] by (auto simp: is_open_def filter_empty_conv)
  with 3 show ?case by auto
qed auto

lemma written_after_call:
  assumes "legal (since @ Wrote k v (Some i) # before)"
  shows "Rpc (RpcPut k v i) \<in> set (calls_of before)"
  using legal_append [OF assms] by (simp add: is_open_def)

lemma written_by_its_call:
  assumes "legal h" and "Rpc (RpcPut k v i) \<in> set (calls_of h)" and "PutReply i (Ok ()) \<in> set (answers_of h)"
  shows "\<exists>since before. h = since @ Wrote k v (Some i) # before"
proof -
  obtain l k' v' b where h: "h = l @ Wrote k' v' (Some i) # b" using put_answered [OF assms(3)] by blast
  then have "Rpc (RpcPut k' v' i) \<in> set (calls_of b)" using written_after_call assms(1) by blast
  then have "Rpc (RpcPut k' v' i) \<in> set (calls_of h)"
    using calls_append [of l "Wrote k' v' (Some i) # b"] by (auto simp: h)
  from one_call [OF assms(1) this assms(2), of i] show ?thesis using h by auto
qed

lemma called_in_later:
  "c \<in> set (calls_of (later @ h)) \<Longrightarrow> c \<notin> set (calls_of h) \<Longrightarrow> Called c \<in> set later"
  by (induction later rule: calls_of.induct) auto

text \<open>A call that is new was written, if it was, since.\<close>

lemma written_since:
  assumes legal: "legal (later @ h)" and new: "Rpc (RpcPut k v i) \<notin> set (calls_of h)"
    and wrote: "later @ h = since @ Wrote k v (Some i) # before"
  obtains b where "before = b @ h" "Called (Rpc (RpcPut k v i)) \<in> set b"
proof -
  have call: "Rpc (RpcPut k v i) \<in> set (calls_of before)"
    by (rule written_after_call) (use legal wrote in simp)
  obtain us where us: "later = since @ us \<and> us @ h = Wrote k v (Some i) # before \<or>
      later @ us = since \<and> h = us @ Wrote k v (Some i) # before"
    using wrote unfolding append_eq_append_conv2 by blast
  have "h \<noteq> us @ Wrote k v (Some i) # before"
  proof
    assume "h = us @ Wrote k v (Some i) # before"
    then show False using calls_append [of us "Wrote k v (Some i) # before"] call new by auto
  qed
  with us have us: "us @ h = Wrote k v (Some i) # before" by blast
  have "us \<noteq> []"
  proof
    assume "us = []"
    with us have "h = Wrote k v (Some i) # before" by simp
    with call new show False by simp
  qed
  with us obtain b where b: "before = b @ h" by (cases us) auto
  with called_in_later [of "Rpc (RpcPut k v i)" b h] call new show ?thesis by (intro that) simp_all
qed

end
