(* ===== verification/Linearizability.thy ===== *)
theory Linearizability
  imports Sample_Session Store_History "HOL-Library.Sublist"
begin

text \<open>
  The running server refines an atomic key-value store: the states it reaches are explained
  by the legal histories of \<open>Store_History\<close>, whatever the interleaving of its threads and
  whatever storage, network and the other nodes do; and what changed the store in such a
  history is what raft committed, in the order of the commits, each at most once.

  What it needs of the raft crate is that it hands a proposal back as it was given.
\<close>

section \<open>What the crate carries\<close>

text \<open>
  What there is to know of a state of the crate: \<open>proposed\<close>, the data last proposed under
  each context, and \<open>handed\<close>, all it has handed out to be applied since it was made, oldest
  first. An entry
  it commits under a context of this node has the data proposed with it; nothing but a
  proposal changes what was proposed, nothing but \<open>ready\<close> and \<open>advance\<close> hands out
  anything. (The context is opaque to raft, and an id drawn by \<open>uuid_v4\<close> is used by no
  other node.)
\<close>

record 'r watch =
  proposed :: "'r \<Rightarrow> bytes \<rightharpoonup> bytes"
  handed :: "'r \<Rightarrow> handed_item list"

definition as_proposed :: "(bytes \<rightharpoonup> bytes) \<Rightarrow> entry \<Rightarrow> bool" where
  "as_proposed ps e \<longleftrightarrow>
     (e_type e = EntryNormal \<longrightarrow> ps (e_context e) = None \<or> ps (e_context e) = Some (e_data e))"

definition carries :: "('t, 'm, 'r, 'z) raft_libs_scheme \<Rightarrow> 'r watch \<Rightarrow> bool" where
  "carries L W \<longleftrightarrow>
     (\<forall>cfg st w. raw_new L cfg st = Ok w \<longrightarrow> handed W w = []) \<and>
     (\<forall>st c d w. proposed W (snd (raw_propose L st c d w)) = (proposed W w)(c \<mapsto> d) \<and>
        handed W (snd (raw_propose L st c d w)) = handed W w) \<and>
     (\<forall>st w. proposed W (snd (raw_campaign L st w)) = proposed W w \<and>
        handed W (snd (raw_campaign L st w)) = handed W w) \<and>
     (\<forall>st m w. proposed W (snd (raw_step L st m w)) = proposed W w \<and>
        handed W (snd (raw_step L st m w)) = handed W w) \<and>
     (\<forall>st w. proposed W (raw_tick L st w) = proposed W w \<and> handed W (raw_tick L st w) = handed W w) \<and>
     (\<forall>st cc w. proposed W (snd (raw_apply_conf_change L st cc w)) = proposed W w \<and>
        handed W (snd (raw_apply_conf_change L st cc w)) = handed W w) \<and>
     (\<forall>st w rd w'. raw_ready L st w = (rd, w') \<longrightarrow>
        proposed W w' = proposed W w \<and> handed W w' = handed W w @ ready_items L rd \<and>
        list_all (as_proposed (proposed W w)) (ry_committed_entries rd)) \<and>
     (\<forall>st rd w light w'. raw_advance L st rd w = (light, w') \<longrightarrow>
        proposed W w' = proposed W w \<and> handed W w' = handed W w @ light_items light \<and>
        list_all (as_proposed (proposed W w)) (lr_committed_entries light))"

text \<open>What the items handed out do to the store.\<close>

definition item_effects :: "('t, 'm, 'r, 'z) raft_libs_scheme \<Rightarrow> handed_item \<Rightarrow> store_effect list" where
  "item_effects L i =
     (case i of
        Snapshot_data b \<Rightarrow> (case bincode_codec_decode L b of Ok m \<Rightarrow> [Set_all (bt_get m)] | _ \<Rightarrow> [])
      | Committed e \<Rightarrow>
          if e_type e \<noteq> EntryNormal \<or> e_data e = [] then []
          else (case prost_decode L (e_data e) of
                  Ok c \<Rightarrow> (case cmd c of Some (CmdPut k v) \<Rightarrow> [Set_key k v] | None \<Rightarrow> [])
                | _ \<Rightarrow> []))"

definition committed_effects ::
    "('t, 'm, 'r, 'z) raft_libs_scheme \<Rightarrow> handed_item list \<Rightarrow> store_effect list" where
  "committed_effects L is = concat (map (item_effects L) is)"

lemma committed_effects_simps [simp]:
  "committed_effects L [] = []"
  "committed_effects L (i # is) = item_effects L i @ committed_effects L is"
  "committed_effects L (is @ js) = committed_effects L is @ committed_effects L js"
  by (simp_all add: committed_effects_def)

section \<open>The ready loop against a history\<close>

text \<open>\<open>C\<close> are the calls made so far, \<open>q\<close> the items handed out that are still to be applied.\<close>

definition told ::
    "('t, 'm, 'r, 'z) raft_libs_scheme \<Rightarrow> 'r watch \<Rightarrow> server_command list \<Rightarrow> handed_item list \<Rightarrow> history \<Rightarrow>
     ('t, 'm, 'r, 'y) app_state_scheme \<Rightarrow> bool" where
  "told L W C q h s \<longleftrightarrow>
     legal h \<and> calls_of h = C \<and> value_of h = kv_abs (kv_node s) \<and> answers_of h = replies s \<and>
     subseq (effects_of h @ committed_effects L q) (committed_effects L (handed W (raw (raft_node_of s))))"

text \<open>A caller who waits under a context is the one whose PUT was proposed with it.\<close>

definition waits_for ::
    "('t, 'm, 'r, 'z) raft_libs_scheme \<Rightarrow> server_command list \<Rightarrow> bytes option \<Rightarrow> oneshot \<Rightarrow> bool" where
  "waits_for L C d i \<longleftrightarrow>
     (\<exists>k v data. d = Some data \<and> prost_decode L data = Ok \<lparr>cmd = Some (CmdPut k v)\<rparr> \<and>
        Rpc (RpcPut k v i) \<in> set C)"

definition waiting ::
    "('t, 'm, 'r, 'z) raft_libs_scheme \<Rightarrow> 'r watch \<Rightarrow> server_command list \<Rightarrow>
     ('t, 'm, 'r, 'y) app_state_scheme \<Rightarrow> bool" where
  "waiting L W C s \<longleftrightarrow>
     callbacks_inv L (raft_node_of s) \<and>
     inj_on (callbacks (raft_node_of s)) (dom (callbacks (raft_node_of s))) \<and>
     (\<forall>c i. callbacks (raft_node_of s) c = Some i \<longrightarrow>
        i \<notin> reply_to ` set (replies s) \<and> waits_for L C (proposed W (raw (raft_node_of s)) c) i)"

definition explained ::
    "('t, 'm, 'r, 'z) raft_libs_scheme \<Rightarrow> 'r watch \<Rightarrow> server_command list \<Rightarrow> history \<Rightarrow>
     handed_item list \<Rightarrow> ('t, 'm, 'r, 'y) app_state_scheme \<Rightarrow> bool" where
  "explained L W C h q s \<longleftrightarrow>
     carries L W \<and> waiting L W C s \<and>
     (\<forall>e. Committed e \<in> set q \<longrightarrow> as_proposed (proposed W (raw (raft_node_of s))) e) \<and>
     (\<exists>later. told L W C q (later @ h) s)"

lemma explainedI:
  assumes "explained L W C h q s" and "waiting L W C s'"
    and "\<And>e. Committed e \<in> set q' \<Longrightarrow> as_proposed (proposed W (raw (raft_node_of s'))) e"
    and "\<And>g. told L W C q g s \<Longrightarrow> \<exists>later. told L W C q' (later @ g) s'"
  shows "explained L W C h q' s'"
  using assms unfolding explained_def by (metis append_assoc)

text \<open>A step that changes nothing a history tells.\<close>

lemma explained_quiet:
  assumes "explained L W C h q s"
    and "callbacks (raft_node_of s') = callbacks (raft_node_of s)"
    and "uuids (raft_node_of s') = uuids (raft_node_of s)"
    and "proposed W (raw (raft_node_of s')) = proposed W (raw (raft_node_of s))"
    and "handed W (raw (raft_node_of s')) = handed W (raw (raft_node_of s))"
    and "kv_node s' = kv_node s" and "replies s' = replies s"
  shows "explained L W C h q s'"
  using assms by (simp add: explained_def waiting_def callbacks_inv_def told_def)

lemma subseq_drop: "subseq (xs @ ys @ zs) us \<Longrightarrow> subseq (xs @ zs) us"
  by (erule subseq_order.order_trans [rotated])
    (auto intro!: list_emb_append_mono subseq_order.order_refl)

lemma explained_dropped:
  assumes "explained L W C h (i # q) s"
  shows "explained L W C h q s"
proof (rule explainedI [OF assms])
  show "\<exists>later. told L W C q (later @ g) s" if "told L W C (i # q) g s" for g
    using that by (intro exI [of _ "[]"]) (auto simp: told_def dest: subseq_drop)
qed (use assms in \<open>auto simp: explained_def\<close>)

lemma answer_callback_uuids [frame_simps]:
  "uuids (raft_node_of (answer_callback c r s)) = uuids (raft_node_of s)"
  by (simp add: answer_callback_def take_callback_def send_reply_def Let_def split: option.split)

lemma explained_answer:
  assumes s: "explained L W C h (Committed e # q) s" and e: "e_type e = EntryNormal" "e_data e \<noteq> []"
    and put: "prost_decode L (e_data e) = Ok \<lparr>cmd = Some (CmdPut k v)\<rparr>"
    and kv: "kv_abs n = (kv_abs (kv_node s))(k \<mapsto> v)"
  shows "explained L W C h q (answer_callback (e_context e) (Ok ()) (s\<lparr>kv_node := n\<rparr>))"
    (is "explained _ _ _ _ _ ?s")
proof (rule explainedI [OF s])
  let ?c = "e_context e"
  have w: "waiting L W C s" and fit: "as_proposed (proposed W (raw (raft_node_of s))) e"
    using s by (auto simp: explained_def)
  show "as_proposed (proposed W (raw (raft_node_of ?s))) x" if "Committed x \<in> set q" for x
    using s that by (simp add: explained_def frame_simps)
  have inv: "callbacks_inv L (raft_node_of ?s)"
    by (rule answer_callback_inv) (use w in \<open>simp add: waiting_def\<close>)
  let ?m = "callbacks (raft_node_of s)"
  have inj: "inj_on ?m (dom ?m)" and each: "?m c = Some i \<Longrightarrow>
      i \<notin> reply_to ` set (replies s) \<and> waits_for L C (proposed W (raw (raft_node_of s)) c) i" for c i
    using w by (simp_all add: waiting_def)
  have "i \<notin> reply_to ` set (replies ?s) \<and> waits_for L C (proposed W (raw (raft_node_of ?s)) c) i"
    if "callbacks (raft_node_of ?s) c = Some i" for c i
  proof -
    have c: "c \<noteq> ?c" "?m c = Some i" using that by (auto simp: frame_simps split: if_splits)
    then have "?m ?c \<noteq> Some i" using inj_onD [OF inj, of c ?c] by (auto simp: dom_def)
    with each [OF c(2)] show ?thesis by (auto simp: frame_simps split: option.splits)
  qed
  moreover have "inj_on (?m(?c := None)) (dom (?m(?c := None)))"
    using inj by (auto simp: inj_on_def)
  ultimately show "waiting L W C ?s"
    using inv unfolding waiting_def by (simp add: frame_simps)
  have effect: "item_effects L (Committed e) = [Set_key k v]" using e put by (simp add: item_effects_def)
  fix g
  assume g: "told L W C (Committed e # q) g s"
  show "\<exists>later. told L W C q (later @ g) ?s"
  proof (cases "callbacks (raft_node_of s) ?c")
    case None
    with g kv effect have "told L W C q ([Wrote k v None] @ g) ?s" by (simp add: told_def frame_simps)
    then show ?thesis by blast
  next
    case (Some i)
    with w have i: "i \<notin> reply_to ` set (replies s)" "waits_for L C (proposed W (raw (raft_node_of s)) ?c) i"
      by (auto simp: waiting_def)
    with fit e(1) put have "Rpc (RpcPut k v i) \<in> set C"
      by (auto simp: waits_for_def as_proposed_def)
    with g kv i(1) Some effect have "told L W C q ([Wrote k v (Some i)] @ g) ?s"
      by (simp add: told_def frame_simps is_open_def)
    then show ?thesis by blast
  qed
qed

text \<open>
  An entry that cannot be decoded, or holds no command, is nobody's: a caller's entry holds
  the PUT it was made for.
\<close>

lemma no_caller:
  assumes "explained L W C h (Committed e # q) s" and "e_type e = EntryNormal"
    and "\<forall>k v. prost_decode L (e_data e) \<noteq> Ok \<lparr>cmd = Some (CmdPut k v)\<rparr>"
  shows "callbacks (raft_node_of s) (e_context e) = None"
proof (rule ccontr)
  assume "callbacks (raft_node_of s) (e_context e) \<noteq> None"
  then obtain i where i: "callbacks (raft_node_of s) (e_context e) = Some i" by blast
  have "as_proposed (proposed W (raw (raft_node_of s))) e" using assms(1) by (simp add: explained_def)
  moreover have "waits_for L C (proposed W (raw (raft_node_of s)) (e_context e)) i"
    using assms(1) i by (simp add: explained_def waiting_def)
  ultimately show False using assms(2,3) by (auto simp: waits_for_def as_proposed_def)
qed

lemma explained_stored:
  "explained L W C h q s \<Longrightarrow> storage_op f s = (r, s') \<Longrightarrow> explained L W C h q s'"
  by (rule explained_quiet [of _ _ _ _ _ s]) (auto simp: storage_op_def split: prod.splits)

lemma explained_entry:
  assumes s: "explained L W C h (Committed e # q) s" and e: "e_type e = EntryNormal" "e_data e \<noteq> []"
    and r: "apply_normal_entry L e s = (r, s')"
  shows "explained L W C h q s'"
proof (cases "\<exists>k v. prost_decode L (e_data e) = Ok \<lparr>cmd = Some (CmdPut k v)\<rparr>")
  case True
  then obtain k v where put: "prost_decode L (e_data e) = Ok \<lparr>cmd = Some (CmdPut k v)\<rparr>" by blast
  let ?n = "(kv_node s)\<lparr>kv := bt_insert k v (kv (kv_node s))\<rparr>"
  have "explained L W C h q (answer_callback (e_context e) (Ok ()) (s\<lparr>kv_node := ?n\<rparr>))"
    by (rule explained_answer [OF s e put]) (simp add: kv_abs_def)
  then have "explained L W C h q (notify_kv_update L e (s\<lparr>kv_node := ?n\<rparr>))"
    by (rule explained_quiet)
      (simp_all add: notify_kv_update_def codec_decode_def put frame_simps send_update_def)
  moreover have "apply_kv_command L (e_data e) (kv_node s) = (Ok (), ?n)"
    by (simp add: apply_kv_command_def codec_decode_def put)
  ultimately show ?thesis
    using r explained_stored by (simp add: apply_normal_entry_def)
next
  case False
  then have none: "callbacks (raft_node_of s) (e_context e) = None" using no_caller [OF s e(1)] by blast
  then have same: "answer_callback (e_context e) x s = s" for x
    by (simp add: answer_callback_def take_callback_def fun_upd_idem)
  note rest = explained_dropped [OF s]
  show ?thesis
  proof (cases "prost_decode L (e_data e)")
    case (Ok c)
    with False have "cmd c = None" by (cases c; cases "cmd c") (auto split: kv_cmd.splits, metis kv_cmd.exhaust)
    with Ok r explained_stored [OF rest] show ?thesis
      by (simp add: apply_normal_entry_def apply_kv_command_def codec_decode_def notify_kv_update_def)
  next
    case (Err m)
    with r explained_stored [OF rest] same show ?thesis
      by (simp add: apply_normal_entry_def apply_kv_command_def codec_decode_def)
  next
    case Panic
    with r rest show ?thesis by (simp add: apply_normal_entry_def apply_kv_command_def codec_decode_def)
  qed
qed

lemma explained_restored:
  assumes "explained L W C h (Snapshot_data b # q) s" and "bincode_codec_decode L b = Ok m"
  shows "explained L W C h q (s\<lparr>kv_node := (kv_node s)\<lparr>kv := m\<rparr>\<rparr>)"
proof (rule explainedI [OF assms(1)])
  fix g
  let ?s = "s\<lparr>kv_node := (kv_node s)\<lparr>kv := m\<rparr>\<rparr>"
  assume "told L W C (Snapshot_data b # q) g s"
  then have "told L W C q ([Restored (bt_get m)] @ g) ?s"
    using assms(2) by (simp add: told_def item_effects_def kv_abs_def)
  then show "\<exists>later. told L W C q (later @ g) ?s" by blast
qed (use assms in \<open>auto simp: explained_def waiting_def\<close>)

text \<open>A state of the crate that carries the same proposals and has handed out more.\<close>

lemma explained_handed:
  assumes s: "explained L W C h [] s" and w: "proposed W w = proposed W (raw (raft_node_of s))"
    "handed W w = handed W (raw (raft_node_of s)) @ q"
    and q: "\<And>e. Committed e \<in> set q \<Longrightarrow> as_proposed (proposed W w) e"
  shows "explained L W C h q (s\<lparr>raft_node_of := (raft_node_of s)\<lparr>raw := w\<rparr>\<rparr>)"
proof (rule explainedI [OF s])
  let ?s = "s\<lparr>raft_node_of := (raft_node_of s)\<lparr>raw := w\<rparr>\<rparr>"
  show "\<exists>later. told L W C q (later @ g) ?s" if "told L W C [] g s" for g
    using that w(2) by (intro exI [of _ "[]"]) (simp add: told_def list_emb_append_mono subseq_order.order_refl)
  show "waiting L W C ?s"
    using s w(1) by (simp add: explained_def waiting_def callbacks_inv_def)
qed (use q in simp)

lemma explained_raw:
  "explained L W C h q s \<Longrightarrow> proposed W w = proposed W (raw (raft_node_of s)) \<Longrightarrow>
   handed W w = handed W (raw (raft_node_of s)) \<Longrightarrow>
   explained L W C h q (s\<lparr>raft_node_of := (raft_node_of s)\<lparr>raw := w\<rparr>\<rparr>)"
  by (erule explained_quiet) simp_all

lemma explained_carries: "explained L W C h q s \<Longrightarrow> carries L W"
  by (simp add: explained_def)

interpretation told: round_invariant L "explained L W C h" for L W C h
proof
  fix s rd s'
  assume s: "explained L W C h [] s" and r: "take_ready L s = (Ok rd, s')"
  obtain w where w: "raw_ready L (raft_store (raft_node_of s)) (raw (raft_node_of s)) = (rd, w)"
    "s' = s\<lparr>raft_node_of := (raft_node_of s)\<lparr>raw := w\<rparr>\<rparr>"
    using r by (auto simp: take_ready_def split: prod.splits)
  with explained_carries [OF s] have "proposed W w = proposed W (raw (raft_node_of s))"
    "handed W w = handed W (raw (raft_node_of s)) @ ready_items L rd"
    "list_all (as_proposed (proposed W w)) (ry_committed_entries rd)"
    unfolding carries_def by metis+
  then show "explained L W C h (ready_items L rd) s'"
    unfolding w(2) by (intro explained_handed [OF s]) (auto simp: list_all_iff ready_items_def split: if_splits)
next
  fix s rd light s'
  assume s: "explained L W C h [] s" and r: "advance_ready L rd s = (Ok light, s')"
  obtain w where w: "raw_advance L (raft_store (raft_node_of s)) rd (raw (raft_node_of s)) = (light, w)"
    "s' = s\<lparr>raft_node_of := (raft_node_of s)\<lparr>raw := w\<rparr>\<rparr>"
    using r by (auto simp: advance_ready_def split: prod.splits)
  with explained_carries [OF s] have "proposed W w = proposed W (raw (raft_node_of s))"
    "handed W w = handed W (raw (raft_node_of s)) @ light_items light"
    "list_all (as_proposed (proposed W w)) (lr_committed_entries light)"
    unfolding carries_def by metis+
  then show "explained L W C h (light_items light) s'"
    unfolding w(2) by (intro explained_handed [OF s]) (auto simp: list_all_iff light_items_def)
next
  fix q s cc x s'
  assume s: "explained L W C h q s"
    and r: "on_node (on_raw (\<lambda>st. raw_apply_conf_change L st cc)) s = (x, s')"
  then have "s' = s\<lparr>raft_node_of := (raft_node_of s)\<lparr>raw :=
      snd (raw_apply_conf_change L (raft_store (raft_node_of s)) cc (raw (raft_node_of s)))\<rparr>\<rparr>"
    by (auto simp: on_node_def on_raw_def split: prod.splits)
  with s show "explained L W C h q s'"
    using explained_carries [OF s] by (simp add: explained_raw carries_def)
next
  fix q and s :: "(_, _, _, _) loop_state"
  assume s: "explained L W C h q s"
  then show "explained L W C h q (s\<lparr>raft_node_of := (raft_node_of s)
      \<lparr>raw := raw_tick L (raft_store (raft_node_of s)) (raw (raft_node_of s))\<rparr>\<rparr>)"
    using explained_carries [OF s] by (simp add: explained_raw carries_def)
  show "explained L W C h q (with_store st s)" for st
    by (rule explained_quiet [OF s]) simp_all
  show "explained L W C h q (s\<lparr>loop_transport := x\<rparr>)" for x
    by (rule explained_quiet [OF s]) simp_all
  show "explained L W C h q (send_update u s)" for u
    by (rule explained_quiet [OF s]) (simp_all add: frame_simps)
  show "explained L W C h q (update_tui_state L s)"
    by (rule explained_quiet [OF s]) (simp_all add: update_tui_state_frame)
qed (auto intro: explained_entry explained_restored explained_dropped)

section \<open>Inputs of the ready loop\<close>

lemma explained_propose:
  assumes P: "prost_ok L" and U: "inj (uuid_v4 L)" and s: "explained L W C h [] s"
    and new: "\<And>i. cb = Some i \<Longrightarrow> Rpc (RpcPut k v i) \<in> set C \<and>
      i \<notin> ran (callbacks (raft_node_of s)) \<and> i \<notin> reply_to ` set (replies s)"
    and r: "on_node (propose_command L k v cb) s = (x, t)"
  shows "explained L W C h [] t"
proof (cases "is_leader L (raft_node_of s)")
  case False
  with r have "t = s" by (simp add: on_node_def propose_command_def)
  with s show ?thesis by simp
next
  case True
  let ?n = "raft_node_of s" and ?m = "callbacks (raft_node_of s)"
  let ?c = "uuid_v4 L (uuids ?n)"
  obtain data where d: "prost_decode L data = Ok \<lparr>cmd = Some (CmdPut k v)\<rparr>"
    and run: "propose_command L k v cb ?n =
      (case raw_propose L (raft_store ?n) ?c data (raw ?n) of
         (r, w) \<Rightarrow> (r, ?n\<lparr>raw := w, uuids := Suc (uuids ?n),
           callbacks := (case cb of Some i \<Rightarrow> ?m(?c \<mapsto> i) | None \<Rightarrow> ?m)\<rparr>))"
    by (rule propose_leader [OF P True])
  define w where "w = snd (raw_propose L (raft_store ?n) ?c data (raw ?n))"
  have t: "t = s\<lparr>raft_node_of := ?n\<lparr>raw := w, uuids := Suc (uuids ?n),
      callbacks := (case cb of Some i \<Rightarrow> ?m(?c \<mapsto> i) | None \<Rightarrow> ?m)\<rparr>\<rparr>"
    using r run by (auto simp: on_node_def w_def split: prod.splits)
  have w: "proposed W w = (proposed W (raw ?n))(?c \<mapsto> data)" and same: "handed W w = handed W (raw ?n)"
    using explained_carries [OF s] by (simp_all add: carries_def w_def)
  have inv: "callbacks_inv L ?n" and inj: "inj_on ?m (dom ?m)"
    and each: "\<And>c i. ?m c = Some i \<Longrightarrow>
      i \<notin> reply_to ` set (replies s) \<and> waits_for L C (proposed W (raw ?n) c) i"
    using s by (simp_all add: explained_def waiting_def)
  have free: "?m ?c = None" by (rule callbacks_inv_fresh [OF U inv])
  have "waiting L W C t"
  proof (cases cb)
    case None
    have "waits_for L C (proposed W w c) i" if "?m c = Some i" for c i
      using each [OF that] that free unfolding w by (cases "c = ?c") auto
    with inv inj each show ?thesis
      by (simp add: t None waiting_def callbacks_inv_def less_Suc_eq_le) (auto simp: subset_iff)
  next
    case (Some i)
    have i: "Rpc (RpcPut k v i) \<in> set C" "i \<notin> ran ?m" "i \<notin> reply_to ` set (replies s)"
      using new [OF Some] by blast+
    have "inj_on (?m(?c \<mapsto> i)) (dom (?m(?c \<mapsto> i)))"
      using inj i(2) by (auto simp: inj_on_def ran_def)
    moreover have "waits_for L C (proposed W w c) j \<and> j \<notin> reply_to ` set (replies s)"
      if "(?m(?c \<mapsto> i)) c = Some j" for c j
    proof (cases "c = ?c")
      case True
      with that i d show ?thesis by (auto simp: w waits_for_def)
    next
      case False
      with that each [of c j] show ?thesis by (simp add: w)
    qed
    moreover have "callbacks_inv L (raft_node_of t)"
      using callbacks_inv_put [OF inv, of i] by (simp add: t Some callbacks_inv_def)
    ultimately show ?thesis by (simp add: t Some waiting_def)
  qed
  then show ?thesis
    by (intro explainedI [OF s]) (auto simp: t told_def same intro: exI [of _ "[]"])
qed

lemma explained_reply:
  assumes s: "explained L W C h [] s" and i: "reply_to a \<notin> ran (callbacks (raft_node_of s))"
    and told: "\<And>g. told L W C [] g s \<Longrightarrow> told L W C [] (ev # g) (send_reply a s)"
  shows "explained L W C h [] (send_reply a s)"
proof (rule explainedI [OF s])
  show "waiting L W C (send_reply a s)"
    using s i by (auto simp: explained_def waiting_def send_reply_def ran_def)
  show "\<exists>later. told L W C [] (later @ g) (send_reply a s)" if "told L W C [] g s" for g
    using told [OF that] by (intro exI [of _ "[ev]"]) simp
qed simp

lemma explained_handle:
  assumes P: "prost_ok L" and U: "inj (uuid_v4 L)" and s: "explained L W C h [] s"
    and c: "\<And>q. c = Rpc q \<Longrightarrow> Rpc q \<in> set C"
    and new: "set (command_oneshots c) \<inter> (ran (callbacks (raft_node_of s)) \<union> reply_to ` set (replies s)) = {}"
    and r: "handle L c s = (r, s')"
  shows "explained L W C h [] s'"
proof (cases c)
  case (Rpc q)
  show ?thesis
  proof (cases q)
    case (RpcGet k i)
    let ?a = "GetReply i (bt_get (get_internal_map (kv_node s)) k)"
    have "explained L W C h [] (send_reply ?a s)"
      by (rule explained_reply [OF s, where ev = "Looked_up i k (bt_get (get_internal_map (kv_node s)) k)"])
        (use new c Rpc RpcGet in \<open>auto simp: told_def send_reply_def is_open_def kv_abs_def get_internal_map_def\<close>)
    with r Rpc RpcGet show ?thesis by simp
  next
    case (RpcPut k v i)
    show ?thesis
    proof (cases "is_leader L (raft_node_of s)")
      case False
      let ?m = "not_leader_error (rs_leader_id (get_state L (raft_node_of s)))"
      have "explained L W C h [] (send_reply (PutReply i (Err ?m)) s)"
        by (rule explained_reply [OF s, where ev = "Refused i ?m"])
          (use new c Rpc RpcPut in \<open>auto simp: told_def send_reply_def is_open_def\<close>)
      with r Rpc RpcPut False show ?thesis by (simp add: Let_def)
    next
      case True
      obtain x t where t: "on_node (propose_command L k v (Some i)) s = (x, t)" by fastforce
      with r True Rpc RpcPut have "s' = t" by (cases x) simp_all
      with explained_propose [OF P U s _ t] new c Rpc RpcPut show ?thesis by auto
    qed
  qed
next
  case (User u)
  have quiet: "explained L W C h [] t \<Longrightarrow> raft_node_of s' = raft_node_of t \<Longrightarrow>
      kv_node s' = kv_node t \<Longrightarrow> replies s' = replies t \<Longrightarrow> ?thesis" for t
    by (erule explained_quiet) simp_all
  show ?thesis
  proof (cases u)
    case (UserPut k v)
    obtain x t where t: "on_node (propose_command L k v None) s = (x, t)" by fastforce
    have "explained L W C h [] t" by (rule explained_propose [OF P U s _ t]) simp
    moreover have "raft_node_of s' = raft_node_of t \<and> kv_node s' = kv_node t \<and> replies s' = replies t"
      using r
      by (auto simp: User UserPut t Let_def frame_simps send_update_def split: result.splits raft_error.splits)
    ultimately show ?thesis using quiet by blast
  next
    case UserCampaign
    obtain x t where t: "on_node (on_raw (raw_campaign L)) s = (x, t)" by fastforce
    then have "t = s\<lparr>raft_node_of := (raft_node_of s)\<lparr>raw :=
        snd (raw_campaign L (raft_store (raft_node_of s)) (raw (raft_node_of s)))\<rparr>\<rparr>"
      by (auto simp: on_node_def on_raw_def split: prod.splits)
    then have "explained L W C h [] t"
      using explained_carries [OF s] by (simp add: explained_raw [OF s] carries_def)
    moreover have "raft_node_of s' = raft_node_of t \<and> kv_node s' = kv_node t \<and> replies s' = replies t"
      using r by (auto simp: User UserCampaign t frame_simps send_update_def split: result.splits)
    ultimately show ?thesis using quiet by blast
  qed (use r quiet [OF s] in \<open>auto simp: User frame_simps send_update_def Let_def\<close>)
qed

lemma explained_turn:
  assumes "prost_ok L" and "inj (uuid_v4 L)" and s: "explained L W C h [] s"
    and c: "\<And>q. inp = InCommand (Rpc q) \<Longrightarrow> Rpc q \<in> set C"
    and new: "set (input_oneshots (inp, due)) \<inter>
      (ran (callbacks (raft_node_of s)) \<union> reply_to ` set (replies s)) = {}"
    and r: "loop_turn L tsend (inp, due) s = (r, s')"
  shows "explained L W C h [] s'"
proof -
  obtain q t where t: "receive_input L inp s = (q, t)" by fastforce
  have "explained L W C h [] t"
  proof (cases inp)
    case (InCommand d)
    obtain x u where u: "handle L d s = (x, u)" by fastforce
    with t have "t = u" by (cases x) (simp_all add: InCommand bindO_def)
    with explained_handle [OF assms(1,2) s _ _ u] c new show ?thesis by (simp add: InCommand)
  next
    case (InMessage m)
    obtain x u where u: "on_node (on_raw (\<lambda>st. raw_step L st m)) s = (x, u)" by fastforce
    with t have "t = u" by (cases x) (simp_all add: InMessage bindO_def handle_raft_message_def)
    with u have "t = s\<lparr>raft_node_of := (raft_node_of s)\<lparr>raw :=
        snd (raw_step L (raft_store (raft_node_of s)) m (raw (raft_node_of s)))\<rparr>\<rparr>"
      by (auto simp: on_node_def on_raw_def split: prod.splits)
    then show ?thesis
      using explained_carries [OF s] by (simp add: explained_raw [OF s] carries_def)
  qed (use s t in auto)
  with told.turn_keeps [OF t _ r] show ?thesis by blast
qed

section \<open>The process against a history\<close>

definition process_told ::
    "('t, 'm, 'r, 'z) raft_libs_scheme \<Rightarrow> 'r watch \<Rightarrow> history \<Rightarrow>
     ('t, 'm, 'r, 'c, 'h) process \<Rightarrow> bool" where
  "process_told L W h p \<longleftrightarrow>
     explained L W (cmd_queue (sp_grpc p)) h [] (sp_loop p) \<and>
     (\<forall>q. Rpc q \<in> set (sp_queue p) \<longrightarrow> Rpc q \<in> set (cmd_queue (sp_grpc p))) \<and>
     set (concat (map command_oneshots (cmd_queue (sp_grpc p)))) \<subseteq> {..<oneshots (sp_grpc p)}"

text \<open>A call is added to the history.\<close>

lemma explained_call:
  assumes s: "explained L W C h [] s"
    and new: "set (command_oneshots c) \<inter> set (concat (map command_oneshots C)) = {}"
  shows "explained L W (C @ [c]) h [] s"
proof -
  have "waits_for L (C @ [c]) d i" if "waits_for L C d i" for d i
    using that by (auto simp: waits_for_def)
  then have "waiting L W (C @ [c]) s"
    using s by (auto simp: explained_def waiting_def)
  moreover obtain g where "told L W C [] (g @ h) s" using s by (auto simp: explained_def)
  then have "told L W (C @ [c]) [] ((Called c # g) @ h) s" using new by (simp add: told_def)
  ultimately show ?thesis using s unfolding explained_def by blast
qed

lemma told_call:
  assumes p: "process_told L W h p" and sig: "signals_inv p"
    and g: "oneshots g = Suc (oneshots (sp_grpc p))"
      "cmd_queue g = cmd_queue (sp_grpc p) @ (if driver_alive (sp_grpc p) then [c] else [])"
    and c: "command_oneshots c = [oneshots (sp_grpc p)]"
  shows "process_told L W h (grpc_moves g p)"
proof -
  let ?C = "cmd_queue (sp_grpc p)" and ?n = "oneshots (sp_grpc p)"
  have ex: "explained L W ?C h [] (sp_loop p)"
    and sub: "set (concat (map command_oneshots ?C)) \<subseteq> {..<?n}"
    using p by (simp_all only: process_told_def)
  have "?n \<notin> set (concat (map command_oneshots ?C))" using sub by blast
  then have "explained L W (?C @ [c]) h [] (sp_loop p)"
    by (intro explained_call [OF ex]) (simp add: c)
  with ex have "explained L W (cmd_queue g) h [] (sp_loop p)" by (simp add: g(2))
  moreover have "\<forall>q. Rpc q \<in> set (sp_queue (grpc_moves g p)) \<longrightarrow> Rpc q \<in> set (cmd_queue g)"
    using p by (auto simp: process_told_def grpc_moves_def g(2))
  moreover have "set (concat (map command_oneshots (cmd_queue g))) \<subseteq> {..<oneshots g}"
    using sub by (auto simp: g c)
  ultimately show ?thesis by (simp add: process_told_def grpc_moves_def)
qed

lemma told_loop:
  assumes "prost_ok L" and "inj (uuid_v4 L)"
    and p: "process_told L W h p" and calls: "calls_inv L p"
    and run: "receivable inp p" "loop_turn L tsend (inp, due) (sp_loop p) = (r, s)"
  shows "process_told L W h (loop_moves inp r s p)"
proof -
  let ?C = "cmd_queue (sp_grpc p)"
  have ex: "explained L W ?C h [] (sp_loop p)"
    using p by (simp add: process_told_def)
  have "Rpc q \<in> set ?C" if "inp = InCommand (Rpc q)" for q
    using p run(1) that by (cases "sp_queue p") (auto simp: process_told_def)
  moreover have "set (input_oneshots (inp, due)) \<subseteq> set (queued p)"
    using run(1) by (cases inp; cases "sp_queue p") (auto simp: queued_def)
  then have "set (input_oneshots (inp, due)) \<inter>
      (ran (callbacks (raft_node_of (sp_loop p))) \<union> reply_to ` set (replies (sp_loop p))) = {}"
    using calls unfolding calls_inv_def caller_inv_def by blast
  ultimately have s: "explained L W ?C h [] s"
    using explained_turn [OF assms(1,2) ex _ _ run(2)] by blast
  have same: "sp_grpc (received inp p) = sp_grpc p" "set (sp_queue (received inp p)) \<subseteq> set (sp_queue p)"
    by (cases inp; cases "sp_queue p"; auto)+
  with s p show ?thesis
    by (auto simp: process_told_def loop_moves_def loop_over_def Let_def)
qed

lemma told_step:
  assumes "prost_ok L" and "inj (uuid_v4 L)"
    and "process_step L tsend G checks p p'"
    and p: "process_told L W h p" and calls: "calls_inv L p" and sig: "signals_inv p"
  shows "process_told L W h p'"
  using assms(3)
proof cases
  case (loop inp due r s)
  show ?thesis unfolding loop(1) by (rule told_loop [OF assms(1,2) p calls loop(3,4)])
next
  case (tui i r a)
  obtain cs where "sent (cmd_tx a) = sent (cmd_tx (sp_tui p)) @ map User cs"
    using tui_turn_sends [OF tui(4)] by (auto simp: turn_sends_def)
  then have "Rpc q \<in> set (sp_queue p') \<longleftrightarrow> Rpc q \<in> set (sp_queue p)" for q
    by (auto simp: tui(1) tui_moves_def)
  moreover have "sp_loop p' = sp_loop p" "sp_grpc p' = sp_grpc p" by (simp_all add: tui(1) tui_moves_def)
  ultimately show ?thesis using p by (simp add: process_told_def)
next
  case (put req rx r g)
  show ?thesis
    unfolding put(1)
    by (rule told_call [OF p sig, where c = "Rpc (RpcPut (pr_key req) (pr_value req) (oneshots (sp_grpc p)))"])
      (use service_put_sends [OF put(2)] in simp_all)
next
  case (get req rx r g)
  show ?thesis
    unfolding get(1)
    by (rule told_call [OF p sig, where c = "Rpc (RpcGet (gr_key req) (oneshots (sp_grpc p)))"])
      (use service_get_sends [OF get(2)] in simp_all)
next
  case listener_ends
  with p show ?thesis by (simp add: process_told_def)
qed

lemma told_reachable:
  assumes "bincode_ok L" and "prost_ok L" and "inj (uuid_v4 L)"
    and "process_reachable L tsend G checks p0 p"
    and "process_told L W h p0" and "calls_inv L p0" and "signals_inv p0"
  shows "process_told L W h p"
  using assms(4)
proof induction
  case started
  with assms(5) show ?case .
next
  case (step p p')
  from step.hyps(1) have "calls_inv L p" "signals_inv p"
    using calls_reachable [OF assms(1-3) _ assms(7,6)] signals_reachable [OF _ assms(7)] by blast+
  with told_step [OF assms(2,3) step.hyps(2) step.IH] show ?case .
qed

lemma told_started:
  assumes "server_start L T A os checks args = Ok srv" and "carries L W"
  shows "process_told L W [] (process_start setup srv)"
proof -
  from assms(1) obtain n x ids storage where n: "raft_node_new L (arg_id args) ids storage = Ok n"
    and srv: "srv_driver srv = driver_init n node_new x" "cmd_queue (srv_service srv) = []"
    by (rule server_start_parts)
  have "callbacks n = Map.empty" using n by (auto simp: raft_node_new_def Let_def split: prod.splits)
  with assms(2) srv callbacks_inv_new [OF n] show ?thesis
    by (auto simp: process_told_def process_start_def explained_def waiting_def driver_init_def told_def
        intro: exI [of _ "[]"])
qed

section \<open>Properties\<close>

text \<open>The states a history explains, and what raft committed up to a state.\<close>

definition explains ::
    "('t, 'm, 'r, 'z) raft_libs_scheme \<Rightarrow> 'r watch \<Rightarrow> history \<Rightarrow> ('t, 'm, 'r, 'c, 'h) process \<Rightarrow> bool" where
  "explains L W h p \<longleftrightarrow> told L W (cmd_queue (sp_grpc p)) [] h (sp_loop p)"

definition raft_committed ::
    "('t, 'm, 'r, 'z) raft_libs_scheme \<Rightarrow> 'r watch \<Rightarrow> ('t, 'm, 'r, 'c, 'h) process \<Rightarrow> store_effect list" where
  "raft_committed L W p = committed_effects L (handed W (raw (raft_node_of (sp_loop p))))"

lemma explains_parts:
  "explains L W h p \<longleftrightarrow>
     legal h \<and> calls_of h = cmd_queue (sp_grpc p) \<and> value_of h = kv_abs (kv_node (sp_loop p)) \<and>
     answers_of h = replies (sp_loop p) \<and> subseq (effects_of h) (raft_committed L W p)"
  by (simp add: explains_def told_def raft_committed_def)

lemmas explainsD = explains_parts [THEN iffD1]

lemma told_explains: "process_told L W h p \<Longrightarrow> \<exists>later. explains L W (later @ h) p"
  by (auto simp: process_told_def explained_def explains_def)

lemma explains_told: "process_told L W h p \<Longrightarrow> explains L W g p \<Longrightarrow> process_told L W g p"
  by (auto simp: process_told_def explained_def explains_def intro: exI [of _ "[]"])

lemma histories:
  assumes "bincode_ok L" and "prost_ok L" and "inj (uuid_v4 L)" and "carries L W"
    and "server_start L T A os checks args = Ok srv"
    and "process_reachable L tsend G checks (process_start setup srv) p"
    and "process_reachable L tsend G checks p p1"
  obtains h later where "explains L W h p" "explains L W (later @ h) p1"
proof -
  note start = started_invariants [OF assms(5)]
  have p: "process_told L W [] p"
    by (rule told_reachable [OF assms(1-3,6) told_started [OF assms(5,4)] start(2,1)])
  then obtain h where h: "explains L W h p" using told_explains by fastforce
  have "calls_inv L p" "signals_inv p"
    using calls_reachable [OF assms(1-3,6) start] signals_reachable [OF assms(6) start(1)] by blast+
  then have "process_told L W h p1"
    by (rule told_reachable [OF assms(1-3,7) explains_told [OF p h]])
  with h that show ?thesis using told_explains by blast
qed

text \<open>
  C2: the server is a linearizable store. Every state a started server reaches, under every
  interleaving of its threads and whatever storage, network and other nodes do, is explained
  by a legal history of an atomic store with its calls, its value and its answers; as it runs
  on, histories only grow; and their writes and snapshots are what raft committed, in that
  order and each at most once. So a PUT answered with success has been committed, and
  written once, between its call and its answer; a PUT is refused only by naming the leader,
  and a refused one is never written under its oneshot; a GET is answered with the value at
  a moment between its call and its answer.
\<close>

theorem server_linearizable:
  assumes "bincode_ok L" and "prost_ok L" and "inj (uuid_v4 L)" and "carries L W"
    and "server_start L T A os checks args = Ok srv"
    and "process_reachable L tsend G checks (process_start setup srv) p"
    and "process_reachable L tsend G checks p p1"
  shows "\<exists>h later. legal (later @ h) \<and>
    calls_of h = cmd_queue (sp_grpc p) \<and> value_of h = kv_abs (kv_node (sp_loop p)) \<and>
    answers_of h = replies (sp_loop p) \<and> subseq (effects_of h) (raft_committed L W p) \<and>
    calls_of (later @ h) = cmd_queue (sp_grpc p1) \<and>
    value_of (later @ h) = kv_abs (kv_node (sp_loop p1)) \<and>
    answers_of (later @ h) = replies (sp_loop p1) \<and>
    subseq (effects_of (later @ h)) (raft_committed L W p1)"
proof -
  obtain h later where "explains L W h p" "explains L W (later @ h) p1" by (rule histories [OF assms])
  then show ?thesis unfolding explains_parts by blast
qed

text \<open>
  C8: a caller reads what was acknowledged. Once a PUT to a key was answered with success, a
  GET of that key called later at the same server is answered with the value put, or raft
  committed another write of the key, or a snapshot, that the server has taken in between.
\<close>

theorem acknowledged_puts_are_read:
  assumes "bincode_ok L" and "prost_ok L" and "inj (uuid_v4 L)" and "carries L W"
    and "server_start L T A os checks args = Ok srv"
    and "process_reachable L tsend G checks (process_start setup srv) p"
    and "process_reachable L tsend G checks p p1"
    and "Rpc (RpcPut k v i) \<in> set (cmd_queue (sp_grpc p))"
    and "PutReply i (Ok ()) \<in> set (replies (sp_loop p))"
    and "Rpc (RpcGet k j) \<in> set (cmd_queue (sp_grpc p1)) - set (cmd_queue (sp_grpc p))"
    and "GetReply j x \<in> set (replies (sp_loop p1))"
  shows "\<exists>since before. legal (since @ Wrote k v (Some i) # before) \<and>
    answers_of (since @ Wrote k v (Some i) # before) = replies (sp_loop p1) \<and>
    subseq (effects_of (since @ Wrote k v (Some i) # before)) (raft_committed L W p1) \<and>
    (x = Some v \<or> (\<exists>e \<in> set since. overwrites k e))"
proof -
  obtain h later where h: "explains L W h p" "explains L W (later @ h) p1" by (rule histories [OF assms(1-7)])
  then have "legal (later @ h)" "PutReply i (Ok ()) \<in> set (answers_of h)"
    "Rpc (RpcPut k v i) \<in> set (calls_of h)" "GetReply j x \<in> set (answers_of (later @ h))"
    "Rpc (RpcGet k j) \<in> set (calls_of (later @ h))" "Rpc (RpcGet k j) \<notin> set (calls_of h)"
    "answers_of (later @ h) = replies (sp_loop p1)"
    "subseq (effects_of (later @ h)) (raft_committed L W p1)"
    using assms(8-11) by (simp_all add: explains_parts)
  with read_after_put [of later h i k v j x] show ?thesis by metis
qed

section \<open>Instances\<close>

definition sample_watch :: "sample_carry watch" where
  "sample_watch = \<lparr>proposed = sc_proposed, handed = sc_handed\<rparr>"

lemma sample_carries: "carries sample_carry_libs sample_watch"
  by (auto simp: carries_def sample_watch_def as_proposed_def list_all_iff sample_carry_sel sample_ready_def
      sample_light_def ready_items_def light_items_def sample_commits_def snapshot_default_def get_metadata_def
      snapshot_metadata_default_def)
    (simp_all add: sample_carry_defs)

theorem server_linearizable_witness:
  "\<exists>srv p1 h. server_start sample_carry_libs sample_tcp sample_addr_libs sample_os True
       (sample_args (Some '':memory:'')) = Ok srv \<and>
     process_reachable sample_carry_libs (tcp_send sample_tcp) sample_meta_libs True (process_start (Ok ()) srv) p1 \<and>
     legal h \<and> answers_of h = [PutReply 0 (Ok ()), GetReply 1 (Some ''v'')] \<and>
     calls_of h = [Rpc (RpcPut ''k'' ''v'' 0), Rpc (RpcGet ''k'' 1)] \<and>
     subseq (effects_of h) (raft_committed sample_carry_libs sample_watch p1)"
proof -
  note lib = sample_carry_bincode sample_carry_prost sample_carry_uuid sample_carries
  obtain srv p p1 where s: "server_start sample_carry_libs sample_tcp sample_addr_libs sample_os True
       (sample_args (Some '':memory:'')) = Ok srv"
    "process_reachable sample_carry_libs (tcp_send sample_tcp) sample_meta_libs True (process_start (Ok ()) srv) p"
    "process_reachable sample_carry_libs (tcp_send sample_tcp) sample_meta_libs True p p1"
    "cmd_queue (sp_grpc p1) = [Rpc (RpcPut ''k'' ''v'' 0), Rpc (RpcGet ''k'' 1)]"
    "replies (sp_loop p1) = [PutReply 0 (Ok ()), GetReply 1 (Some ''v'')]"
    using sample_session by blast
  have "process_reachable sample_carry_libs (tcp_send sample_tcp) sample_meta_libs True (process_start (Ok ()) srv) p1"
    using s(3) by induction (auto intro: s(2) process_reachable.step)
  with server_linearizable [OF lib s(1-3)] s(1,4,5) show ?thesis by metis
qed

theorem acknowledged_puts_are_read_witness:
  "\<exists>since before. legal (since @ Wrote ''k'' ''v'' (Some 0) # before) \<and>
     answers_of (since @ Wrote ''k'' ''v'' (Some 0) # before) =
       [PutReply 0 (Ok ()), GetReply 1 (Some ''v'')]"
proof -
  note lib = sample_carry_bincode sample_carry_prost sample_carry_uuid sample_carries
  obtain srv p p1 where s: "server_start sample_carry_libs sample_tcp sample_addr_libs sample_os True
       (sample_args (Some '':memory:'')) = Ok srv"
    "process_reachable sample_carry_libs (tcp_send sample_tcp) sample_meta_libs True (process_start (Ok ()) srv) p"
    "process_reachable sample_carry_libs (tcp_send sample_tcp) sample_meta_libs True p p1"
    and q: "cmd_queue (sp_grpc p) = [Rpc (RpcPut ''k'' ''v'' 0)]" "replies (sp_loop p) = [PutReply 0 (Ok ())]"
    "cmd_queue (sp_grpc p1) = [Rpc (RpcPut ''k'' ''v'' 0), Rpc (RpcGet ''k'' 1)]"
    "replies (sp_loop p1) = [PutReply 0 (Ok ()), GetReply 1 (Some ''v'')]"
    using sample_session by blast
  from acknowledged_puts_are_read [OF lib s, of "''k''" "''v''" 0 1 "Some ''v''"] q show ?thesis
    by (simp del: legal.simps) blast
qed

end
