(* ===== verification/Client.thy ===== *)
theory Client
  imports Grpc_Service Rust_Text Terminal "HOL-Library.Multiset"
begin

text \<open>
  The terminal client, \<^verbatim>\<open>crates/raft-client/src/main.rs\<close>: the retry loop of PUT with its
  redirects, GET, the commands, the keys, and what is drawn.

  The servers, the network, the random choice of a peer and the clock are one world of
  type \<open>'w\<close>, reached only through the fields of \<open>client_libs\<close>; \<open>'c\<close> is a connection.
\<close>

section \<open>State\<close>

datatype input_mode = Normal | Editing

record 'w client_app =
  cl_input :: string
  cl_mode :: input_mode
  cl_messages :: "string list"
  cl_peers :: "string list"
  leader_addr :: "string option"
  world :: 'w

record ('h, 'c, 'w) client_libs = "'h grpc_libs" +
  choose_peer :: "string list \<Rightarrow> 'w \<Rightarrow> string option \<times> 'w"
  connect :: "string \<Rightarrow> 'w \<Rightarrow> ('c, string) result \<times> 'w"
  call_put :: "'c \<Rightarrow> put_request \<Rightarrow> 'w \<Rightarrow> (put_response, status) result \<times> 'w"
  call_get :: "'c \<Rightarrow> get_request \<Rightarrow> 'w \<Rightarrow> (get_response, status) result \<times> 'w"
  sleep_ms :: "nat \<Rightarrow> 'w \<Rightarrow> 'w"
  metadata_to_str :: "string \<Rightarrow> (string, string) result"
  show_elapsed :: "'w \<Rightarrow> 'w \<Rightarrow> string"

definition client_new :: "string list \<Rightarrow> 'w \<Rightarrow> 'w client_app" where
  "client_new peers w =
     \<lparr> cl_input = [], cl_mode = Editing, cl_messages = [], cl_peers = peers,
       leader_addr = None, world = w \<rparr>"

definition log_message :: "string \<Rightarrow> 'w client_app \<Rightarrow> 'w client_app" where
  "log_message m s = s\<lparr>cl_messages := cl_messages s @ [m]\<rparr>"

text \<open>An effect on the world.\<close>

definition on_world :: "('w \<Rightarrow> 'a \<times> 'w) \<Rightarrow> 'w client_app \<Rightarrow> 'a \<times> 'w client_app" where
  "on_world f s = (case f (world s) of (a, w) \<Rightarrow> (a, s\<lparr>world := w\<rparr>))"

section \<open>Requests\<close>

text \<open>
  \<open>unwrap_or(&self.peers[0])\<close> indexes before the choice is looked at, so an empty list of
  peers is a panic.
\<close>

definition get_target_addr ::
    "('h, 'c, 'w, 'z) client_libs_scheme \<Rightarrow> ('w client_app, string, string) op" where
  "get_target_addr L s =
     (case leader_addr s of
        Some leader \<Rightarrow> (Ok leader, s)
      | None \<Rightarrow>
          (case on_world (choose_peer L (cl_peers s)) s of
             (chosen, s') \<Rightarrow>
               (case cl_peers s' of
                  [] \<Rightarrow> (Panic, s')
                | p # ps \<Rightarrow> (Ok (case chosen of Some a \<Rightarrow> a | None \<Rightarrow> p), s'))))"

definition with_http :: "string \<Rightarrow> string" where
  "with_http addr = (if starts_with addr ''http'' then addr else ''http://'' @ addr)"

text \<open>The address a status redirects to.\<close>

definition redirect_target ::
    "('h, 'c, 'w, 'z) client_libs_scheme \<Rightarrow> bool \<Rightarrow> status \<Rightarrow> (string option, string) result" where
  "redirect_target L checks status =
     (if st_code status = FailedPrecondition then
        (case st_metadata status ''x-raft-leader-addr'' of
           Some new_addr_val \<Rightarrow>
             (case metadata_to_str L new_addr_val of
                Ok new_addr \<Rightarrow>
                  (case parse_addr L new_addr of
                     Ok socket_addr \<Rightarrow>
                       bindR (grpc_port checks socket_addr) (\<lambda>grpc_socket.
                       Ok (Some (''http://'' @ show_addr L grpc_socket)))
                   | Err e \<Rightarrow> Ok None
                   | Panic \<Rightarrow> Panic)
              | Err e \<Rightarrow> Ok None
              | Panic \<Rightarrow> Panic)
         | None \<Rightarrow> Ok None)
      else Ok None)"

text \<open>The loop over the attempts, given the number left.\<close>

fun put_attempts ::
    "('h, 'c, 'w, 'z) client_libs_scheme \<Rightarrow> bool \<Rightarrow> nat \<Rightarrow> string \<Rightarrow> string \<Rightarrow>
     ('w client_app, unit, string) op" where
  "put_attempts L checks 0 key val s = (Err ''Max retries exceeded'', s)"
| "put_attempts L checks (Suc n) key val s =
     bindO (get_target_addr L) (\<lambda>addr s.
       (case on_world (connect L (with_http addr)) s of
          (Panic, s) \<Rightarrow> (Panic, s)
        | (Err e, s) \<Rightarrow> put_attempts L checks n key val (s\<lparr>leader_addr := None\<rparr>)
        | (Ok client, s) \<Rightarrow>
            (case on_world (call_put L client \<lparr> pr_key = key, pr_value = val \<rparr>) s of
               (Panic, s) \<Rightarrow> (Panic, s)
             | (Ok resp, s) \<Rightarrow> (Ok (), s)
             | (Err status, s) \<Rightarrow>
                 (case redirect_target L checks status of
                    Panic \<Rightarrow> (Panic, s)
                  | Err e \<Rightarrow> (Err e, s)
                  | Ok (Some grpc_url) \<Rightarrow>
                      put_attempts L checks n key val
                        ((log_message (''Redirecting to leader: '' @ grpc_url) s)
                           \<lparr>leader_addr := Some grpc_url\<rparr>)
                  | Ok None \<Rightarrow>
                      put_attempts L checks n key val
                        (s\<lparr>leader_addr := None, world := sleep_ms L 100 (world s)\<rparr>))))) s"

definition client_put ::
    "('h, 'c, 'w, 'z) client_libs_scheme \<Rightarrow> bool \<Rightarrow> string \<Rightarrow> string \<Rightarrow>
     ('w client_app, unit, string) op" where
  "client_put L checks key val = put_attempts L checks 5 key val"

definition client_get ::
    "('h, 'c, 'w, 'z) client_libs_scheme \<Rightarrow> string \<Rightarrow> ('w client_app, string, string) op" where
  "client_get L key =
     bindO (get_target_addr L) (\<lambda>addr.
     bindO (on_world (connect L (with_http addr))) (\<lambda>client s.
       (case on_world (call_get L client \<lparr> gr_key = key \<rparr>) s of
          (r, s) \<Rightarrow>
            (bindR (map_err st_message r) (\<lambda>inner.
               Ok (if gs_found inner then gs_value inner else ''(not found)'')), s))))"

section \<open>Commands\<close>

definition handle_command ::
    "('h, 'c, 'w, 'z) client_libs_scheme \<Rightarrow> bool \<Rightarrow> string \<Rightarrow> ('w client_app, unit, string) op" where
  "handle_command L checks line s =
     (case split_whitespace line of
        [] \<Rightarrow> (Ok (), s)
      | name # args \<Rightarrow>
          (let start = world s; c = to_ascii_lowercase name in
           if c = ''put'' \<or> c = ''p'' then
             (case args of
                key # v # vs \<Rightarrow>
                  (case client_put L checks key (join_str '' '' (v # vs)) s of
                     (Ok u, s) \<Rightarrow>
                       (Ok (), log_message (''PUT Success ('' @ show_elapsed L start (world s) @ '')'') s)
                   | (Err e, s) \<Rightarrow> (Ok (), log_message (''PUT Error: '' @ e) s)
                   | (Panic, s) \<Rightarrow> (Panic, s))
              | _ \<Rightarrow> (Ok (), log_message ''Usage: put <key> <value>'' s))
           else if c = ''get'' \<or> c = ''g'' then
             (case args of
                [key] \<Rightarrow>
                  (case client_get L key s of
                     (Ok val, s) \<Rightarrow>
                       (Ok (), log_message
                          (''GET: '' @ val @ '' ('' @ show_elapsed L start (world s) @ '')'') s)
                   | (Err e, s) \<Rightarrow> (Ok (), log_message (''GET Error: '' @ e) s)
                   | (Panic, s) \<Rightarrow> (Panic, s))
              | _ \<Rightarrow> (Ok (), log_message ''Usage: get <key>'' s))
           else if c = ''quit'' \<or> c = ''exit'' \<or> c = ''q'' then (Ok (), s)
           else (Ok (), log_message (''Unknown command: '' @ name) s)))"

section \<open>Keys and the main loop\<close>

text \<open>One key of the main loop; the value says whether the loop ends.\<close>

definition client_key ::
    "('h, 'c, 'w, 'z) client_libs_scheme \<Rightarrow> bool \<Rightarrow> key_event \<Rightarrow> ('w client_app, bool, string) op" where
  "client_key L checks k s =
     (if key_code_of k = CharKey 99 \<and> key_control k then (Ok True, s)
      else
        (case cl_mode s of
           Normal \<Rightarrow>
             (if key_code_of k = CharKey 113 then (Ok True, s)
              else if key_code_of k = CharKey 105 then (Ok False, s\<lparr>cl_mode := Editing\<rparr>)
              else (Ok False, s))
         | Editing \<Rightarrow>
             (case key_code_of k of
                EscKey \<Rightarrow> (Ok False, s\<lparr>cl_mode := Normal\<rparr>)
              | EnterKey \<Rightarrow>
                  (let line = cl_input s; s = s\<lparr>cl_input := []\<rparr> in
                   if line = ''quit'' \<or> line = ''exit'' \<or> line = ''q'' then (Ok True, s)
                   else bindO (handle_command L checks line) (\<lambda>_. retO False) s)
              | CharKey c \<Rightarrow> (Ok False, s\<lparr>cl_input := string_push c (cl_input s)\<rparr>)
              | BackspaceKey \<Rightarrow> (Ok False, s\<lparr>cl_input := string_pop (cl_input s)\<rparr>)
              | _ \<Rightarrow> (Ok False, s))))"

text \<open>
  What is drawn: the messages, newest first, the input line, and the cursor, given where the
  input box is, when editing.
\<close>

record client_view =
  view_log :: "string list"
  view_input :: string
  view_cursor :: "(u16 \<times> u16) option"

definition client_ui :: "bool \<Rightarrow> u16 \<Rightarrow> u16 \<Rightarrow> 'w client_app \<Rightarrow> (client_view, 'e) result" where
  "client_ui checks x y s =
     bindR (case cl_mode s of
              Editing \<Rightarrow>
                bindR (add_u16 checks x (of_nat (length (cl_input s)))) (\<lambda>c.
                bindR (add_u16 checks c 1) (\<lambda>cx.
                bindR (add_u16 checks y 1) (\<lambda>cy. Ok (Some (cx, cy)))))
            | Normal \<Rightarrow> Ok None) (\<lambda>cursor.
     Ok \<lparr> view_log = rev (cl_messages s), view_input = cl_input s, view_cursor = cursor \<rparr>)"

text \<open>
  One turn of the main loop, given where the input box is, whether drawing failed, and what
  polling and reading the terminal gave, \<open>None\<close> when there is no key. The value says whether
  the loop is left.
\<close>

record client_turn_input =
  ct_x :: u16
  ct_y :: u16
  ct_draw :: "(unit, string) result"
  ct_poll :: "(key_event option, string) result"

definition client_turn ::
    "('h, 'c, 'w, 'z) client_libs_scheme \<Rightarrow> bool \<Rightarrow> client_turn_input \<Rightarrow>
     ('w client_app, bool, string) op" where
  "client_turn L checks i s =
     bindO (liftR (bindR (client_ui checks (ct_x i) (ct_y i) s) (\<lambda>v. ct_draw i))) (\<lambda>_.
     bindO (liftR (ct_poll i)) (\<lambda>polled.
       case polled of
         None \<Rightarrow> retO False
       | Some k \<Rightarrow> client_key L checks k)) s"

fun client_loop ::
    "('h, 'c, 'w, 'z) client_libs_scheme \<Rightarrow> bool \<Rightarrow> client_turn_input list \<Rightarrow>
     ('w client_app, bool, string) op" where
  "client_loop L checks [] = retO False"
| "client_loop L checks (i # is) =
     bindO (client_turn L checks i) (\<lambda>quit. if quit then retO True else client_loop L checks is)"

text \<open>
  \<open>main\<close>: an error of the loop is returned at once. With the inputs used up the loop goes on
  waiting.
\<close>

definition client_main ::
    "('h, 'c, 'w, 'z) client_libs_scheme \<Rightarrow> 'y terminal_calls_scheme \<Rightarrow> bool \<Rightarrow> string \<Rightarrow>
     client_turn_input list \<Rightarrow> 'w \<Rightarrow> terminal \<Rightarrow>
     (bool, string) result \<times> terminal \<times> 'w client_app" where
  "client_main L C checks peers_arg is w t =
     (let s = client_new (map trim (split_on (CHR '','') peers_arg)) w in
      bindO (on_terminal (setup_terminal C)) (\<lambda>_ (t, s).
        case client_loop L checks is s of
          (Ok True, s) \<Rightarrow>
            bindO (on_terminal (restore_terminal C)) (\<lambda>_. retO True) (t, s)
        | (r, s) \<Rightarrow> (r, (t, s))) (t, s))"

section \<open>The network, as PUT needs it\<close>

lemma grpc_port_not_Err: "grpc_port checks a \<noteq> Err e"
  by (simp add: grpc_port_def)

lemma bindR_eq_Err: "bindR r f = Err e \<longleftrightarrow> r = Err e \<or> (\<exists>a. r = Ok a \<and> f a = Err e)"
  by (cases r) auto

lemma redirect_target_not_Err: "redirect_target L checks st \<noteq> Err e"
  by (auto simp: redirect_target_def bindR_eq_Err grpc_port_not_Err split: option.split result.split)

text \<open>
  What the retry loop needs of the servers it reaches: \<open>submitted\<close> counts the PUTs handed to
  a ready loop. Choosing, connecting and waiting hand over nothing, a call hands over at
  most the request, and a call that succeeds has handed it over.
\<close>

locale put_network =
  fixes L :: "('h, 'c, 'w, 'z) client_libs_scheme"
    and submitted :: "'w \<Rightarrow> (string \<times> string) multiset"
  assumes choose_quiet: "submitted (snd (choose_peer L ps w)) = submitted w"
    and connect_quiet: "submitted (snd (connect L url w)) = submitted w"
    and sleep_quiet: "submitted (sleep_ms L t w) = submitted w"
    and call_submits: "call_put L c req w = (r, w') \<Longrightarrow>
      submitted w' = submitted w \<or>
      submitted w' = add_mset (pr_key req, pr_value req) (submitted w)"
    and call_accepted: "call_put L c req w = (Ok x, w') \<Longrightarrow>
      submitted w' = add_mset (pr_key req, pr_value req) (submitted w)"
begin

lemma target_quiet:
  "get_target_addr L s = (r, s') \<Longrightarrow>
   submitted (world s') = submitted (world s) \<and> (\<forall>e. r \<noteq> Err e)"
  using choose_quiet [of "cl_peers s" "world s"]
  by (auto simp: get_target_addr_def on_world_def split: option.splits prod.splits list.splits)

lemma attempts_submit:
  assumes "put_attempts L checks n key val s = (r, s')"
  shows "\<exists>k \<le> n. submitted (world s') = submitted (world s) + replicate_mset k (key, val) \<and>
    (r = Ok () \<longrightarrow> 1 \<le> k) \<and> (\<forall>e. r = Err e \<longrightarrow> e = ''Max retries exceeded'')"
  using assms
proof (induction n arbitrary: s)
  case 0
  then show ?case by auto
next
  case (Suc n)
  have more: ?case if eq: "put_attempts L checks n key val t = (r, s')"
    and t: "submitted (world t) = submitted (world s) \<or>
      submitted (world t) = add_mset (key, val) (submitted (world s))" for t
  proof -
    obtain k where k: "k \<le> n" "submitted (world s') = submitted (world t) + replicate_mset k (key, val)"
      "r = Ok () \<longrightarrow> 1 \<le> k" "\<forall>e. r = Err e \<longrightarrow> e = ''Max retries exceeded''"
      using Suc.IH [OF eq] by blast
    from t show ?thesis
    proof
      assume "submitted (world t) = submitted (world s)"
      with k show ?thesis by (intro exI [of _ k]) simp
    next
      assume "submitted (world t) = add_mset (key, val) (submitted (world s))"
      with k show ?thesis by (intro exI [of _ "Suc k"]) simp
    qed
  qed
  have stop: ?case if "submitted (world s') = submitted (world s) \<and> r = Panic \<or>
      submitted (world s') = add_mset (key, val) (submitted (world s)) \<and> (r = Ok () \<or> r = Panic)"
    using that
  proof
    assume "submitted (world s') = submitted (world s) \<and> r = Panic"
    then show ?thesis by (intro exI [of _ 0]) simp
  next
    assume "submitted (world s') = add_mset (key, val) (submitted (world s)) \<and> (r = Ok () \<or> r = Panic)"
    then show ?thesis by (intro exI [of _ 1]) auto
  qed
  obtain ra s1 where target: "get_target_addr L s = (ra, s1)" by fastforce
  note q1 = target_quiet [OF target]
  show ?case
  proof (cases ra)
    case (Err e)
    with q1 show ?thesis by simp
  next
    case Panic
    with Suc.prems target q1 show ?thesis by (intro stop) simp
  next
    case (Ok addr)
    obtain rc w2 where conn: "connect L (with_http addr) (world s1) = (rc, w2)" by fastforce
    have q2: "submitted w2 = submitted (world s)"
      using connect_quiet [of "with_http addr" "world s1"] conn q1 by simp
    show ?thesis
    proof (cases rc)
      case (Err e)
      with Suc.prems target Ok conn q2 show ?thesis
        by (intro more [of "s1\<lparr>world := w2, leader_addr := None\<rparr>"]) (simp_all add: on_world_def)
    next
      case Panic
      with Suc.prems target Ok conn q2 show ?thesis by (intro stop) (auto simp: on_world_def)
    next
      case conn_ok: (Ok c)
      obtain rp w3 where call: "call_put L c \<lparr> pr_key = key, pr_value = val \<rparr> w2 = (rp, w3)" by fastforce
      have q3: "submitted w3 = submitted (world s) \<or> submitted w3 = add_mset (key, val) (submitted (world s))"
        using call_submits [OF call] q2 by simp
      show ?thesis
      proof (cases rp)
        case rp_ok: (Ok x)
        have "submitted w3 = add_mset (key, val) (submitted (world s))"
          using call_accepted call q2 rp_ok by simp
        with Suc.prems target Ok conn conn_ok call rp_ok show ?thesis
          by (intro stop) (auto simp: on_world_def)
      next
        case Panic
        with Suc.prems target Ok conn conn_ok call q3 show ?thesis
          by (intro stop) (auto simp: on_world_def)
      next
        case rp_err: (Err st)
        note step = Suc.prems target Ok conn conn_ok call rp_err
        show ?thesis
        proof (cases "redirect_target L checks st")
          case (Err e)
          then show ?thesis by (simp add: redirect_target_not_Err)
        next
          case Panic
          with step q3 show ?thesis by (intro stop) (auto simp: on_world_def)
        next
          case redir: (Ok u)
          show ?thesis
          proof (cases u)
            case None
            with step redir q3 show ?thesis
              by (intro more [of "s1\<lparr>leader_addr := None, world := sleep_ms L 100 w3\<rparr>"])
                (simp_all add: on_world_def sleep_quiet)
          next
            case (Some url)
            with step redir q3 show ?thesis
              by (intro more [of "(log_message (''Redirecting to leader: '' @ url) (s1\<lparr>world := w3\<rparr>))
                  \<lparr>leader_addr := Some url\<rparr>"])
                (simp_all add: on_world_def log_message_def)
          qed
        qed
      qed
    qed
  qed
qed

lemma put_submits:
  assumes "client_put L checks key val s = (r, s')"
  shows "\<exists>k \<le> 5. submitted (world s') = submitted (world s) + replicate_mset k (key, val) \<and>
    (r = Ok () \<longrightarrow> 1 \<le> k) \<and> (\<forall>e. r = Err e \<longrightarrow> e = ''Max retries exceeded'')"
  using attempts_submit assms by (simp only: client_put_def)

end

end
