(* ===== verification/Client_Cluster.thy ===== *)
theory Client_Cluster
  imports Client
begin

text \<open>
  The client against the gRPC services of a cluster: a world in which the servers reached
  are services of \<open>Grpc_Service\<close>, with what their ready loops answer as a list. It provides
  the contract \<open>put_network\<close> of the retry loop, and shows what a redirect leads to.
\<close>

section \<open>The world\<close>

record ('h, 'r) cluster =
  cl_nodes :: "(string \<times> 'h raft_kv_service) list"
  cl_answers :: "(unit, string) result awaited list"
  cl_gets :: "string option awaited list"
  cl_rng :: 'r

fun next_or :: "'a \<Rightarrow> 'a list \<Rightarrow> 'a" where
  "next_or d [] = d"
| "next_or d (x # xs) = x"

fun set_node :: "string \<Rightarrow> 'a \<Rightarrow> (string \<times> 'a) list \<Rightarrow> (string \<times> 'a) list" where
  "set_node url v [] = []"
| "set_node url v (e # es) = (if fst e = url then (url, v) # es else e # set_node url v es)"

definition status_unavailable :: status where
  "status_unavailable = \<lparr> st_code = OtherCode 14, st_message = ''unavailable'', st_metadata = Map.empty \<rparr>"

definition cluster_put ::
    "('h, 'z) grpc_libs_scheme \<Rightarrow> string \<Rightarrow> put_request \<Rightarrow> ('h, 'r) cluster \<Rightarrow>
     (put_response, status) result \<times> ('h, 'r) cluster" where
  "cluster_put G url req w =
     (case map_of (cl_nodes w) url of
        None \<Rightarrow> (Err status_unavailable, w)
      | Some svc \<Rightarrow>
          (case service_put G req (next_or Dropped (cl_answers w)) svc of
             (r, svc') \<Rightarrow> (r, w\<lparr>cl_nodes := set_node url svc' (cl_nodes w),
                                cl_answers := tl (cl_answers w)\<rparr>)))"

definition cluster_get ::
    "string \<Rightarrow> get_request \<Rightarrow> ('h, 'r) cluster \<Rightarrow> (get_response, status) result \<times> ('h, 'r) cluster" where
  "cluster_get url req w =
     (case map_of (cl_nodes w) url of
        None \<Rightarrow> (Err status_unavailable, w)
      | Some svc \<Rightarrow>
          (case service_get req (next_or Dropped (cl_gets w)) svc of
             (r, svc') \<Rightarrow> (r, w\<lparr>cl_nodes := set_node url svc' (cl_nodes w), cl_gets := tl (cl_gets w)\<rparr>)))"

definition cluster_libs ::
    "('h, 'z) grpc_libs_scheme \<Rightarrow> (string list \<Rightarrow> 'r \<Rightarrow> string option \<times> 'r) \<Rightarrow>
     ('h, string, ('h, 'r) cluster) client_libs" where
  "cluster_libs G pick =
     \<lparr> to_socket_addrs = to_socket_addrs G, show_addr = show_addr G, parse_addr = parse_addr G,
       parse_metadata = parse_metadata G,
       choose_peer = (\<lambda>ps w. case pick ps (cl_rng w) of (c, r) \<Rightarrow> (c, w\<lparr>cl_rng := r\<rparr>)),
       connect = (\<lambda>url w. if map_of (cl_nodes w) url = None then (Err ''transport error'', w)
                          else (Ok url, w)),
       call_put = cluster_put G, call_get = cluster_get,
       sleep_ms = (\<lambda>t w. w), metadata_to_str = Ok, show_elapsed = (\<lambda>v w. ''0ns'') \<rparr>"

text \<open>The PUTs the ready loops were handed.\<close>

fun put_of :: "server_command \<Rightarrow> (string \<times> string) list" where
  "put_of (Rpc (RpcPut k v c)) = [(k, v)]"
| "put_of c = []"

definition puts_queued :: "'h raft_kv_service \<Rightarrow> (string \<times> string) multiset" where
  "puts_queued s = mset (concat (map put_of (cmd_queue s)))"

definition puts_submitted :: "('h, 'r) cluster \<Rightarrow> (string \<times> string) multiset" where
  "puts_submitted w = (\<Sum>e \<leftarrow> cl_nodes w. puts_queued (snd e))"

section \<open>The contract of the retry loop\<close>

lemma set_node_sum:
  "map_of es url = Some v \<Longrightarrow>
   (\<Sum>e \<leftarrow> set_node url v' es. f (snd e)) + f v = (\<Sum>e \<leftarrow> es. f (snd e)) + (f v' :: 'm multiset)"
  by (induction es) (auto simp: ac_simps)

lemma map_of_set_node:
  "map_of (set_node url v es) = (if map_of es url = None then map_of es else (map_of es)(url \<mapsto> v))"
  by (induction es) (auto simp: fun_eq_iff)

lemma service_put_queues:
  assumes "service_put G req rx s = (r, s')"
  shows "puts_queued s' = (if driver_alive s then add_mset (pr_key req, pr_value req) (puts_queued s)
      else puts_queued s)" "r = Ok x \<Longrightarrow> driver_alive s"
  using assms by (auto simp: service_put_eq puts_queued_def split: if_splits)

lemma cluster_put_submits:
  assumes "cluster_put G url req w = (r, w')"
  shows "(puts_submitted w' = puts_submitted w \<and> (\<forall>x. r \<noteq> Ok x)) \<or>
    puts_submitted w' = add_mset (pr_key req, pr_value req) (puts_submitted w)"
proof (cases "map_of (cl_nodes w) url")
  case None
  with assms show ?thesis by (auto simp: cluster_put_def)
next
  case (Some svc)
  obtain svc' where s: "service_put G req (next_or Dropped (cl_answers w)) svc = (r, svc')"
    "w' = w\<lparr>cl_nodes := set_node url svc' (cl_nodes w), cl_answers := tl (cl_answers w)\<rparr>"
    using assms Some by (auto simp: cluster_put_def split: prod.splits)
  note q = service_put_queues [OF s(1)]
  have "puts_submitted w' + puts_queued svc = puts_submitted w + puts_queued svc'"
    using set_node_sum [OF Some, of puts_queued svc'] s(2) by (simp add: puts_submitted_def)
  with q show ?thesis by (cases "driver_alive svc") auto
qed

lemma puts_submitted_rng: "puts_submitted (w\<lparr>cl_rng := x\<rparr>) = puts_submitted w"
  by (simp add: puts_submitted_def)

interpretation cl: put_network "cluster_libs G pick" puts_submitted for G pick
  by unfold_locales
    (auto simp: cluster_libs_def puts_submitted_rng split: prod.split dest: cluster_put_submits)

section \<open>Redirects\<close>

text \<open>
  A client that asks a follower: the follower's service and the leader's are both started by
  \<open>spawn_grpc_server\<close> for the same list of peers, and every answer of the follower's loop
  names the leader.
\<close>

definition url_of :: "('h, 'z) addr_libs_scheme \<Rightarrow> 'h socket_addr \<Rightarrow> string" where
  "url_of G a = ''http://'' @ show_addr G a"

definition port_plus :: "u16 \<Rightarrow> 'h socket_addr \<Rightarrow> 'h socket_addr" where
  "port_plus d a = a\<lparr>sa_port := sa_port a + d\<rparr>"

lemma with_http_url [simp]: "with_http (url_of G a) = url_of G a"
proof -
  have "url_of G a = ''http'' @ ''://'' @ show_addr G a" by (simp add: url_of_def)
  then have "starts_with (url_of G a) ''http''" by (simp only: starts_with_append)
  then show ?thesis by (simp add: with_http_def)
qed

lemma url_inject:
  assumes "addr_ok G"
  shows "url_of G a = url_of G b \<longleftrightarrow> a = b"
proof
  assume "url_of G a = url_of G b"
  then have "show_addr G a = show_addr G b" by (simp add: url_of_def)
  then have "parse_addr G (show_addr G a) = parse_addr G (show_addr G b)" by simp
  with assms show "a = b" by (simp add: addr_ok_def)
qed simp

text \<open>
  The client's reading of the follower's status: the port in it already is the gRPC port,
  and 1000 is added once more.
\<close>

lemma redirect_target_leader:
  assumes "grpc_ok G" and "unat (sa_port a) + 2000 < 2 ^ 16"
  shows "redirect_target (cluster_libs G pick) checks (leader_status G l (Some (port_plus 1000 a))) =
    Ok (Some (url_of G (port_plus 2000 a)))"
proof -
  have "unat (sa_port a + 1000) = unat (sa_port a) + 1000"
    using assms(2) by (simp add: unat_word_ariths)
  with assms show ?thesis
    by (auto simp: redirect_target_def leader_status_def cluster_libs_def grpc_ok_def addr_ok_def
        grpc_port_def port_plus_def url_of_def ac_simps)
qed

text \<open>The state of a client that was not redirected yet, with \<open>k\<close> answers to come.\<close>

definition asking ::
    "('h, 'z) grpc_libs_scheme \<Rightarrow> 'h raft_kv_service \<Rightarrow> string \<Rightarrow> string \<Rightarrow> 'h raft_kv_service \<Rightarrow> u64 \<Rightarrow>
     nat \<Rightarrow> ('h, 'r) cluster client_app \<Rightarrow> bool" where
  "asking G sf uf ul sl l k s \<longleftrightarrow>
     cl_peers s \<noteq> [] \<and>
     (\<exists>sf'. cl_nodes (world s) = [(uf, sf'), (ul, sl)] \<and> driver_alive sf' \<and> peers_map sf' = peers_map sf) \<and>
     cl_answers (world s) = replicate k (Answered (Err (not_leader_error l)))"

lemma ask_follower:
  assumes G: "grpc_ok G" and port: "unat (sa_port al) + 2000 < 2 ^ 16"
    and peer: "bt_get (peers_map sf) l = Some (port_plus 1000 al)"
    and pick: "\<And>ps x. fst (pick ps x) = Some (url_of G af)"
    and s: "asking G sf (url_of G af) ul sl l (Suc k) s" "leader_addr s = None"
  shows "\<exists>s'. put_attempts (cluster_libs G pick) checks (Suc n) key val s =
      put_attempts (cluster_libs G pick) checks n key val s' \<and>
    asking G sf (url_of G af) ul sl l k s' \<and> leader_addr s' = Some (url_of G (port_plus 2000 al)) \<and>
    cl_messages s' = cl_messages s @ [''Redirecting to leader: '' @ url_of G (port_plus 2000 al)]"
proof -
  let ?L = "cluster_libs G pick"
  obtain sf' where w: "cl_nodes (world s) = [(url_of G af, sf'), (ul, sl)]" "driver_alive sf'"
    "peers_map sf' = peers_map sf" "cl_peers s \<noteq> []"
    "cl_answers (world s) = Answered (Err (not_leader_error l)) # replicate k (Answered (Err (not_leader_error l)))"
    using s(1) by (auto simp: asking_def)
  obtain p ps where ps: "cl_peers s = p # ps" using w(4) by (cases "cl_peers s") auto
  obtain x where x: "pick (cl_peers s) (cl_rng (world s)) = (Some (url_of G af), x)"
    using pick [of "cl_peers s" "cl_rng (world s)"] by (cases "pick (cl_peers s) (cl_rng (world s))") simp
  let ?s1 = "s\<lparr>world := (world s)\<lparr>cl_rng := x\<rparr>\<rparr>"
  have target: "get_target_addr ?L s = (Ok (url_of G af), ?s1)"
    using s(2) x ps by (simp add: get_target_addr_def on_world_def cluster_libs_def)
  have conn: "connect ?L (url_of G af) (world ?s1) = (Ok (url_of G af), world ?s1)"
    using w(1) by (simp add: cluster_libs_def)
  let ?req = "\<lparr> pr_key = key, pr_value = val \<rparr>"
  have "fst (service_put G ?req (Answered (Err (not_leader_error l))) sf') =
      Err (leader_status G l (Some (port_plus 1000 al)))"
    using w(2,3) peer by (simp add: service_put_eq put_answer_not_leader [OF G])
  then obtain sf'' where put: "service_put G ?req (Answered (Err (not_leader_error l))) sf' =
      (Err (leader_status G l (Some (port_plus 1000 al))), sf'')" "driver_alive sf''" "peers_map sf'' = peers_map sf"
    using w(2,3) by (auto simp: service_put_eq)
  let ?w2 = "(world ?s1)\<lparr>cl_nodes := [(url_of G af, sf''), (ul, sl)],
    cl_answers := replicate k (Answered (Err (not_leader_error l)))\<rparr>"
  have call: "call_put ?L (url_of G af) ?req (world ?s1) =
      (Err (leader_status G l (Some (port_plus 1000 al))), ?w2)"
    using w(1,5) put(1) by (simp add: cluster_libs_def cluster_put_def)
  let ?s2 = "(log_message (''Redirecting to leader: '' @ url_of G (port_plus 2000 al)) (s\<lparr>world := ?w2\<rparr>))
      \<lparr>leader_addr := Some (url_of G (port_plus 2000 al))\<rparr>"
  have "put_attempts ?L checks (Suc n) key val s = put_attempts ?L checks n key val ?s2"
    using conn call redirect_target_leader [OF G port, of pick checks l]
    by (simp add: target on_world_def)
  then show ?thesis
    using w put by (intro exI [of _ ?s2]) (simp add: asking_def log_message_def)
qed

lemma ask_redirected:
  assumes "asking G sf uf ul sl l k s" and "leader_addr s = Some (url_of G a)"
    and "url_of G a \<noteq> uf" and "url_of G a \<noteq> ul"
  shows "put_attempts (cluster_libs G pick) checks (Suc n) key val s =
      put_attempts (cluster_libs G pick) checks n key val (s\<lparr>leader_addr := None\<rparr>)"
proof -
  have "connect (cluster_libs G pick) (url_of G a) (world s) = (Err ''transport error'', world s)"
    using assms by (auto simp: asking_def cluster_libs_def)
  moreover have "get_target_addr (cluster_libs G pick) s = (Ok (url_of G a), s)"
    using assms(2) by (simp add: get_target_addr_def)
  ultimately show ?thesis by (simp add: on_world_def)
qed

lemma asking_leader_addr [simp]: "asking G sf uf ul sl l k (s\<lparr>leader_addr := x\<rparr>) = asking G sf uf ul sl l k s"
  by (simp add: asking_def)

section \<open>Properties\<close>

text \<open>
  C31: a PUT of the client succeeds only when a service handed it to its ready loop; it hands
  the same request over at most five times, one for each attempt, and nothing else, whatever
  the answers; and its only error is \<open>Max retries exceeded\<close>, also when some of the attempts
  were handed over and may yet be committed.
\<close>

theorem client_put_submits:
  assumes "client_put (cluster_libs G pick) checks key val s = (r, s')"
  shows "\<exists>k \<le> 5. puts_submitted (world s') = puts_submitted (world s) + replicate_mset k (key, val) \<and>
    (r = Ok () \<longrightarrow> 1 \<le> k) \<and> (\<forall>e. r = Err e \<longrightarrow> e = ''Max retries exceeded'')"
  by (rule cl.put_submits [OF assms])

text \<open>
  C30: a redirect never leads to the leader. The services of follower and leader listen on
  their peer port plus 1000; the follower's map of peers already holds such addresses, and
  the client adds 1000 again. As long as the client's own choice falls on the follower, a PUT
  asks it three times, is sent to the leader's peer port plus 2000 each time, and fails with
  \<open>Max retries exceeded\<close>; the leader is never reached.
\<close>

theorem redirect_misses_leader:
  assumes G: "grpc_ok G" and peers: "bt_get peers l = Some al" and "af \<noteq> al"
    and port: "unat (sa_port al) + 2000 < 2 ^ 16"
    and f: "spawn_grpc_server checks af peers = Ok (gf, sf)"
    and l: "spawn_grpc_server checks al peers = Ok (gl, sl)"
    and free: "gf \<noteq> port_plus 2000 al"
    and pick: "\<And>ps x. fst (pick ps x) = Some (url_of G gf)"
    and s: "cl_peers s \<noteq> []" "leader_addr s = None"
      "cl_nodes (world s) = [(url_of G gf, sf), (url_of G gl, sl)]"
      "cl_answers (world s) = replicate 3 (Answered (Err (not_leader_error l)))"
  shows "\<exists>s'. client_put (cluster_libs G pick) checks key val s = (Err ''Max retries exceeded'', s') \<and>
    map_of (cl_nodes (world s')) (url_of G gl) = Some sl \<and> cmd_queue sl = [] \<and>
    cl_messages s' = cl_messages s @
      replicate 3 (''Redirecting to leader: '' @ url_of G (port_plus 2000 al))"
proof -
  let ?L = "cluster_libs G pick" and ?red = "url_of G (port_plus 2000 al)"
  let ?ask = "\<lambda>k s. asking G sf (url_of G gf) (url_of G gl) sl l k s"
  have gf: "gf = port_plus 1000 af" and gl: "gl = port_plus 1000 al"
    and sf: "driver_alive sf" "bt_get (peers_map sf) l = Some (port_plus 1000 al)"
    and sl: "cmd_queue sl = []"
    using f l peers
    by (auto simp: spawn_grpc_server_def port_plus_def rpc_peers_map_get dest!: grpc_port_Ok)
  have addr: "addr_ok G" using G by (simp add: grpc_ok_def)
  have "gl \<noteq> port_plus 2000 al"
  proof
    assume "gl = port_plus 2000 al"
    then have "sa_port (port_plus 1000 al) = sa_port (port_plus 2000 al)" by (simp only: gl)
    then show False by (simp add: port_plus_def)
  qed
  with free addr have miss: "?red \<noteq> url_of G gf" "?red \<noteq> url_of G gl"
    by (auto simp: url_inject)
  have "port_plus 1000 af \<noteq> port_plus 1000 al"
    using \<open>af \<noteq> al\<close> by (cases af; cases al) (auto simp: port_plus_def)
  with addr gf gl have apart: "url_of G gf \<noteq> url_of G gl" by (simp add: url_inject)
  note ask = ask_follower [where pick = pick and checks = checks and key = key and val = val,
      OF G port sf(2) pick]
  note away = ask_redirected [OF _ _ miss, where pick = pick and checks = checks and key = key and val = val]
  have ask0: "?ask 3 s" using s sf(1) by (auto simp: asking_def)
  obtain s1 where s1: "put_attempts ?L checks 5 key val s = put_attempts ?L checks 4 key val s1"
    "?ask 2 s1" "leader_addr s1 = Some ?red" "cl_messages s1 = cl_messages s @ [''Redirecting to leader: '' @ ?red]"
    using ask [of "url_of G gl" sl 2 s 4] ask0 s(2) by (auto simp del: put_attempts.simps)
  have s2: "put_attempts ?L checks 4 key val s1 = put_attempts ?L checks 3 key val (s1\<lparr>leader_addr := None\<rparr>)"
    using away [OF s1(2,3), of 3] by (simp del: put_attempts.simps)
  obtain s3 where s3: "put_attempts ?L checks 3 key val (s1\<lparr>leader_addr := None\<rparr>) =
      put_attempts ?L checks 2 key val s3"
    "?ask 1 s3" "leader_addr s3 = Some ?red" "cl_messages s3 = cl_messages s1 @ [''Redirecting to leader: '' @ ?red]"
    using ask [of "url_of G gl" sl 1 "s1\<lparr>leader_addr := None\<rparr>" 2] s1(2)
    by (auto simp: numeral_2_eq_2 [symmetric] simp del: put_attempts.simps)
  have s4: "put_attempts ?L checks 2 key val s3 = put_attempts ?L checks 1 key val (s3\<lparr>leader_addr := None\<rparr>)"
    using away [OF s3(2,3), of 1] by (simp add: numeral_2_eq_2 del: put_attempts.simps)
  obtain s5 where s5: "put_attempts ?L checks 1 key val (s3\<lparr>leader_addr := None\<rparr>) =
      put_attempts ?L checks 0 key val s5"
    "?ask 0 s5" "cl_messages s5 = cl_messages s3 @ [''Redirecting to leader: '' @ ?red]"
    using ask [of "url_of G gl" sl 0 "s3\<lparr>leader_addr := None\<rparr>" 0] s3(2) by (auto simp del: put_attempts.simps)
  have "client_put ?L checks key val s = (Err ''Max retries exceeded'', s5)"
    unfolding client_put_def s1(1) s2 s3(1) s4 s5(1) by simp
  moreover have "map_of (cl_nodes (world s5)) (url_of G gl) = Some sl"
    using s5(2) apart by (auto simp: asking_def)
  moreover have "cl_messages s5 = cl_messages s @ replicate 3 (''Redirecting to leader: '' @ ?red)"
    using s1(4) s3(4) s5(3) by (simp add: numeral_3_eq_3)
  ultimately show ?thesis using sl by blast
qed

section \<open>Instances\<close>

definition sample_cluster ::
    "(string \<times> unit raft_kv_service) list \<Rightarrow> (unit, string) result awaited list \<Rightarrow> (unit, unit) cluster" where
  "sample_cluster ns as = \<lparr> cl_nodes = ns, cl_answers = as, cl_gets = [], cl_rng = () \<rparr>"

lemma client_put_submits_witness:
  "let u = ''http://a:7001''; s = client_new [u] (sample_cluster [(u, sample_service)] [Answered (Ok ())]) in
   \<exists>s'. client_put (cluster_libs sample_grpc_libs (\<lambda>ps x. (Some (hd ps), x))) True ''k'' ''v'' s = (Ok (), s') \<and>
     (''k'', ''v'') \<in># puts_submitted (world s')"
proof -
  let ?u = "''http://a:7001''"
  let ?s = "client_new [?u] (sample_cluster [(?u, sample_service)] [Answered (Ok ())])"
  let ?L = "cluster_libs sample_grpc_libs (\<lambda>ps x. (Some (hd ps), x))"
  have five: "(5 :: nat) = Suc 4" by simp
  have "fst (client_put ?L True ''k'' ''v'' ?s) = Ok ()"
    unfolding client_put_def five put_attempts.simps(2)
    by (simp add: get_target_addr_def on_world_def cluster_libs_def client_new_def sample_cluster_def
        with_http_def starts_with_def cluster_put_def service_put_eq sample_service_def put_answer_def)
  then obtain s' where put: "client_put ?L True ''k'' ''v'' ?s = (Ok (), s')"
    by (cases "client_put ?L True ''k'' ''v'' ?s") auto
  from client_put_submits [OF put] have "(''k'', ''v'') \<in># puts_submitted (world s')"
    by auto
  with put show ?thesis by (auto simp: Let_def)
qed

lemma redirect_misses_leader_witness:
  "let peers = [(1 :: u64, sample_addr 6001), (2, sample_addr 6002)];
       f = sample_service; l = sample_service;
       w = sample_cluster [(''http://127.0.0.1:7001'', f), (''http://127.0.0.1:7002'', l)]
             (replicate 3 (Answered (Err (not_leader_error 2)))) in
   \<exists>s'. client_put (cluster_libs sample_grpc_libs (\<lambda>ps x. (Some ''http://127.0.0.1:7001'', x))) True
       ''k'' ''v'' (client_new [''http://127.0.0.1:7001''] w) = (Err ''Max retries exceeded'', s') \<and>
     map_of (cl_nodes (world s')) ''http://127.0.0.1:7002'' = Some l \<and>
     cl_messages s' = replicate 3 ''Redirecting to leader: http://127.0.0.1:8002''"
proof -
  let ?peers = "[(1 :: u64, sample_addr 6001), (2, sample_addr 6002)]"
  have digits: "digit 0 = CHR ''0''" "digit 1 = CHR ''1''" "digit 2 = CHR ''2''" "digit 7 = CHR ''7''"
    "digit 8 = CHR ''8''"
    unfolding byte_eq_iff [symmetric] by (simp_all add: byte_digit) (simp_all add: byte_def)
  have urls: "url_of sample_grpc_libs (sample_addr 7001) = ''http://127.0.0.1:7001''"
    "url_of sample_grpc_libs (sample_addr 7002) = ''http://127.0.0.1:7002''"
    "url_of sample_grpc_libs (sample_addr 8002) = ''http://127.0.0.1:8002''"
    by (simp_all add: show_nat.simps digits [simplified] url_of_def sample_grpc_libs_def sample_addr_def)
  have plus: "port_plus 2000 (sample_addr 6002) = sample_addr 8002"
    by (simp add: port_plus_def sample_addr_def)
  have spawn: "spawn_grpc_server True (sample_addr 6001) ?peers = Ok (sample_addr 7001, sample_service)"
    "spawn_grpc_server True (sample_addr 6002) ?peers = Ok (sample_addr 7002, sample_service)"
    by (simp_all add: spawn_grpc_server_def grpc_port_def sample_addr_def sample_service_def)
  let ?w = "sample_cluster [(''http://127.0.0.1:7001'', sample_service), (''http://127.0.0.1:7002'', sample_service)]
             (replicate 3 (Answered (Err (not_leader_error 2))))"
  let ?s = "client_new [''http://127.0.0.1:7001''] ?w"
  have get: "bt_get ?peers 2 = Some (sample_addr 6002)" by (simp add: bt_get_def)
  let ?pick = "\<lambda>ps x. (Some ''http://127.0.0.1:7001'', x)"
  have ne: "sample_addr 6001 \<noteq> sample_addr 6002" "unat (sa_port (sample_addr 6002)) + 2000 < 2 ^ 16"
    "sample_addr 7001 \<noteq> port_plus 2000 (sample_addr 6002)"
    by (simp_all add: plus) (simp_all add: sample_addr_def)
  have pick: "fst (?pick ps x) = Some (url_of sample_grpc_libs (sample_addr 7001))" for ps :: "string list" and x :: unit
    by (simp add: urls)
  have s: "cl_peers ?s \<noteq> []" "leader_addr ?s = None"
    "cl_nodes (world ?s) = [(url_of sample_grpc_libs (sample_addr 7001), sample_service),
       (url_of sample_grpc_libs (sample_addr 7002), sample_service)]"
    "cl_answers (world ?s) = replicate 3 (Answered (Err (not_leader_error 2)))"
    by (simp_all add: urls client_new_def sample_cluster_def)
  obtain s' where s': "client_put (cluster_libs sample_grpc_libs (\<lambda>ps x. (Some ''http://127.0.0.1:7001'', x))) True
       ''k'' ''v'' ?s = (Err ''Max retries exceeded'', s')"
     "map_of (cl_nodes (world s')) (url_of sample_grpc_libs (sample_addr 7002)) = Some sample_service"
     "cl_messages s' = cl_messages ?s @
       replicate 3 (''Redirecting to leader: '' @ url_of sample_grpc_libs (port_plus 2000 (sample_addr 6002)))"
    using redirect_misses_leader [where pick = ?pick, OF sample_grpc_ok get ne(1,2) spawn ne(3) pick s]
    by blast
  have "cl_messages ?s = []" by (simp add: client_new_def)
  moreover have "''Redirecting to leader: '' @ url_of sample_grpc_libs (port_plus 2000 (sample_addr 6002)) =
      ''Redirecting to leader: http://127.0.0.1:8002''"
    by (simp add: plus urls)
  ultimately have "cl_messages s' = replicate 3 ''Redirecting to leader: http://127.0.0.1:8002''"
    using s'(3) by (simp only: append_Nil)
  with s'(1,2) show ?thesis unfolding Let_def urls by blast
qed

end
