(* ===== verification/Client_Server.thy ===== *)
theory Client_Server
  imports Linearizability Client_Cluster
begin

text \<open>
  The client against running servers, end to end: a call of the client goes to the service of
  a running server, whose threads, and those of all the others, go on while the call waits.
  What the client is told rests on the histories of \<open>Linearizability\<close>.
\<close>

section \<open>What the client needs of the servers\<close>

text \<open>
  \<open>calls w\<close>: the commands the calls made so far have sent, each with the address of the server.
  \<open>acked u k v i w\<close>: the server at \<open>u\<close> has answered the PUT of \<open>v\<close> to \<open>k\<close> with oneshot \<open>i\<close> with
  success. \<open>fresh u k v i r w\<close>: the answer \<open>r\<close> to a GET of \<open>k\<close> at \<open>u\<close> gives the value of that PUT,
  or a later one.
\<close>

locale store_network =
  fixes L :: "('h, 'c, 'w, 'z) client_libs_scheme"
    and up :: "'w \<Rightarrow> bool"
    and calls :: "'w \<Rightarrow> (string \<times> server_command) list"
    and acked :: "string \<Rightarrow> string \<Rightarrow> string \<Rightarrow> oneshot \<Rightarrow> 'w \<Rightarrow> bool"
    and fresh :: "string \<Rightarrow> string \<Rightarrow> string \<Rightarrow> oneshot \<Rightarrow> get_response \<Rightarrow> 'w \<Rightarrow> bool"
    and url_at :: "'c \<Rightarrow> string"
  assumes choose_up: "up w \<Longrightarrow> choose_peer L ps w = (chosen, w1) \<Longrightarrow> up w1 \<and> calls w1 = calls w"
    and connect_up: "up w \<Longrightarrow> connect L url w = (rc, w1) \<Longrightarrow>
      up w1 \<and> calls w1 = calls w \<and> (\<forall>c. rc = Ok c \<longrightarrow> url_at c = url) \<and>
      (acked u k v i w \<longrightarrow> acked u k v i w1)"
    and sleep_up: "up w \<Longrightarrow> up (sleep_ms L t w) \<and> calls (sleep_ms L t w) = calls w"
    and put_up: "up w \<Longrightarrow> call_put L c req w = (rp, w1) \<Longrightarrow>
      up w1 \<and> (\<exists>cs. calls w1 = calls w @ cs \<and> length cs \<le> 1 \<and>
        (\<forall>x \<in> set cs. \<exists>j. x = (url_at c, Rpc (RpcPut (pr_key req) (pr_value req) j))) \<and>
        (\<forall>x. rp = Ok x \<longrightarrow> (\<exists>i. cs = [(url_at c, Rpc (RpcPut (pr_key req) (pr_value req) i))] \<and>
           acked (url_at c) (pr_key req) (pr_value req) i w1)))"
    and get_up: "up w \<Longrightarrow> acked (url_at c) k v i w \<Longrightarrow> call_get L c \<lparr>gr_key = k\<rparr> w = (Ok resp, w1) \<Longrightarrow>
      fresh (url_at c) k v i resp w1"
begin

lemma target_up:
  "get_target_addr L s = (r, t) \<Longrightarrow> up (world s) \<Longrightarrow>
   up (world t) \<and> calls (world t) = calls (world s) \<and> leader_addr t = leader_addr s \<and>
   (\<forall>a. leader_addr s = Some a \<longrightarrow> r = Ok a \<and> t = s)"
  by (auto simp: get_target_addr_def on_world_def split: option.splits prod.splits list.splits
      dest: choose_up)

text \<open>
  A PUT that succeeded: at most as many commands as attempts were sent, each for this pair; the
  last is the one that was answered, and the address kept is that of the server that did.
\<close>

definition put_done ::
    "nat \<Rightarrow> string \<Rightarrow> string \<Rightarrow> (string \<times> server_command) list \<Rightarrow> 'w client_app \<Rightarrow> bool" where
  "put_done n key val before t \<longleftrightarrow>
     up (world t) \<and>
     (\<exists>cs addr i. calls (world t) = before @ cs @ [(with_http addr, Rpc (RpcPut key val i))] \<and>
        length cs < n \<and> (\<forall>x \<in> set cs. \<exists>u j. x = (u, Rpc (RpcPut key val j))) \<and>
        acked (with_http addr) key val i (world t) \<and>
        (\<forall>a. leader_addr t = Some a \<longrightarrow> a = addr))"

lemma put_done_later:
  assumes "put_done n key val (before @ cs) t" and "length cs \<le> 1"
    and "\<forall>x \<in> set cs. \<exists>u j. x = (u, Rpc (RpcPut key val j))"
  shows "put_done (Suc n) key val before t"
proof -
  obtain ds addr i where d: "up (world t)"
    "calls (world t) = before @ (cs @ ds) @ [(with_http addr, Rpc (RpcPut key val i))]"
    "length ds < n" "\<forall>x \<in> set ds. \<exists>u j. x = (u, Rpc (RpcPut key val j))"
    "acked (with_http addr) key val i (world t)" "\<forall>a. leader_addr t = Some a \<longrightarrow> a = addr"
    using assms(1) by (auto simp: put_done_def)
  moreover have "\<forall>x \<in> set (cs @ ds). \<exists>u j. x = (u, Rpc (RpcPut key val j))" using assms(3) d(4) by auto
  moreover have "length (cs @ ds) < Suc n" using assms(2) d(3) by simp
  ultimately show ?thesis unfolding put_done_def by blast
qed

lemma attempts_acked:
  assumes "put_attempts L checks n key val s = (Ok u, t)" and "up (world s)"
  shows "put_done n key val (calls (world s)) t"
  using assms
proof (induction n arbitrary: s)
  case 0
  then show ?case by simp
next
  case (Suc n)
  obtain ra s1 where target: "get_target_addr L s = (ra, s1)" by fastforce
  then obtain addr where addr: "ra = Ok addr" using Suc.prems(1) by (cases ra) simp_all
  have s1: "up (world s1)" "calls (world s1) = calls (world s)" "leader_addr s1 = Some a \<Longrightarrow> a = addr" for a
    using target_up [OF target Suc.prems(2)] addr by auto
  obtain rc w2 where conn: "connect L (with_http addr) (world s1) = (rc, w2)" by fastforce
  note w2 = connect_up [OF s1(1) conn]
  show ?case
  proof (cases rc)
    case (Ok c)
    obtain rp w3 where call: "call_put L c \<lparr>pr_key = key, pr_value = val\<rparr> w2 = (rp, w3)" by fastforce
    have "up w2" and url: "url_at c = with_http addr" using w2 Ok by auto
    from put_up [OF this(1) call] obtain cs where cs: "up w3" "calls w3 = calls (world s) @ cs" "length cs \<le> 1"
      and asked: "\<forall>x \<in> set cs. \<exists>j. x = (with_http addr, Rpc (RpcPut key val j))"
      and ok: "\<forall>x. rp = Ok x \<longrightarrow> (\<exists>i. cs = [(with_http addr, Rpc (RpcPut key val i))] \<and>
         acked (with_http addr) key val i w3)"
      using w2 s1(2) url by auto
    have pairs: "\<forall>x \<in> set cs. \<exists>u j. x = (u, Rpc (RpcPut key val j))" using asked by blast
    show ?thesis
    proof (cases rp)
      case Ok': (Ok x)
      with ok obtain i where "cs = [(with_http addr, Rpc (RpcPut key val i))]"
        "acked (with_http addr) key val i w3" by blast
      moreover have "t = s1\<lparr>world := w3\<rparr>"
        using Suc.prems(1) by (simp add: target addr conn Ok call Ok' on_world_def)
      ultimately show ?thesis
        using cs(1,2) s1(3)
        by (auto simp: put_done_def intro!: exI [of _ "[]"] exI [of _ addr] exI [of _ i])
    next
      case (Err status)
      obtain s' where "put_attempts L checks n key val s' = (Ok u, t)" "world s' = w3 \<or> world s' = sleep_ms L 100 w3"
        using Suc.prems(1)
        by (auto simp: target addr conn Ok call Err on_world_def log_message_def
            split: result.splits option.splits)
      with Suc.IH [of s'] sleep_up [OF cs(1)] cs(1,2)
      have again: "put_done n key val (calls (world s) @ cs) t" by auto
      show ?thesis by (rule put_done_later [OF again cs(3) pairs])
    next
      case Panic
      with Suc.prems(1) show ?thesis by (simp add: target addr conn Ok call on_world_def)
    qed
  next
    case (Err e)
    have "put_done n key val (calls (world s) @ []) t"
      using Suc.prems(1) Suc.IH [of "s1\<lparr>world := w2, leader_addr := None\<rparr>"] w2 s1(2)
      by (simp add: target addr conn Err on_world_def)
    from put_done_later [OF this] show ?thesis by simp
  next
    case Panic
    with Suc.prems(1) show ?thesis by (simp add: target addr conn on_world_def)
  qed
qed

lemma put_acked:
  assumes "client_put L checks key val s = (Ok u, t)" and "up (world s)"
  obtains cs addr i where "up (world t)"
    "calls (world t) = calls (world s) @ cs @ [(with_http addr, Rpc (RpcPut key val i))]" "length cs < 5"
    "\<forall>x \<in> set cs. \<exists>u j. x = (u, Rpc (RpcPut key val j))"
    "acked (with_http addr) key val i (world t)" "\<And>a. leader_addr t = Some a \<Longrightarrow> a = addr"
  using attempts_acked [OF assms [unfolded client_put_def]] unfolding put_done_def by blast

text \<open>So the next GET goes to that server.\<close>

lemma get_fresh:
  assumes "client_get L key s = (Ok x, t)" and "up (world s)" and "leader_addr s = Some addr"
    and "acked (with_http addr) key val i (world s)"
  shows "\<exists>resp. fresh (with_http addr) key val i resp (world t) \<and>
    x = (if gs_found resp then gs_value resp else ''(not found)'')"
proof -
  obtain rc w2 where conn: "connect L (with_http addr) (world s) = (rc, w2)" by fastforce
  note w2 = connect_up [OF assms(2) conn]
  obtain c where c: "rc = Ok c"
    using assms(1,3) conn by (cases rc) (simp_all add: client_get_def bindO_def get_target_addr_def on_world_def)
  obtain rp w3 where call: "call_get L c \<lparr>gr_key = key\<rparr> w2 = (rp, w3)" by fastforce
  have "t = s\<lparr>world := w3\<rparr> \<and> (\<exists>resp. rp = Ok resp \<and>
      x = (if gs_found resp then gs_value resp else ''(not found)''))"
    using assms(1,3) conn c call
    by (cases rp) (auto simp: client_get_def bindO_def get_target_addr_def on_world_def)
  with get_up [of w2 c key val i] w2 c call assms(4) show ?thesis by auto
qed

end

section \<open>Running servers\<close>

text \<open>
  The servers by the address of their service. \<open>sv_runs\<close> says what the threads do during the
  next waits of the client, each a function from a running process, at its address, to the
  process after the wait; \<open>sv_rng\<close> is what peers are drawn from. \<open>sv_calls\<close> is a record of the
  client's calls kept for the proofs: the commands their handlers sent, with the address of
  the server; nothing reads it.
\<close>

record ('t, 'm, 'r, 'c, 'h, 's) servers =
  sv_procs :: "string \<Rightarrow> ('t, 'm, 'r, 'c, 'h) process option"
  sv_runs :: "(string \<Rightarrow> ('t, 'm, 'r, 'c, 'h) process \<Rightarrow> ('t, 'm, 'r, 'c, 'h) process) list"
  sv_rng :: 's
  sv_calls :: "(string \<times> server_command) list"

definition servers_run ::
    "('t, 'm, 'r, 'c, 'h, 's) servers \<Rightarrow> ('t, 'm, 'r, 'c, 'h, 's) servers" where
  "servers_run w =
     w\<lparr>sv_procs := (\<lambda>u. map_option (next_or (\<lambda>_ p. p) (sv_runs w) u) (sv_procs w u)),
       sv_runs := tl (sv_runs w)\<rparr>"

text \<open>
  What the oneshot of a call holds. A call that was not answered during its wait ends like
  one whose sender was dropped.
\<close>

fun put_awaited :: "oneshot \<Rightarrow> reply list \<Rightarrow> (unit, string) result awaited" where
  "put_awaited i [] = Dropped"
| "put_awaited i (PutReply j r # rs) = (if j = i then Answered r else put_awaited i rs)"
| "put_awaited i (GetReply j x # rs) = put_awaited i rs"

fun get_awaited :: "oneshot \<Rightarrow> reply list \<Rightarrow> string option awaited" where
  "get_awaited i [] = Dropped"
| "get_awaited i (PutReply j r # rs) = get_awaited i rs"
| "get_awaited i (GetReply j x # rs) = (if j = i then Answered x else get_awaited i rs)"

text \<open>
  A call: the handler sends its command, everything runs, and the handler answers with what
  its oneshot holds by then.
\<close>

definition servers_call ::
    "('h raft_kv_service \<Rightarrow> 'h raft_kv_service) \<Rightarrow>
     (oneshot \<Rightarrow> reply list \<Rightarrow> 'h raft_kv_service \<Rightarrow> ('x, status) result) \<Rightarrow> string \<Rightarrow>
     ('t, 'm, 'r, 'c, 'h, 's) servers \<Rightarrow>
     ('x, status) result \<times> ('t, 'm, 'r, 'c, 'h, 's) servers" where
  "servers_call send answer url w =
     (case sv_procs w url of
        None \<Rightarrow> (Err status_unavailable, w)
      | Some p \<Rightarrow>
          let g = send (sp_grpc p);
              w = servers_run (w\<lparr>sv_procs := (sv_procs w)(url \<mapsto> grpc_moves g p),
                    sv_calls := sv_calls w @ map (Pair url) (newly_sent (cmd_queue (sp_grpc p)) (cmd_queue g))\<rparr>);
              rs = (case sv_procs w url of Some p \<Rightarrow> replies (sp_loop p) | None \<Rightarrow> [])
          in (answer (oneshots (sp_grpc p)) rs (sp_grpc p), w))"

definition servers_put ::
    "('h, 'z) grpc_libs_scheme \<Rightarrow> string \<Rightarrow> put_request \<Rightarrow> ('t, 'm, 'r, 'c, 'h, 's) servers \<Rightarrow>
     (put_response, status) result \<times> ('t, 'm, 'r, 'c, 'h, 's) servers" where
  "servers_put G url req =
     servers_call (\<lambda>g. snd (service_put G req Dropped g))
       (\<lambda>i rs g. fst (service_put G req (put_awaited i rs) g)) url"

definition servers_get ::
    "string \<Rightarrow> get_request \<Rightarrow> ('t, 'm, 'r, 'c, 'h, 's) servers \<Rightarrow>
     (get_response, status) result \<times> ('t, 'm, 'r, 'c, 'h, 's) servers" where
  "servers_get url req =
     servers_call (\<lambda>g. snd (service_get req Dropped g))
       (\<lambda>i rs g. fst (service_get req (get_awaited i rs) g)) url"

definition servers_libs ::
    "('h, 'z) grpc_libs_scheme \<Rightarrow> (string list \<Rightarrow> 's \<Rightarrow> string option \<times> 's) \<Rightarrow>
     ('h, string, ('t, 'm, 'r, 'c, 'h, 's) servers) client_libs" where
  "servers_libs G pick =
     \<lparr> to_socket_addrs = to_socket_addrs G, show_addr = show_addr G, parse_addr = parse_addr G,
       parse_metadata = parse_metadata G,
       choose_peer = (\<lambda>ps w. case pick ps (sv_rng w) of (c, r) \<Rightarrow> (c, w\<lparr>sv_rng := r\<rparr>)),
       connect = (\<lambda>url w. (if sv_procs w url = None then Err ''transport error'' else Ok url, servers_run w)),
       call_put = servers_put G, call_get = servers_get,
       sleep_ms = (\<lambda>t. servers_run), metadata_to_str = Ok, show_elapsed = (\<lambda>v w. ''0ns'') \<rparr>"

text \<open>
  The servers were started, and are in states they can reach; every wait takes them on by
  steps of theirs.
\<close>

definition running ::
    "('t, 'm, 'r, 'z) raft_libs_scheme \<Rightarrow> ('c, 'e, 'y) tcp_libs_scheme \<Rightarrow> ('h, 'x) addr_libs_scheme \<Rightarrow>
     ('h, 'w) grpc_libs_scheme \<Rightarrow> bool \<Rightarrow> ('t, 'm, 'r, 'c, 'h) process \<Rightarrow> bool" where
  "running L T A G checks p \<longleftrightarrow>
     (\<exists>(os :: 'e os_libs) args srv setup. server_start L T A os checks args = Ok srv \<and>
        process_reachable L (tcp_send T) G checks (process_start setup srv) p)"

definition runs_on ::
    "('t, 'm, 'r, 'z) raft_libs_scheme \<Rightarrow> ('c, 'e, 'y) tcp_libs_scheme \<Rightarrow> ('h, 'w) grpc_libs_scheme \<Rightarrow> bool \<Rightarrow>
     ('t, 'm, 'r, 'c, 'h, 's) servers \<Rightarrow> bool" where
  "runs_on L T G checks w \<longleftrightarrow>
     (\<forall>run \<in> set (sv_runs w). \<forall>u p. process_reachable L (tcp_send T) G checks p (run u p))"

section \<open>The contract of the client\<close>

definition serves ::
    "('t, 'm, 'r, 'z) raft_libs_scheme \<Rightarrow> 'r watch \<Rightarrow> ('t, 'm, 'r, 'c, 'h) process \<Rightarrow> bool" where
  "serves L W p \<longleftrightarrow> (\<exists>h. process_told L W h p) \<and> calls_inv L p \<and> signals_inv p"

definition servers_up ::
    "('t, 'm, 'r, 'z) raft_libs_scheme \<Rightarrow> ('c, 'e, 'y) tcp_libs_scheme \<Rightarrow> ('h, 'w) grpc_libs_scheme \<Rightarrow> bool \<Rightarrow>
     'r watch \<Rightarrow> ('t, 'm, 'r, 'c, 'h, 's) servers \<Rightarrow> bool" where
  "servers_up L T G checks W w \<longleftrightarrow>
     bincode_ok L \<and> prost_ok L \<and> inj (uuid_v4 L) \<and>
     (\<forall>u p. sv_procs w u = Some p \<longrightarrow> serves L W p) \<and> runs_on L T G checks w"

text \<open>
  \<open>w0\<close> is the world the client began with: what runs in \<open>w\<close> was running then, and has gone on.
\<close>

definition gone_on ::
    "('t, 'm, 'r, 'z) raft_libs_scheme \<Rightarrow> ('c, 'e, 'y) tcp_libs_scheme \<Rightarrow> ('h, 'w) grpc_libs_scheme \<Rightarrow> bool \<Rightarrow>
     ('t, 'm, 'r, 'c, 'h, 's) servers \<Rightarrow> ('t, 'm, 'r, 'c, 'h, 's) servers \<Rightarrow> bool" where
  "gone_on L T G checks w0 w \<longleftrightarrow>
     (\<forall>u p. sv_procs w u = Some p \<longrightarrow>
        (\<exists>p0. sv_procs w0 u = Some p0 \<and> process_reachable L (tcp_send T) G checks p0 p))"

text \<open>The oneshot of an acknowledged PUT was made since.\<close>

definition acknowledged ::
    "('t, 'm, 'r, 'c, 'h, 's) servers \<Rightarrow> string \<Rightarrow> string \<Rightarrow> string \<Rightarrow> oneshot \<Rightarrow>
     ('t, 'm, 'r, 'c, 'h, 's) servers \<Rightarrow> bool" where
  "acknowledged w0 u k v i w \<longleftrightarrow>
     (\<exists>p0 p. sv_procs w0 u = Some p0 \<and> sv_procs w u = Some p \<and> oneshots (sp_grpc p0) \<le> i \<and>
        Rpc (RpcPut k v i) \<in> set (cmd_queue (sp_grpc p)) \<and>
        PutReply i (Ok ()) \<in> set (replies (sp_loop p)))"

definition reads_since ::
    "('t, 'm, 'r, 'z) raft_libs_scheme \<Rightarrow> 'r watch \<Rightarrow> string \<Rightarrow> string \<Rightarrow> string \<Rightarrow> oneshot \<Rightarrow>
     get_response \<Rightarrow> ('t, 'm, 'r, 'c, 'h, 's) servers \<Rightarrow> bool" where
  "reads_since L W u k v i resp w \<longleftrightarrow>
     (\<exists>p since before. sv_procs w u = Some p \<and> explains L W (since @ Wrote k v (Some i) # before) p \<and>
        (gs_found resp \<and> gs_value resp = v \<or> (\<exists>e \<in> set since. overwrites k e)))"

text \<open>What a running process keeps.\<close>

lemma serves_on:
  assumes "bincode_ok L" and "prost_ok L" and "inj (uuid_v4 L)" and "serves L W p"
    and "process_reachable L tsend G checks p p1"
  shows "serves L W p1" and "explains L W h p \<Longrightarrow> \<exists>later. explains L W (later @ h) p1"
proof -
  obtain g where g: "process_told L W g p" and inv: "calls_inv L p" "signals_inv p"
    using assms(4) by (auto simp: serves_def)
  note told = told_reachable [OF assms(1-3,5) _ inv]
  show "serves L W p1"
    using told [OF g] calls_reachable [OF assms(1-3,5) inv(2,1)] signals_reachable [OF assms(5) inv(2)]
    by (auto simp: serves_def)
  show "\<exists>later. explains L W (later @ h) p1" if "explains L W h p"
    by (rule told_explains [OF told [OF explains_told [OF g that]]])
qed

lemma serves_explained: "serves L W p \<Longrightarrow> \<exists>h. explains L W h p"
  using told_explains by (fastforce simp: serves_def)

lemma serves_keeps:
  assumes "bincode_ok L" and "prost_ok L" and "inj (uuid_v4 L)" and "serves L W p"
    and "process_reachable L tsend G checks p p1"
  shows "set (cmd_queue (sp_grpc p)) \<subseteq> set (cmd_queue (sp_grpc p1))"
    and "set (replies (sp_loop p)) \<subseteq> set (replies (sp_loop p1))"
proof -
  obtain h later where "explains L W h p" "explains L W (later @ h) p1"
    using serves_explained [OF assms(4)] serves_on(2) [OF assms] by blast
  then have "calls_of h = cmd_queue (sp_grpc p)" "calls_of (later @ h) = cmd_queue (sp_grpc p1)"
    "answers_of h = replies (sp_loop p)" "answers_of (later @ h) = replies (sp_loop p1)"
    by (simp_all add: explains_parts)
  with calls_append [of later h] answers_append [of later h]
  show "set (cmd_queue (sp_grpc p)) \<subseteq> set (cmd_queue (sp_grpc p1))"
    "set (replies (sp_loop p)) \<subseteq> set (replies (sp_loop p1))"
    by (metis Un_upper1 set_append)+
qed

lemma run_reachable:
  "runs_on L T G checks w \<Longrightarrow> process_reachable L (tcp_send T) G checks p (next_or (\<lambda>_ p. p) (sv_runs w) u p)"
  by (cases "sv_runs w") (auto simp: runs_on_def intro: process_reachable.started)

lemma runs_on_tl: "runs_on L T G checks w \<Longrightarrow> runs_on L T G checks (servers_run w)"
  by (cases "sv_runs w") (auto simp: runs_on_def servers_run_def)

lemma process_reachable_trans:
  assumes "process_reachable L tsend G checks p p1" and "process_reachable L tsend G checks p0 p"
  shows "process_reachable L tsend G checks p0 p1"
  using assms by (induction) (auto intro: process_reachable.step)

lemma gone_on_refl: "gone_on L T G checks w w"
  by (auto simp: gone_on_def intro: process_reachable.started)

lemma oneshots_step:
  assumes "process_step L tsend G checks p p1"
  shows "oneshots (sp_grpc p) \<le> oneshots (sp_grpc p1)"
  using assms
proof cases
  case (loop inp due r s)
  then show ?thesis by (cases inp) (auto simp: loop_moves_def loop_over_def Let_def)
next
  case (put req rx r g)
  then show ?thesis using service_put_sends [OF put(2)] by (simp add: grpc_moves_def)
next
  case (get req rx r g)
  then show ?thesis using service_get_sends [OF get(2)] by (simp add: grpc_moves_def)
qed (simp_all add: tui_moves_def)

lemma oneshots_grow:
  "process_reachable L tsend G checks p p1 \<Longrightarrow> oneshots (sp_grpc p) \<le> oneshots (sp_grpc p1)"
  by (induction rule: process_reachable.induct) (auto dest: oneshots_step)

text \<open>Everything runs for a while.\<close>

lemma run_up:
  assumes "servers_up L T G checks W w" and "gone_on L T G checks w0 w"
  shows "servers_up L T G checks W (servers_run w)" and "gone_on L T G checks w0 (servers_run w)"
    and "sv_calls (servers_run w) = sv_calls w"
    and "acknowledged w0 u k v i w \<Longrightarrow> acknowledged w0 u k v i (servers_run w)"
proof -
  let ?run = "\<lambda>u. next_or (\<lambda>_ p. p) (sv_runs w) u"
  have lib: "bincode_ok L" "prost_ok L" "inj (uuid_v4 L)" and runs: "runs_on L T G checks w"
    and all: "\<And>u p. sv_procs w u = Some p \<Longrightarrow> serves L W p"
    using assms(1) by (auto simp: servers_up_def)
  have "serves L W (?run u p)" if "sv_procs w u = Some p" for u p
    by (rule serves_on(1) [OF lib all [OF that] run_reachable [OF runs]])
  then show "servers_up L T G checks W (servers_run w)"
    using lib runs_on_tl [OF runs] by (auto simp: servers_up_def servers_run_def)
  show "gone_on L T G checks w0 (servers_run w)"
    using assms(2) process_reachable_trans [OF run_reachable [OF runs]]
    by (fastforce simp: gone_on_def servers_run_def)
  show "sv_calls (servers_run w) = sv_calls w" by (simp add: servers_run_def)
  show "acknowledged w0 u k v i (servers_run w)" if ack: "acknowledged w0 u k v i w"
  proof -
    obtain p0 p where p: "sv_procs w u = Some p" "Rpc (RpcPut k v i) \<in> set (cmd_queue (sp_grpc p))"
      "PutReply i (Ok ()) \<in> set (replies (sp_loop p))" "sv_procs w0 u = Some p0" "oneshots (sp_grpc p0) \<le> i"
      using ack by (auto simp: acknowledged_def)
    from serves_keeps [OF lib all [OF p(1)] run_reachable [OF runs]] p show ?thesis
      by (fastforce simp: acknowledged_def servers_run_def)
  qed
qed

text \<open>A call.\<close>

lemma put_awaited_in: "put_awaited i rs = Answered r \<Longrightarrow> PutReply i r \<in> set rs"
  by (induction i rs rule: put_awaited.induct) (auto split: if_splits)

lemma get_awaited_in: "get_awaited i rs = Answered x \<Longrightarrow> GetReply i x \<in> set rs"
  by (induction i rs rule: get_awaited.induct) (auto split: if_splits)

lemma bindR_Err_not_Ok [simp]: "bindR r Err \<noteq> Ok x"
  by (cases r) simp_all

lemma service_put_Ok:
  "fst (service_put G req rx g) = Ok x \<longleftrightarrow> driver_alive g \<and> rx = Answered (Ok ())"
  by (cases x) (auto simp: service_put_eq put_answer_def split: awaited.split result.split)

lemma service_get_Ok:
  "fst (service_get req rx g) = Ok resp \<longleftrightarrow> driver_alive g \<and>
     (\<exists>x. rx = Answered x \<and> resp = \<lparr>gs_value = (case x of None \<Rightarrow> [] | Some v \<Rightarrow> v), gs_found = (x \<noteq> None)\<rparr>)"
  by (auto simp: service_get_eq get_answer_def split: awaited.split option.split)

lemma call_up:
  assumes up: "servers_up L T G checks W w" and on: "gone_on L T G checks w0 w"
    and p: "sv_procs w url = Some p"
    and step: "process_step L (tcp_send T) G checks p (grpc_moves (send (sp_grpc p)) p)"
    and call: "servers_call send answer url w = (r, w1)"
  shows "servers_up L T G checks W w1 \<and> gone_on L T G checks w0 w1 \<and>
    sv_calls w1 = sv_calls w @
      map (Pair url) (newly_sent (cmd_queue (sp_grpc p)) (cmd_queue (send (sp_grpc p)))) \<and>
    serves L W (grpc_moves (send (sp_grpc p)) p) \<and>
    (\<exists>p1. sv_procs w1 url = Some p1 \<and>
      process_reachable L (tcp_send T) G checks (grpc_moves (send (sp_grpc p)) p) p1 \<and>
      r = answer (oneshots (sp_grpc p)) (replies (sp_loop p1)) (sp_grpc p))"
proof -
  let ?q = "grpc_moves (send (sp_grpc p)) p"
  let ?w = "w\<lparr>sv_procs := (sv_procs w)(url \<mapsto> ?q), sv_calls := sv_calls w @
    map (Pair url) (newly_sent (cmd_queue (sp_grpc p)) (cmd_queue (send (sp_grpc p))))\<rparr>"
  have lib: "bincode_ok L" "prost_ok L" "inj (uuid_v4 L)" and runs: "runs_on L T G checks w"
    and all: "\<And>u p. sv_procs w u = Some p \<Longrightarrow> serves L W p"
    using up by (auto simp: servers_up_def)
  have q: "serves L W ?q"
    by (rule serves_on(1) [OF lib all [OF p] process_reachable.step [OF process_reachable.started step]])
  have runs': "runs_on L T G checks ?w" using runs by (simp add: runs_on_def)
  have "servers_up L T G checks W ?w"
    using lib runs' q all by (auto simp: servers_up_def)
  moreover have "gone_on L T G checks w0 ?w"
  proof -
    obtain p0 where p0: "sv_procs w0 url = Some p0" "process_reachable L (tcp_send T) G checks p0 p"
      using on p unfolding gone_on_def by blast
    have "process_reachable L (tcp_send T) G checks p0 ?q" by (rule process_reachable.step [OF p0(2) step])
    with on p0(1) show ?thesis by (simp add: gone_on_def)
  qed
  moreover have "process_reachable L (tcp_send T) G checks ?q (next_or (\<lambda>_ p. p) (sv_runs ?w) url ?q)"
    by (rule run_reachable [OF runs'])
  moreover have "w1 = servers_run ?w" "r = answer (oneshots (sp_grpc p))
      (replies (sp_loop (next_or (\<lambda>_ p. p) (sv_runs ?w) url ?q))) (sp_grpc p)"
    "sv_procs w1 url = Some (next_or (\<lambda>_ p. p) (sv_runs ?w) url ?q)"
    using call p by (auto simp: servers_call_def Let_def servers_run_def)
  ultimately show ?thesis
    using run_up(1-3) [of L T G checks W ?w w0] q by auto
qed

lemma call_missing:
  "sv_procs w url = None \<Longrightarrow> servers_call send answer url w = (Err status_unavailable, w)"
  by (simp add: servers_call_def)

lemma servers_put_up:
  assumes up: "servers_up L T G checks W w" and on: "gone_on L T G checks w0 w"
    and call: "servers_put G url req w = (r, w1)"
  shows "servers_up L T G checks W w1 \<and> gone_on L T G checks w0 w1 \<and>
    (\<exists>cs. sv_calls w1 = sv_calls w @ cs \<and> length cs \<le> 1 \<and>
      (\<forall>x \<in> set cs. \<exists>j. x = (url, Rpc (RpcPut (pr_key req) (pr_value req) j))) \<and>
      (\<forall>x. r = Ok x \<longrightarrow> (\<exists>i. cs = [(url, Rpc (RpcPut (pr_key req) (pr_value req) i))] \<and>
         acknowledged w0 url (pr_key req) (pr_value req) i w1)))"
proof (cases "sv_procs w url")
  case None
  with up on call show ?thesis by (auto simp: servers_put_def call_missing)
next
  case (Some p)
  let ?i = "oneshots (sp_grpc p)" and ?g = "snd (service_put G req Dropped (sp_grpc p))"
  let ?cs = "if driver_alive (sp_grpc p) then [(url, Rpc (RpcPut (pr_key req) (pr_value req) ?i))] else []"
  have sent: "service_put G req Dropped (sp_grpc p) = (fst (service_put G req Dropped (sp_grpc p)), ?g)" by simp
  have "process_step L (tcp_send T) G checks p (grpc_moves ?g p)" by (rule process_step.put [OF sent])
  from call_up [OF up on Some this call [unfolded servers_put_def]] obtain p1 where
    p1: "servers_up L T G checks W w1" "serves L W (grpc_moves ?g p)" "sv_procs w1 url = Some p1"
      "process_reachable L (tcp_send T) G checks (grpc_moves ?g p) p1"
      "r = fst (service_put G req (put_awaited ?i (replies (sp_loop p1))) (sp_grpc p))"
      "gone_on L T G checks w0 w1"
      "sv_calls w1 = sv_calls w @ map (Pair url) (newly_sent (cmd_queue (sp_grpc p)) (cmd_queue ?g))"
    by blast
  have calls: "sv_calls w1 = sv_calls w @ ?cs"
    using p1(7) service_put_sends [OF sent] by simp
  have lib: "bincode_ok L" "prost_ok L" "inj (uuid_v4 L)" using up by (simp_all add: servers_up_def)
  obtain p0 where p0: "sv_procs w0 url = Some p0" "oneshots (sp_grpc p0) \<le> ?i"
    using on Some oneshots_grow unfolding gone_on_def by blast
  have "\<exists>i. ?cs = [(url, Rpc (RpcPut (pr_key req) (pr_value req) i))] \<and>
      acknowledged w0 url (pr_key req) (pr_value req) i w1" if "r = Ok x" for x
  proof -
    have ok: "driver_alive (sp_grpc p)" "put_awaited ?i (replies (sp_loop p1)) = Answered (Ok ())"
      using that p1(5) by (simp_all add: service_put_Ok)
    have "Rpc (RpcPut (pr_key req) (pr_value req) ?i) \<in> set (cmd_queue (sp_grpc (grpc_moves ?g p)))"
      using service_put_sends [OF sent] ok(1) by (simp add: grpc_moves_def)
    with serves_keeps(1) [OF lib p1(2,4)] put_awaited_in [OF ok(2)] p1(3) p0 ok(1) show ?thesis
      by (auto simp: acknowledged_def)
  qed
  with p1(1,6) calls show ?thesis by (intro conjI exI [of _ ?cs]) auto
qed

text \<open>The commands of a server bear oneshots it has made.\<close>

lemma new_oneshot:
  assumes "serves L W p" and "oneshots (sp_grpc p) \<le> i" and "i \<in> set (command_oneshots (Rpc c))"
  shows "Rpc c \<notin> set (cmd_queue (sp_grpc p))"
proof -
  have "set (concat (map command_oneshots (cmd_queue (sp_grpc p)))) \<subseteq> {..<oneshots (sp_grpc p)}"
    using assms(1) by (auto simp: serves_def process_told_def)
  with assms(2,3) show ?thesis by fastforce
qed

lemma servers_get_up:
  assumes up: "servers_up L T G checks W w" and on: "gone_on L T G checks w0 w"
    and ack: "acknowledged w0 url k v i w"
    and call: "servers_get url \<lparr>gr_key = k\<rparr> w = (Ok resp, w1)"
  shows "reads_since L W url k v i resp w1"
proof -
  obtain p where p: "sv_procs w url = Some p" "Rpc (RpcPut k v i) \<in> set (cmd_queue (sp_grpc p))"
    "PutReply i (Ok ()) \<in> set (replies (sp_loop p))"
    using ack by (auto simp: acknowledged_def)
  let ?req = "\<lparr>gr_key = k\<rparr>"
  let ?j = "oneshots (sp_grpc p)" and ?g = "snd (service_get ?req Dropped (sp_grpc p))"
  have sent: "service_get ?req Dropped (sp_grpc p) = (fst (service_get ?req Dropped (sp_grpc p)), ?g)" by simp
  have step: "process_step L (tcp_send T) G checks p (grpc_moves ?g p)" by (rule process_step.get [OF sent])
  from call_up [OF up on p(1) step call [unfolded servers_get_def]] obtain p1 where
    p1: "serves L W (grpc_moves ?g p)" "sv_procs w1 url = Some p1"
      "process_reachable L (tcp_send T) G checks (grpc_moves ?g p) p1"
      "Ok resp = fst (service_get ?req (get_awaited ?j (replies (sp_loop p1))) (sp_grpc p))"
    by blast
  obtain x where alive: "driver_alive (sp_grpc p)" and x: "get_awaited ?j (replies (sp_loop p1)) = Answered x"
    "resp = \<lparr>gs_value = (case x of None \<Rightarrow> [] | Some v \<Rightarrow> v), gs_found = (x \<noteq> None)\<rparr>"
    using p1(4) [symmetric] by (auto simp: service_get_Ok)
  have lib: "bincode_ok L" "prost_ok L" "inj (uuid_v4 L)" and serves: "serves L W p"
    using up p(1) by (auto simp: servers_up_def)
  obtain h l1 where h: "explains L W h p" "explains L W (l1 @ h) (grpc_moves ?g p)"
    using serves_explained [OF serves]
      serves_on(2) [OF lib serves process_reachable.step [OF process_reachable.started step]] by blast
  obtain l2 where l2: "explains L W (l2 @ l1 @ h) p1" using serves_on(2) [OF lib p1(1,3) h(2)] by blast
  note parts = explainsD [OF h(1)] explainsD [OF h(2)] explainsD [OF l2]
  have "Rpc (RpcGet k ?j) \<in> set (calls_of (l1 @ h))"
    using service_get_sends [OF sent] alive parts by (simp add: grpc_moves_def)
  then have get: "Rpc (RpcGet k ?j) \<in> set (calls_of ((l2 @ l1) @ h))"
    using calls_append [of l2 "l1 @ h"] by auto
  have "Rpc (RpcGet k ?j) \<notin> set (cmd_queue (sp_grpc p))" by (rule new_oneshot [OF serves]) simp_all
  then have new: "Rpc (RpcGet k ?j) \<notin> set (calls_of h)" using parts by simp
  have "\<exists>since before. (l2 @ l1) @ h = since @ Wrote k v (Some i) # before \<and>
      (x = Some v \<or> (\<exists>e \<in> set since. overwrites k e))"
    by (rule read_after_put [OF _ _ _ _ get new])
      (use parts p get_awaited_in [OF x(1)] in simp_all)
  with l2 p1(2) x(2) show ?thesis unfolding reads_since_def by fastforce
qed

interpretation sv: store_network "servers_libs G pick"
    "\<lambda>w. servers_up L T G checks W w \<and> gone_on L T G checks w0 w" sv_calls "acknowledged w0"
    "reads_since L W" "\<lambda>u. u"
  for G pick L T checks W w0
proof
  fix w w1 url rc i and u k v :: string
  assume up: "servers_up L T G checks W w \<and> gone_on L T G checks w0 w"
    and run: "connect (servers_libs G pick) url w = (rc, w1)"
  then have "w1 = servers_run w" "\<forall>c. rc = Ok c \<longrightarrow> c = url" by (auto simp: servers_libs_def split: if_splits)
  with run_up [of L T G checks W w w0] up
  show "(servers_up L T G checks W w1 \<and> gone_on L T G checks w0 w1) \<and> sv_calls w1 = sv_calls w \<and>
      (\<forall>c. rc = Ok c \<longrightarrow> c = url) \<and> (acknowledged w0 u k v i w \<longrightarrow> acknowledged w0 u k v i w1)" by blast
next
  fix w and t :: nat
  assume "servers_up L T G checks W w \<and> gone_on L T G checks w0 w"
  with run_up(1-3) [of L T G checks W w w0]
  show "(servers_up L T G checks W (sleep_ms (servers_libs G pick) t w) \<and>
      gone_on L T G checks w0 (sleep_ms (servers_libs G pick) t w)) \<and>
      sv_calls (sleep_ms (servers_libs G pick) t w) = sv_calls w" by (simp add: servers_libs_def)
next
  fix w w1 ps c
  assume "servers_up L T G checks W w \<and> gone_on L T G checks w0 w"
    and "choose_peer (servers_libs G pick) ps w = (c, w1)"
  then show "(servers_up L T G checks W w1 \<and> gone_on L T G checks w0 w1) \<and> sv_calls w1 = sv_calls w"
    by (auto simp: servers_libs_def servers_up_def runs_on_def gone_on_def split: prod.splits)
next
  fix w w1 c req rp
  assume "servers_up L T G checks W w \<and> gone_on L T G checks w0 w"
    and "call_put (servers_libs G pick) c req w = (rp, w1)"
  then show "(servers_up L T G checks W w1 \<and> gone_on L T G checks w0 w1) \<and>
      (\<exists>cs. sv_calls w1 = sv_calls w @ cs \<and> length cs \<le> 1 \<and>
        (\<forall>x \<in> set cs. \<exists>j. x = (c, Rpc (RpcPut (pr_key req) (pr_value req) j))) \<and>
        (\<forall>x. rp = Ok x \<longrightarrow> (\<exists>i. cs = [(c, Rpc (RpcPut (pr_key req) (pr_value req) i))] \<and>
           acknowledged w0 c (pr_key req) (pr_value req) i w1)))"
    using servers_put_up [of L T G checks W w w0 c req rp w1] by (simp add: servers_libs_def)
next
  fix w w1 c i resp and k v :: string
  assume "servers_up L T G checks W w \<and> gone_on L T G checks w0 w" and "acknowledged w0 c k v i w"
    and "call_get (servers_libs G pick) c \<lparr>gr_key = k\<rparr> w = (Ok resp, w1)"
  then show "reads_since L W c k v i resp w1"
    using servers_get_up [of L T G checks W w w0 c k v i resp w1] by (simp add: servers_libs_def)
qed

section \<open>Properties\<close>

lemma servers_upI:
  assumes "bincode_ok L" and "prost_ok L" and "inj (uuid_v4 L)" and "carries L W"
    and "\<forall>u p. sv_procs w u = Some p \<longrightarrow> running L T A G checks p" and "runs_on L T G checks w"
  shows "servers_up L T G checks W w"
proof -
  have "serves L W p" if up: "sv_procs w u = Some p" for u p
  proof -
    obtain os :: "_ os_libs" and args srv terminal
      where start: "server_start L T A os checks args = Ok srv"
      and run: "process_reachable L (tcp_send T) G checks (process_start terminal srv) p"
      using assms(5) up unfolding running_def by blast
    have "serves L W (process_start terminal srv)"
      using told_started [OF start assms(4)] started_invariants [OF start] by (auto simp: serves_def)
    from serves_on(1) [OF assms(1-3) this run] show ?thesis .
  qed
  with assms show ?thesis by (simp add: servers_up_def)
qed

text \<open>
  A PUT acknowledged since \<open>w0\<close>, in the history of the server that answered it, which goes on
  from any history of that server in \<open>w0\<close>.
\<close>

lemma acknowledged_is_written:
  assumes up0: "servers_up L T G checks W w0" and up: "servers_up L T G checks W w"
    and on: "gone_on L T G checks w0 w" and ack: "acknowledged w0 url k v i w"
  obtains p0 p h0 since before where "sv_procs w0 url = Some p0" "sv_procs w url = Some p"
    "Rpc (RpcPut k v i) \<notin> set (cmd_queue (sp_grpc p0))"
    "explains L W h0 p0" "explains L W (since @ Wrote k v (Some i) # before @ h0) p"
    "Called (Rpc (RpcPut k v i)) \<in> set before"
proof -
  obtain p0 p where p: "sv_procs w0 url = Some p0" "sv_procs w url = Some p" "oneshots (sp_grpc p0) \<le> i"
    "Rpc (RpcPut k v i) \<in> set (cmd_queue (sp_grpc p))" "PutReply i (Ok ()) \<in> set (replies (sp_loop p))"
    using ack by (auto simp: acknowledged_def)
  have lib: "bincode_ok L" "prost_ok L" "inj (uuid_v4 L)" and serves: "serves L W p0"
    using up0 p(1) by (auto simp: servers_up_def)
  have reach: "process_reachable L (tcp_send T) G checks p0 p" 
    using on p(1,2) unfolding gone_on_def by fastforce
  have new: "Rpc (RpcPut k v i) \<notin> set (cmd_queue (sp_grpc p0))"
    by (rule new_oneshot [OF serves p(3)]) simp
  obtain h0 later where h: "explains L W h0 p0" "explains L W (later @ h0) p"
    using serves_explained [OF serves] serves_on(2) [OF lib serves reach] by blast
  note parts = explainsD [OF h(1)] explainsD [OF h(2)]
  obtain since b where b: "later @ h0 = since @ Wrote k v (Some i) # b"
    using written_by_its_call [of "later @ h0" k v i] parts p(4,5) by auto
  obtain before where "b = before @ h0" "Called (Rpc (RpcPut k v i)) \<in> set before"
    by (rule written_since [OF _ _ b]) (use parts new in simp_all)
  with that [OF p(1,2) new h(1)] h(2) b show ?thesis by simp
qed

text \<open>
  C7: a PUT the client reports as successful is in the store of a server. Whatever servers it
  asks, however their threads and the network behave in the meantime and whatever it was
  redirected to: during the call it sent at most five commands, each a PUT of this pair
  under a oneshot of its own. The last of them, with oneshot \<open>i\<close>, is the one that was
  answered: it is new, and the server it went to has a history, which goes on from one of
  that server before the call, in which this command was called and then written; its
  calls, its value and its answers are the server's now, its writes are committed by raft.
  No oneshot is written twice in any history of any server, so the pair is written once
  for that command and at most once for each attempt before it: one that was not answered
  in time may be written too.
\<close>

theorem client_put_is_written:
  assumes "bincode_ok L" and "prost_ok L" and "inj (uuid_v4 L)" and "carries L W"
    and "\<forall>u p. sv_procs (world s) u = Some p \<longrightarrow> running L T A G checks p"
    and "runs_on L T G checks (world s)"
    and "client_put (servers_libs G pick) checks' key val s = (Ok u, s1)"
  shows "\<exists>attempts url i p0 p h0 since before.
    sv_calls (world s1) = sv_calls (world s) @ attempts @ [(url, Rpc (RpcPut key val i))] \<and>
    length attempts < 5 \<and> (\<forall>a \<in> set attempts. \<exists>url' j. a = (url', Rpc (RpcPut key val j))) \<and>
    sv_procs (world s) url = Some p0 \<and> sv_procs (world s1) url = Some p \<and>
    Rpc (RpcPut key val i) \<notin> set (cmd_queue (sp_grpc p0)) \<and>
    explains L W h0 p0 \<and> Called (Rpc (RpcPut key val i)) \<in> set before \<and>
    legal (since @ Wrote key val (Some i) # before @ h0) \<and>
    calls_of (since @ Wrote key val (Some i) # before @ h0) = cmd_queue (sp_grpc p) \<and>
    value_of (since @ Wrote key val (Some i) # before @ h0) = kv_abs (kv_node (sp_loop p)) \<and>
    answers_of (since @ Wrote key val (Some i) # before @ h0) = replies (sp_loop p) \<and>
    subseq (effects_of (since @ Wrote key val (Some i) # before @ h0)) (raft_committed L W p) \<and>
    (\<forall>url' p' h' j. sv_procs (world s1) url' = Some p' \<and> explains L W h' p' \<longrightarrow>
       length (filter (written_by j) h') \<le> 1)"
proof -
  have up0: "servers_up L T G checks W (world s)" by (rule servers_upI [OF assms(1-6)])
  obtain attempts addr i where up: "servers_up L T G checks W (world s1)"
    and on: "gone_on L T G checks (world s) (world s1)"
    and calls: "sv_calls (world s1) =
      sv_calls (world s) @ attempts @ [(with_http addr, Rpc (RpcPut key val i))]" "length attempts < 5"
      "\<forall>a \<in> set attempts. \<exists>url' j. a = (url', Rpc (RpcPut key val j))"
    and ack: "acknowledged (world s) (with_http addr) key val i (world s1)"
    using sv.put_acked [OF assms(7) conjI [OF up0 gone_on_refl]] by metis
  obtain p0 p h0 since before where p: "sv_procs (world s) (with_http addr) = Some p0"
    "sv_procs (world s1) (with_http addr) = Some p" "Rpc (RpcPut key val i) \<notin> set (cmd_queue (sp_grpc p0))"
    "explains L W h0 p0" "Called (Rpc (RpcPut key val i)) \<in> set before"
    and h: "explains L W (since @ Wrote key val (Some i) # before @ h0) p"
    by (rule acknowledged_is_written [OF up0 up on ack]) blast
  have once: "\<forall>url' p' h' j. sv_procs (world s1) url' = Some p' \<and> explains L W h' p' \<longrightarrow>
      length (filter (written_by j) h') \<le> 1"
    using written_once explainsD by blast
  show ?thesis
    by (rule exI [of _ attempts], rule exI [of _ "with_http addr"], rule exI [of _ i], rule exI [of _ p0],
        rule exI [of _ p], rule exI [of _ h0], rule exI [of _ since], rule exI [of _ before])
      (intro conjI calls p once; use explainsD [OF h] in blast)
qed

text \<open>
  C3: the client reads what it wrote. After a PUT that succeeded with the client redirected,
  or asked at an address it kept, a GET of the same key goes to the server that answered, and
  if it is answered it gives the value put by that very call (oneshot \<open>i\<close>), unless that server
  has since taken over another write of the key, or a snapshot, that raft committed. (Without
  such an address the GET goes to a peer drawn at random, which may not have applied the PUT
  yet.)
\<close>

theorem client_reads_its_write:
  assumes "bincode_ok L" and "prost_ok L" and "inj (uuid_v4 L)" and "carries L W"
    and "\<forall>u p. sv_procs (world s) u = Some p \<longrightarrow> running L T A G checks p"
    and "runs_on L T G checks (world s)"
    and "client_put (servers_libs G pick) checks' key val s = (Ok u, s1)"
    and "leader_addr s1 = Some addr"
    and "client_get (servers_libs G pick) key s1 = (Ok x, s2)"
  shows "\<exists>attempts p i since before.
    sv_calls (world s1) = sv_calls (world s) @ attempts @ [(with_http addr, Rpc (RpcPut key val i))] \<and>
    sv_procs (world s2) (with_http addr) = Some p \<and>
    legal (since @ Wrote key val (Some i) # before) \<and>
    calls_of (since @ Wrote key val (Some i) # before) = cmd_queue (sp_grpc p) \<and>
    answers_of (since @ Wrote key val (Some i) # before) = replies (sp_loop p) \<and>
    subseq (effects_of (since @ Wrote key val (Some i) # before)) (raft_committed L W p) \<and>
    (x = val \<or> (\<exists>e \<in> set since. overwrites key e))"
proof -
  have up0: "servers_up L T G checks W (world s)" by (rule servers_upI [OF assms(1-6)])
  obtain attempts i where up: "servers_up L T G checks W (world s1) \<and> gone_on L T G checks (world s) (world s1)"
    and calls: "sv_calls (world s1) =
      sv_calls (world s) @ attempts @ [(with_http addr, Rpc (RpcPut key val i))]"
    and ack: "acknowledged (world s) (with_http addr) key val i (world s1)"
    using sv.put_acked [OF assms(7) conjI [OF up0 gone_on_refl]] assms(8) by metis
  from sv.get_fresh [OF assms(9) up assms(8) ack] obtain resp where
    "reads_since L W (with_http addr) key val i resp (world s2)"
    "x = (if gs_found resp then gs_value resp else ''(not found)'')"
    by blast
  with calls show ?thesis by (fastforce simp: reads_since_def dest!: explainsD)
qed

section \<open>Instances\<close>

text \<open>The session of \<open>Sample_Session\<close>, seen from the client.\<close>

definition moving :: "'p \<Rightarrow> 'p \<Rightarrow> string \<Rightarrow> 'p \<Rightarrow> 'p" where
  "moving p q = (\<lambda>u x. if x = p then q else x)"

definition sample_pick :: "string list \<Rightarrow> unit \<Rightarrow> string option \<times> unit" where
  "sample_pick ps x = (None, x)"

lemma one_run [simp]:
  "servers_run \<lparr>sv_procs = [u \<mapsto> p], sv_runs = run # runs, sv_rng = x, sv_calls = cs\<rparr> =
     \<lparr>sv_procs = [u \<mapsto> run u p], sv_runs = runs, sv_rng = x, sv_calls = cs\<rparr>"
  by (auto simp: servers_run_def)

lemma sample_client_session:
  "\<exists>w s1 s2. (\<forall>u p. sv_procs w u = Some p \<longrightarrow> running sample_carry_libs sample_tcp sample_addr_libs sample_meta_libs True p) \<and>
     runs_on sample_carry_libs sample_tcp sample_meta_libs True w \<and>
     client_put (servers_libs sample_meta_libs sample_pick) True ''k'' ''v''
       ((client_new [''http://a''] w)\<lparr>leader_addr := Some ''http://a''\<rparr>) = (Ok (), s1) \<and>
     leader_addr s1 = Some ''http://a'' \<and>
     client_get (servers_libs sample_meta_libs sample_pick) ''k'' s1 = (Ok ''v'', s2)"
proof -
  obtain srv g p g' p1 where srv: "server_start sample_carry_libs sample_tcp sample_addr_libs sample_os True
       (sample_args (Some '':memory:'')) = Ok srv"
    and g: "snd (service_put sample_meta_libs \<lparr>pr_key = ''k'', pr_value = ''v''\<rparr> Dropped
       (sp_grpc (process_start (Ok ()) srv))) = g"
    and r: "process_reachable sample_carry_libs (tcp_send sample_tcp) sample_meta_libs True
       (grpc_moves g (process_start (Ok ()) srv)) p"
    and g': "snd (service_get \<lparr>gr_key = ''k''\<rparr> Dropped (sp_grpc p)) = g'"
    and r': "process_reachable sample_carry_libs (tcp_send sample_tcp) sample_meta_libs True (grpc_moves g' p) p1"
    and alive: "driver_alive (sp_grpc (process_start (Ok ()) srv))" "oneshots (sp_grpc (process_start (Ok ()) srv)) = 0"
      "driver_alive (sp_grpc p)" "oneshots (sp_grpc p) = 1"
    and rs: "replies (sp_loop p) = [PutReply 0 (Ok ())]"
      "replies (sp_loop p1) = [PutReply 0 (Ok ()), GetReply 1 (Some ''v'')]"
    using sample_session_calls by blast
  let ?p0 = "process_start (Ok ()) srv" and ?libs = "servers_libs sample_meta_libs sample_pick"
  let ?run = "[\<lambda>u p. p, moving (grpc_moves g ?p0) p, \<lambda>u p. p, moving (grpc_moves g' p) p1]"
  let ?w = "\<lparr>sv_procs = [''http://a'' \<mapsto> ?p0], sv_runs = ?run, sv_rng = (), sv_calls = []\<rparr>"
  let ?s = "(client_new [''http://a''] ?w)\<lparr>leader_addr := Some ''http://a''\<rparr>"
  have http: "with_http ''http://a'' = ''http://a''" by (simp add: with_http_def starts_with_def)
  let ?put = "(''http://a'', Rpc (RpcPut ''k'' ''v'' 0))" and ?get = "(''http://a'', Rpc (RpcGet ''k'' 1))"
  let ?s1 = "?s\<lparr>world := \<lparr>sv_procs = [''http://a'' \<mapsto> p],
      sv_runs = [\<lambda>u p. p, moving (grpc_moves g' p) p1], sv_rng = (), sv_calls = [?put]\<rparr>\<rparr>"
  let ?s2 = "?s1\<lparr>world := \<lparr>sv_procs = [''http://a'' \<mapsto> p1], sv_runs = [], sv_rng = (),
      sv_calls = [?put, ?get]\<rparr>\<rparr>"
  have queues: "newly_sent (cmd_queue (sp_grpc ?p0)) (cmd_queue g) = [Rpc (RpcPut ''k'' ''v'' 0)]"
    "newly_sent (cmd_queue (sp_grpc p)) (cmd_queue g') = [Rpc (RpcGet ''k'' 1)]"
    using service_put_sends [OF prod.collapse [symmetric], of sample_meta_libs "\<lparr>pr_key = ''k'', pr_value = ''v''\<rparr>"
        Dropped "sp_grpc ?p0"]
      service_get_sends [OF prod.collapse [symmetric], of "\<lparr>gr_key = ''k''\<rparr>" Dropped "sp_grpc p"] g g' alive
    by simp_all
  have "running sample_carry_libs sample_tcp sample_addr_libs sample_meta_libs True ?p0"
    using srv process_reachable.started unfolding running_def by blast
  then have up: "\<forall>u p. sv_procs ?w u = Some p \<longrightarrow>
      running sample_carry_libs sample_tcp sample_addr_libs sample_meta_libs True p" by simp
  have runs: "runs_on sample_carry_libs sample_tcp sample_meta_libs True ?w"
    using r r' by (auto simp: runs_on_def moving_def intro: process_reachable.started)
  have "put_awaited (oneshots (sp_grpc ?p0)) (replies (sp_loop p)) = Answered (Ok ())"
    by (simp add: alive rs)
  then have put: "client_put ?libs True ''k'' ''v'' ?s = (Ok (), ?s1)"
    using alive g
    by (simp add: client_put_def client_new_def get_target_addr_def on_world_def bindO_def http servers_libs_def
        servers_put_def servers_call_def Let_def moving_def service_put_eq put_answer_def eval_nat_numeral
        queues)
  have "get_awaited (oneshots (sp_grpc p)) (replies (sp_loop p1)) = Answered (Some ''v'')"
    by (simp add: alive rs)
  then have get: "client_get ?libs ''k'' ?s1 = (Ok ''v'', ?s2)"
    using alive g'
    by (simp add: client_get_def client_new_def get_target_addr_def on_world_def bindO_def http servers_libs_def
        servers_get_def servers_call_def Let_def moving_def service_get_eq get_answer_def queues)
  have addr: "leader_addr ?s1 = Some ''http://a''" by simp
  show ?thesis
    by (rule exI [of _ ?w], rule exI [of _ ?s1], rule exI [of _ ?s2]) (intro conjI up runs put get addr)
qed

theorem client_put_is_written_witness:
  "\<exists>w s1 attempts url p i since before h0. runs_on sample_carry_libs sample_tcp sample_meta_libs True w \<and>
     client_put (servers_libs sample_meta_libs sample_pick) True ''k'' ''v''
       ((client_new [''http://a''] w)\<lparr>leader_addr := Some ''http://a''\<rparr>) = (Ok (), s1) \<and>
     sv_calls (world s1) = sv_calls w @ attempts @ [(url, Rpc (RpcPut ''k'' ''v'' i))] \<and>
     sv_procs (world s1) url = Some p \<and> legal (since @ Wrote ''k'' ''v'' (Some i) # before @ h0) \<and>
     Called (Rpc (RpcPut ''k'' ''v'' i)) \<in> set before \<and>
     answers_of (since @ Wrote ''k'' ''v'' (Some i) # before @ h0) = replies (sp_loop p)"
proof -
  note lib = sample_carry_bincode sample_carry_prost sample_carry_uuid sample_carries
  obtain w s1 where s:
    "\<forall>u p. sv_procs w u = Some p \<longrightarrow> running sample_carry_libs sample_tcp sample_addr_libs sample_meta_libs True p"
    "runs_on sample_carry_libs sample_tcp sample_meta_libs True w"
    "client_put (servers_libs sample_meta_libs sample_pick) True ''k'' ''v''
       ((client_new [''http://a''] w)\<lparr>leader_addr := Some ''http://a''\<rparr>) = (Ok (), s1)"
    using sample_client_session by blast
  let ?w = "world ((client_new [''http://a''] w)\<lparr>leader_addr := Some ''http://a''\<rparr>)"
  have up: "\<forall>u p. sv_procs ?w u = Some p \<longrightarrow> running sample_carry_libs sample_tcp sample_addr_libs sample_meta_libs True p"
    and runs: "runs_on sample_carry_libs sample_tcp sample_meta_libs True ?w"
    using s(1,2) by (simp_all add: client_new_def)
  have w: "world ((client_new [''http://a''] w)\<lparr>leader_addr := Some ''http://a''\<rparr>) = w"
    by (simp add: client_new_def)
  from client_put_is_written [OF lib up runs s(3)] s(2,3) show ?thesis unfolding w by blast
qed

theorem client_reads_its_write_witness:
  "\<exists>w s1 s2 p i since before. runs_on sample_carry_libs sample_tcp sample_meta_libs True w \<and>
     client_put (servers_libs sample_meta_libs sample_pick) True ''k'' ''v''
       ((client_new [''http://a''] w)\<lparr>leader_addr := Some ''http://a''\<rparr>) = (Ok (), s1) \<and>
     client_get (servers_libs sample_meta_libs sample_pick) ''k'' s1 = (Ok ''v'', s2) \<and>
     sv_procs (world s2) (with_http ''http://a'') = Some p \<and>
     legal (since @ Wrote ''k'' ''v'' (Some i) # before) \<and>
     answers_of (since @ Wrote ''k'' ''v'' (Some i) # before) = replies (sp_loop p)"
proof -
  note lib = sample_carry_bincode sample_carry_prost sample_carry_uuid sample_carries
  obtain w s1 s2 where s:
    "\<forall>u p. sv_procs w u = Some p \<longrightarrow> running sample_carry_libs sample_tcp sample_addr_libs sample_meta_libs True p"
    "runs_on sample_carry_libs sample_tcp sample_meta_libs True w"
    "client_put (servers_libs sample_meta_libs sample_pick) True ''k'' ''v''
       ((client_new [''http://a''] w)\<lparr>leader_addr := Some ''http://a''\<rparr>) = (Ok (), s1)"
    "leader_addr s1 = Some ''http://a''"
    "client_get (servers_libs sample_meta_libs sample_pick) ''k'' s1 = (Ok ''v'', s2)"
    using sample_client_session by blast
  let ?w = "world ((client_new [''http://a''] w)\<lparr>leader_addr := Some ''http://a''\<rparr>)"
  have up: "\<forall>u p. sv_procs ?w u = Some p \<longrightarrow> running sample_carry_libs sample_tcp sample_addr_libs sample_meta_libs True p"
    and runs: "runs_on sample_carry_libs sample_tcp sample_meta_libs True ?w"
    using s(1,2) by (simp_all add: client_new_def)
  from client_reads_its_write [OF lib up runs s(3-5)] s(2,3,5) show ?thesis by blast
qed

end
