(* ===== verification/Tcp_Transport.thy ===== *)
theory Tcp_Transport
  imports Network
begin

text \<open>
  Messages over TCP, \<^verbatim>\<open>crates/raft-core/src/tcp_transport.rs\<close>: the frames
  (\<open>read_message\<close>, \<open>write_message\<close>), the thread that reads a connection and the thread
  that writes to a peer.

  A connection being read is the bytes still to come and the error that comes after them
  (for a connection closed by the peer \<open>UnexpectedEof\<close>). The network a sender writes to is
  a parameter. Waiting, logging and \<open>set_nodelay\<close>, whose failure is only logged, are not
  modelled.
\<close>

section \<open>I/O errors and readers\<close>

datatype error_kind = UnexpectedEof | InvalidData | OtherKind

record io_error =
  io_kind :: error_kind
  io_message :: string

record reader =
  rd_input :: bytes
  rd_end :: io_error

text \<open>\<open>read_exact\<close>: as many bytes as asked for, or the error with the rest lost.\<close>

definition read_exact :: "nat \<Rightarrow> (reader, bytes, io_error) op" where
  "read_exact n r =
     (if n \<le> length (rd_input r)
      then (Ok (take n (rd_input r)), r\<lparr>rd_input := drop n (rd_input r)\<rparr>)
      else (Err (rd_end r), r\<lparr>rd_input := []\<rparr>))"

text \<open>The protobuf codec of the raft crate's messages, and what the program relies on.\<close>

record msg_libs =
  encode_message :: "message \<Rightarrow> (bytes, string) result"
  decode_message :: "bytes \<Rightarrow> (message, string) result"

definition msg_ok :: "'z msg_libs_scheme \<Rightarrow> bool" where
  "msg_ok L \<longleftrightarrow> (\<forall>m. \<exists>b. encode_message L m = Ok b \<and> decode_message L b = Ok m)"

section \<open>Frames\<close>

definition max_message_size :: nat where
  "max_message_size = 10 * 1024 * 1024"

definition read_message :: "'z msg_libs_scheme \<Rightarrow> (reader, message, io_error) op" where
  "read_message L =
     bindO (read_exact 4) (\<lambda>len_bytes.
     let len = from_be len_bytes in
     if max_message_size < len
     then liftR (Err \<lparr>io_kind = InvalidData,
            io_message = ''Message too large: '' @ show_nat len @ '' bytes''\<rparr>)
     else
       bindO (read_exact len) (\<lambda>buf.
       liftR (map_err (\<lambda>e. \<lparr>io_kind = InvalidData,
                io_message = ''Failed to decode message: '' @ e\<rparr>) (decode_message L buf))))"

text \<open>A destination: \<open>write_all\<close> and \<open>flush\<close> of \<open>std::io::Write\<close>.\<close>

record 'w writer =
  write_all :: "bytes \<Rightarrow> ('w, unit, io_error) op"
  flush_writer :: "('w, unit, io_error) op"

definition write_message ::
    "'z msg_libs_scheme \<Rightarrow> 'w writer \<Rightarrow> message \<Rightarrow> ('w, unit, io_error) op" where
  "write_message L W msg =
     bindO (liftR (map_err (\<lambda>e. \<lparr>io_kind = InvalidData,
              io_message = ''Failed to encode message: '' @ e\<rparr>) (encode_message L msg))) (\<lambda>buf.
     let len = of_nat (length buf) :: u32 in
     bindO (write_all W (to_be 4 (unat len))) (\<lambda>_.
     bindO (write_all W buf) (\<lambda>_.
     flush_writer W)))"

text \<open>\<open>Write for Vec<u8>\<close>: appends, and never fails.\<close>

definition vec_writer :: "bytes writer" where
  "vec_writer = \<lparr>write_all = (\<lambda>b w. (Ok (), w @ b)), flush_writer = (\<lambda>w. (Ok (), w))\<rparr>"

section \<open>Reading a connection\<close>

lemma read_exact_Ok:
  "read_exact n r = (Ok b, r') \<Longrightarrow> length (rd_input r') = length (rd_input r) - n \<and> n \<le> length (rd_input r)"
  by (auto simp: read_exact_def split: if_splits)

lemma read_message_shrinks:
  "read_message L r = (Ok m, r') \<Longrightarrow> length (rd_input r') < length (rd_input r)"
  by (auto simp: read_message_def op_results Let_def dest!: read_exact_Ok split: if_splits)

text \<open>
  The loop of \<open>handle_connection\<close>. It returns with the channel to the ready loop; every
  message read makes the input shorter.
\<close>

function handle_connection ::
    "'z msg_libs_scheme \<Rightarrow> ('c, 'y) chan_libs_scheme \<Rightarrow> u64 \<Rightarrow> reader \<Rightarrow> ('c, unit, io_error) op" where
  "handle_connection L C node_id r msg_tx =
     (case read_message L r of
        (Ok msg, r') \<Rightarrow>
          if m_to msg \<noteq> node_id then handle_connection L C node_id r' msg_tx
          else
            (case chan_send C msg msg_tx of
               (Ok u, msg_tx') \<Rightarrow> handle_connection L C node_id r' msg_tx'
             | (Err m, msg_tx') \<Rightarrow>
                 (Err \<lparr>io_kind = OtherKind, io_message = ''msg_tx channel closed''\<rparr>, msg_tx')
             | (Panic, msg_tx') \<Rightarrow> (Panic, msg_tx'))
      | (Err e, r') \<Rightarrow> if io_kind e = UnexpectedEof then (Ok (), msg_tx) else (Err e, msg_tx)
      | (Panic, r') \<Rightarrow> (Panic, msg_tx))"
  by pat_completeness auto

termination
  by (relation "measure (\<lambda>(L, C, node_id, r, msg_tx). length (rd_input r))")
    (auto dest!: read_message_shrinks [OF sym])

declare handle_connection.simps [simp del]

section \<open>Writing to a peer\<close>

text \<open>
  The network: connecting gives a stream, writing to a stream may fail. \<open>'n\<close> is its state.
\<close>

record ('n, 'h) net_libs =
  net_connect :: "('n, 'h, io_error) op"
  net_writer :: "'h \<Rightarrow> 'n writer"

definition max_retries :: nat where
  "max_retries = 3"

text \<open>
  The inner loop, with the attempts left: whether the message was sent, and the stream
  kept for the next one. After a failed write the stream is dropped.
\<close>

fun send_attempts ::
    "'z msg_libs_scheme \<Rightarrow> ('n, 'h) net_libs \<Rightarrow> message \<Rightarrow> nat \<Rightarrow> 'h option \<Rightarrow>
     ('n, bool \<times> 'h option, io_error) op" where
  "send_attempts L N msg 0 stream n = (Ok (False, stream), n)"
| "send_attempts L N msg (Suc k) None n =
     (case net_connect N n of
        (Ok h, n') \<Rightarrow>
          (case write_message L (net_writer N h) msg n' of
             (Ok u, n'') \<Rightarrow> (Ok (True, Some h), n'')
           | (Err e, n'') \<Rightarrow> send_attempts L N msg k None n''
           | (Panic, n'') \<Rightarrow> (Panic, n''))
      | (Err e, n') \<Rightarrow> send_attempts L N msg k None n'
      | (Panic, n') \<Rightarrow> (Panic, n'))"
| "send_attempts L N msg (Suc k) (Some h) n =
     (case write_message L (net_writer N h) msg n of
        (Ok u, n') \<Rightarrow> (Ok (True, Some h), n')
      | (Err e, n') \<Rightarrow> send_attempts L N msg k None n'
      | (Panic, n') \<Rightarrow> (Panic, n'))"

text \<open>
  The outer loop over the messages taken from the channel until it is closed; it returns
  the messages dropped after the last attempt, which the code logs.
\<close>

fun peer_sender_loop ::
    "'z msg_libs_scheme \<Rightarrow> ('n, 'h) net_libs \<Rightarrow> message list \<Rightarrow> 'h option \<Rightarrow>
     ('n, message list, io_error) op" where
  "peer_sender_loop L N [] stream = retO []"
| "peer_sender_loop L N (msg # rx) stream =
     bindO (send_attempts L N msg max_retries stream) (\<lambda>(sent, stream').
     bindO (peer_sender_loop L N rx stream') (\<lambda>dropped.
     retO (if sent then dropped else msg # dropped)))"

definition peer_sender_thread ::
    "'z msg_libs_scheme \<Rightarrow> ('n, 'h) net_libs \<Rightarrow> message list \<Rightarrow> ('n, message list, io_error) op" where
  "peer_sender_thread L N rx = peer_sender_loop L N rx None"

section \<open>Frames, as bytes\<close>

definition frame :: "bytes \<Rightarrow> bytes" where
  "frame b = to_be 4 (length b mod 2 ^ 32) @ b"

definition encoding :: "'z msg_libs_scheme \<Rightarrow> message \<Rightarrow> bytes" where
  "encoding L m = (case encode_message L m of Ok b \<Rightarrow> b | _ \<Rightarrow> [])"

definition frames :: "'z msg_libs_scheme \<Rightarrow> message list \<Rightarrow> bytes" where
  "frames L ms = concat (map (\<lambda>m. frame (encoding L m)) ms)"

definition sendable :: "'z msg_libs_scheme \<Rightarrow> message \<Rightarrow> bool" where
  "sendable L m \<longleftrightarrow> length (encoding L m) \<le> max_message_size"

lemma frames_simps [simp]:
  "frames L [] = []"
  "frames L (m # ms) = frame (encoding L m) @ frames L ms"
  by (simp_all add: frames_def)

lemma encoding_ok:
  assumes "msg_ok L"
  shows "encode_message L m = Ok (encoding L m)" and "decode_message L (encoding L m) = Ok m"
proof -
  obtain b where "encode_message L m = Ok b" "decode_message L b = Ok m"
    using assms unfolding msg_ok_def by blast
  then show "encode_message L m = Ok (encoding L m)" and "decode_message L (encoding L m) = Ok m"
    by (simp_all add: encoding_def)
qed

text \<open>A writer whose every write succeeds; \<open>S\<close> is what it was given.\<close>

definition sink :: "'w writer \<Rightarrow> ('w \<Rightarrow> bytes) \<Rightarrow> ('w \<Rightarrow> 'i) \<Rightarrow> bool" where
  "sink W S I \<longleftrightarrow>
     (\<forall>b w. \<exists>w'. write_all W b w = (Ok (), w') \<and> S w' = S w @ b \<and> I w' = I w) \<and>
     (\<forall>w. \<exists>w'. flush_writer W w = (Ok (), w') \<and> S w' = S w \<and> I w' = I w)"

lemma write_message_sink:
  assumes L: "msg_ok L" and W: "sink W S I"
  shows "\<exists>w'. write_message L W m w = (Ok (), w') \<and> S w' = S w @ frame (encoding L m) \<and> I w' = I w"
proof -
  let ?b = "encoding L m"
  let ?h = "to_be 4 (unat (of_nat (length ?b) :: u32))"
  obtain w1 where w1: "write_all W ?h w = (Ok (), w1)" "S w1 = S w @ ?h" "I w1 = I w"
    using W unfolding sink_def by blast
  obtain w2 where w2: "write_all W ?b w1 = (Ok (), w2)" "S w2 = S w1 @ ?b" "I w2 = I w1"
    using W unfolding sink_def by blast
  obtain w3 where w3: "flush_writer W w2 = (Ok (), w3)" "S w3 = S w2" "I w3 = I w2"
    using W unfolding sink_def by blast
  have "?h = to_be 4 (length ?b mod 2 ^ 32)"
    by (simp add: unat_of_nat)
  with w1 w2 w3 show ?thesis
    by (simp add: write_message_def encoding_ok(1) [OF L] Let_def frame_def del: to_be.simps)
qed

lemma sink_vec_writer: "sink vec_writer (\<lambda>w. w) (\<lambda>w. ())"
  by (simp add: sink_def vec_writer_def)

section \<open>Reading frames\<close>

lemma length_frame: "length (frame b) = 4 + length b"
  by (simp add: frame_def del: to_be.simps)

lemma from_be_length:
  "length b \<le> max_message_size \<Longrightarrow> from_be (to_be 4 (length b mod 4294967296)) = length b"
  by (simp add: from_be_to_be_mod max_message_size_def del: to_be.simps)

lemma read_message_frame:
  assumes L: "msg_ok L" and m: "sendable L m"
  shows "read_message L \<lparr>rd_input = frame (encoding L m) @ rest, rd_end = e\<rparr> =
    (Ok m, \<lparr>rd_input = rest, rd_end = e\<rparr>)"
proof -
  let ?b = "encoding L m"
  have "from_be (to_be 4 (length ?b mod 2 ^ 32)) = length ?b"
    using m from_be_length [of ?b] by (simp add: sendable_def del: to_be.simps)
  moreover have "\<not> max_message_size < length ?b" using m by (simp add: sendable_def)
  ultimately show ?thesis
    by (simp add: read_message_def read_exact_def frame_def Let_def encoding_ok(2) [OF L]
        del: to_be.simps)
qed

text \<open>A frame cut short reads as the end of the input.\<close>

lemma read_message_cut:
  assumes m: "sendable L m" and p: "strict_prefix p (frame (encoding L m))"
  shows "\<exists>r'. read_message L \<lparr>rd_input = p, rd_end = e\<rparr> = (Err e, r')"
proof (cases "length p < 4")
  case True
  then show ?thesis by (simp add: read_message_def read_exact_def)
next
  case False
  let ?b = "encoding L m" and ?h = "to_be 4 (length (encoding L m) mod 2 ^ 32)"
  obtain q where q: "p @ q = ?h @ ?b" "q \<noteq> []"
    using p by (auto simp: strict_prefix_def prefix_def frame_def simp del: to_be.simps)
  then have "take 4 (p @ q) = ?h" and len: "length p + length q = 4 + length ?b"
    by (simp_all add: arg_cong [OF q(1), of length, simplified] del: to_be.simps)
  with False have t: "take 4 p = ?h" by simp
  have "length (drop 4 p) < length ?b" using q(2) len False by (cases q) auto
  moreover have "from_be (take 4 p) = length ?b"
    using m from_be_length [of ?b] by (simp add: t sendable_def del: to_be.simps)
  ultimately have "read_exact (from_be (take 4 p)) \<lparr>rd_input = drop 4 p, rd_end = e\<rparr> =
      (Err e, \<lparr>rd_input = [], rd_end = e\<rparr>)" and "\<not> max_message_size < from_be (take 4 p)"
    using m by (auto simp: read_exact_def sendable_def)
  moreover have "read_exact 4 \<lparr>rd_input = p, rd_end = e\<rparr> =
      (Ok (take 4 p), \<lparr>rd_input = drop 4 p, rd_end = e\<rparr>)"
    using False by (simp add: read_exact_def)
  ultimately show ?thesis
    by (simp add: read_message_def Let_def)
qed

text \<open>The receiver of the channel is there: sending succeeds.\<close>

definition chan_open :: "('c, 'y) chan_libs_scheme \<Rightarrow> bool" where
  "chan_open C \<longleftrightarrow> (\<forall>m c. is_ok (fst (chan_send C m c)))"

lemma chan_open_send:
  assumes "chan_ok C Q" and "chan_open C"
  obtains c' where "chan_send C m c = (Ok (), c')" and "Q c' = Q c @ [m]"
proof -
  obtain r c' where r: "chan_send C m c = (r, c')" by (cases "chan_send C m c")
  then have "is_ok r" using assms(2) by (metis chan_open_def fst_conv)
  with r assms(1) show ?thesis using that unfolding chan_ok_def by (metis is_ok.simps(2))
qed

lemma handle_connection_prefix:
  assumes L: "msg_ok L" and C: "chan_ok C Q" "chan_open C" and e: "io_kind e = UnexpectedEof"
  shows "\<forall>m \<in> set ms. sendable L m \<Longrightarrow> prefix p (frames L ms) \<Longrightarrow>
    \<exists>c' k. handle_connection L C i \<lparr>rd_input = p, rd_end = e\<rparr> c = (Ok (), c') \<and>
      Q c' = Q c @ filter (\<lambda>m. m_to m = i) (take k ms) \<and> (p = frames L ms \<longrightarrow> k = length ms)"
proof (induction ms arbitrary: p c)
  case Nil
  then show ?case
    by (simp add: handle_connection.simps read_message_def read_exact_def e)
next
  case (Cons m ms)
  have m: "sendable L m" using Cons.prems by simp
  show ?case
  proof (cases "strict_prefix p (frame (encoding L m))")
    case True
    then have "p \<noteq> frames L (m # ms)"
      by (auto simp: strict_prefix_def prefix_def)
    moreover obtain r' where "read_message L \<lparr>rd_input = p, rd_end = e\<rparr> = (Err e, r')"
      using read_message_cut [OF m True] by blast
    ultimately show ?thesis
      by (intro exI [of _ c] exI [of _ 0]) (simp add: handle_connection.simps e)
  next
    case False
    with Cons.prems(2) obtain q where q: "p = frame (encoding L m) @ q" "prefix q (frames L ms)"
      by (auto simp: prefix_append strict_prefix_def)
    obtain c1 where c1: "chan_send C m c = (Ok (), c1)" "Q c1 = Q c @ [m]"
      using chan_open_send [OF C] by blast
    let ?c = "if m_to m = i then c1 else c"
    have step: "handle_connection L C i \<lparr>rd_input = p, rd_end = e\<rparr> c =
        handle_connection L C i \<lparr>rd_input = q, rd_end = e\<rparr> ?c"
      by (subst handle_connection.simps) (simp add: q(1) read_message_frame [OF L m] c1(1))
    from Cons.IH [OF _ q(2), of ?c] Cons.prems(1) obtain c' k where
      "handle_connection L C i \<lparr>rd_input = q, rd_end = e\<rparr> ?c = (Ok (), c')"
      "Q c' = Q ?c @ filter (\<lambda>m. m_to m = i) (take k ms)" "q = frames L ms \<longrightarrow> k = length ms"
      by auto
    with step q(1) c1(2) show ?thesis
      by (intro exI [of _ c'] exI [of _ "Suc k"]) auto
  qed
qed

lemma handle_connection_frames:
  assumes L: "msg_ok L" and C: "chan_ok C Q" "chan_open C"
  shows "\<forall>m \<in> set ms. sendable L m \<Longrightarrow>
    \<exists>c'. handle_connection L C i \<lparr>rd_input = frames L ms @ q, rd_end = e\<rparr> c =
          handle_connection L C i \<lparr>rd_input = q, rd_end = e\<rparr> c' \<and>
        Q c' = Q c @ filter (\<lambda>m. m_to m = i) ms"
proof (induction ms arbitrary: c)
  case Nil
  then show ?case by auto
next
  case (Cons m ms)
  then have m: "sendable L m" by simp
  obtain c1 where c1: "chan_send C m c = (Ok (), c1)" "Q c1 = Q c @ [m]"
    using chan_open_send [OF C] by blast
  let ?c = "if m_to m = i then c1 else c"
  have step: "handle_connection L C i \<lparr>rd_input = frames L (m # ms) @ q, rd_end = e\<rparr> c =
      handle_connection L C i \<lparr>rd_input = frames L ms @ q, rd_end = e\<rparr> ?c"
    by (subst handle_connection.simps) (simp add: read_message_frame [OF L m] c1(1))
  from Cons.IH [of ?c] Cons.prems obtain c' where
    "handle_connection L C i \<lparr>rd_input = frames L ms @ q, rd_end = e\<rparr> ?c =
       handle_connection L C i \<lparr>rd_input = q, rd_end = e\<rparr> c'"
    "Q c' = Q ?c @ filter (\<lambda>m. m_to m = i) ms" by auto
  with step c1(2) show ?case by (intro exI [of _ c']) auto
qed

lemma read_message_oversized:
  assumes "max_message_size < length b mod 2 ^ 32"
  shows "\<exists>e' r'. read_message L \<lparr>rd_input = frame b @ rest, rd_end = e\<rparr> = (Err e', r') \<and>
    io_kind e' = InvalidData"
proof -
  let ?h = "to_be 4 (length b mod 2 ^ 32)"
  have "read_exact 4 \<lparr>rd_input = frame b @ rest, rd_end = e\<rparr> =
      (Ok ?h, \<lparr>rd_input = b @ rest, rd_end = e\<rparr>)"
    by (simp add: read_exact_def frame_def del: to_be.simps)
  moreover have "max_message_size < from_be ?h"
    using assms by (subst from_be_to_be) simp_all
  ultimately show ?thesis
    by (simp add: read_message_def Let_def)
qed

section \<open>A network with outages\<close>

text \<open>
  Connecting fails \<open>down n\<close> more times, then succeeds; writes on a connection succeed.
  \<open>S\<close> is what the peer has received.
\<close>

definition net_recovers ::
    "('n, 'h) net_libs \<Rightarrow> ('n \<Rightarrow> bytes) \<Rightarrow> ('n \<Rightarrow> nat) \<Rightarrow> bool" where
  "net_recovers N S down \<longleftrightarrow>
     (\<forall>h. sink (net_writer N h) S down) \<and>
     (\<forall>n. \<exists>r n'. net_connect N n = (r, n') \<and> S n' = S n \<and>
        (if down n = 0 then (\<exists>h. r = Ok h) \<and> down n' = 0
         else (\<exists>e. r = Err e) \<and> down n' = down n - 1))"

lemma send_attempts_up:
  assumes L: "msg_ok L" and N: "net_recovers N S down" and up: "down n < k"
  shows "\<exists>h n'. send_attempts L N m k None n = (Ok (True, Some h), n') \<and>
    S n' = S n @ frame (encoding L m) \<and> down n' = 0"
  using up
proof (induction k arbitrary: n)
  case 0
  then show ?case by simp
next
  case (Suc k)
  obtain r n1 where c: "net_connect N n = (r, n1)" "S n1 = S n"
    "if down n = 0 then (\<exists>h. r = Ok h) \<and> down n1 = 0 else (\<exists>e. r = Err e) \<and> down n1 = down n - 1"
    using N unfolding net_recovers_def by metis
  show ?case
  proof (cases "down n = 0")
    case True
    with c obtain h where h: "r = Ok h" "down n1 = 0" by auto
    from write_message_sink [OF L, of "net_writer N h" S down m n1] N
    obtain n2 where "write_message L (net_writer N h) m n1 = (Ok (), n2)"
      "S n2 = S n1 @ frame (encoding L m)" "down n2 = down n1"
      unfolding net_recovers_def by blast
    with c(1,2) h show ?thesis by simp
  next
    case False
    with c Suc.prems have "down n1 < k" and "\<exists>e. r = Err e" by auto
    with Suc.IH [of n1] c(1,2) show ?thesis by auto
  qed
qed

lemma send_attempts_down:
  assumes N: "net_recovers N S down" and dn: "k \<le> down n"
  shows "\<exists>n'. send_attempts L N m k None n = (Ok (False, None), n') \<and>
    S n' = S n \<and> down n' = down n - k"
  using dn
proof (induction k arbitrary: n)
  case 0
  then show ?case by simp
next
  case (Suc k)
  obtain r n1 where c: "net_connect N n = (r, n1)" "S n1 = S n"
    "if down n = 0 then (\<exists>h. r = Ok h) \<and> down n1 = 0 else (\<exists>e. r = Err e) \<and> down n1 = down n - 1"
    using N unfolding net_recovers_def by metis
  with Suc.prems have "k \<le> down n1" "\<exists>e. r = Err e" "down n1 = down n - 1" by auto
  with Suc.IH [of n1] c(1,2) show ?case by auto
qed

lemma send_attempts_connected:
  assumes L: "msg_ok L" and N: "net_recovers N S down"
  shows "\<exists>n'. send_attempts L N m (Suc k) (Some h) n = (Ok (True, Some h), n') \<and>
    S n' = S n @ frame (encoding L m) \<and> down n' = down n"
proof -
  have "sink (net_writer N h) S down" using N by (simp add: net_recovers_def)
  from write_message_sink [OF L this, of m n] show ?thesis by auto
qed

lemma peer_sender_connected:
  assumes L: "msg_ok L" and N: "net_recovers N S down"
  shows "\<exists>n'. peer_sender_loop L N rx (Some h) n = (Ok [], n') \<and> S n' = S n @ frames L rx"
proof (induction rx arbitrary: n)
  case Nil
  then show ?case by simp
next
  case (Cons m rx)
  obtain n1 where "send_attempts L N m max_retries (Some h) n = (Ok (True, Some h), n1)"
    "S n1 = S n @ frame (encoding L m)"
    using send_attempts_connected [OF L N, of m 2 h n] by (auto simp: max_retries_def numeral_eq_Suc)
  with Cons.IH [of n1] show ?case by auto
qed

lemma peer_sender_outage:
  assumes L: "msg_ok L" and N: "net_recovers N S down"
  shows "\<exists>n'. peer_sender_loop L N rx None n = (Ok (take (down n div 3) rx), n') \<and>
    S n' = S n @ frames L (drop (down n div 3) rx)"
proof (induction rx arbitrary: n)
  case Nil
  then show ?case by simp
next
  case (Cons m rx)
  show ?case
  proof (cases "down n < 3")
    case True
    then obtain h n1 where "send_attempts L N m max_retries None n = (Ok (True, Some h), n1)"
      "S n1 = S n @ frame (encoding L m)"
      using send_attempts_up [OF L N, of n 3 m] by (auto simp: max_retries_def)
    with True peer_sender_connected [OF L N, of rx h n1] show ?thesis by auto
  next
    case False
    then obtain n1 where n1: "send_attempts L N m max_retries None n = (Ok (False, None), n1)"
      "S n1 = S n" "down n1 = down n - 3"
      using send_attempts_down [OF N, of 3 n L m] by (auto simp: max_retries_def)
    have "down n div 3 = Suc (down n1 div 3)"
      using False n1(3) by (simp add: le_div_geq)
    with n1(1,2) Cons.IH [of n1] show ?thesis by auto
  qed
qed

section \<open>Sample libraries\<close>

definition sample_encode_message :: "message \<Rightarrow> bytes" where
  "sample_encode_message m = to_be 4 (unat (m_type m)) @ to_be 8 (unat (m_to m)) @
     to_be 8 (unat (m_from m)) @ to_be 8 (unat (m_term m)) @ m_rest m"

definition sample_msg_libs :: msg_libs where
  "sample_msg_libs = \<lparr>encode_message = (\<lambda>m. Ok (sample_encode_message m)),
     decode_message = (\<lambda>b. Ok \<lparr>m_type = of_nat (from_be (take 4 b)),
       m_to = of_nat (from_be (take 8 (drop 4 b))), m_from = of_nat (from_be (take 8 (drop 12 b))),
       m_term = of_nat (from_be (take 8 (drop 20 b))), m_rest = drop 28 b\<rparr>)\<rparr>"

lemma from_be_word:
  "from_be (to_be 4 (unat (w :: u32))) = unat w" "from_be (to_be 8 (unat (v :: u64))) = unat v"
  using unsigned_less [where ?'a = nat, of w] unsigned_less [where ?'a = nat, of v]
  by (subst from_be_to_be; simp)+

lemma sample_msg_ok: "msg_ok sample_msg_libs"
  by (simp add: msg_ok_def sample_msg_libs_def sample_encode_message_def from_be_word
      del: to_be.simps)

lemma length_sample_message:
  "length (encoding sample_msg_libs m) = 28 + length (m_rest m)"
  by (simp add: encoding_def sample_msg_libs_def sample_encode_message_def del: to_be.simps)

lemma sample_chan_open: "chan_open sample_chan"
  by (simp add: chan_open_def sample_chan_def)

text \<open>A network that is the bytes received and the connections still to be refused.\<close>

definition sample_net :: "(bytes \<times> nat, unit) net_libs" where
  "sample_net = \<lparr>
     net_connect = (\<lambda>(b, d). if d = 0 then (Ok (), (b, 0))
        else (Err \<lparr>io_kind = OtherKind, io_message = ''refused''\<rparr>, (b, d - 1))),
     net_writer = (\<lambda>h. \<lparr>write_all = (\<lambda>x (b, d). (Ok (), (b @ x, d))),
        flush_writer = (\<lambda>n. (Ok (), n))\<rparr>)\<rparr>"

lemma sample_net_recovers: "net_recovers sample_net fst snd"
  by (auto simp: net_recovers_def sink_def sample_net_def)

section \<open>Properties\<close>

text \<open>
  C19. Frames: messages written one after the other, none with an encoding over ten
  megabytes, are read back from the bytes written, and the connection handler forwards
  exactly those addressed to this node, in order, then returns without error. When the
  connection ends early, anywhere in the bytes, it forwards what a prefix of the messages
  gives and still returns without error: nothing partial reaches the ready loop.
\<close>

theorem connection_delivers:
  assumes "msg_ok L" and "chan_ok C Q" and "chan_open C" and "io_kind e = UnexpectedEof"
    and "\<forall>m \<in> set ms. sendable L m"
  shows "(\<exists>c'. handle_connection L C i \<lparr>rd_input = frames L ms, rd_end = e\<rparr> c = (Ok (), c') \<and>
            Q c' = Q c @ filter (\<lambda>m. m_to m = i) ms) \<and>
    (\<forall>p. prefix p (frames L ms) \<longrightarrow>
       (\<exists>c' k. handle_connection L C i \<lparr>rd_input = p, rd_end = e\<rparr> c = (Ok (), c') \<and>
          Q c' = Q c @ filter (\<lambda>m. m_to m = i) (take k ms))) \<and>
    (\<forall>m w. write_message L vec_writer m w = (Ok (), w @ frames L [m]))"
proof (intro conjI allI impI)
  show "\<exists>c'. handle_connection L C i \<lparr>rd_input = frames L ms, rd_end = e\<rparr> c = (Ok (), c') \<and>
      Q c' = Q c @ filter (\<lambda>m. m_to m = i) ms"
    using handle_connection_prefix [OF assms(1-5), of "frames L ms" i c] by auto
next
  fix p
  assume "prefix p (frames L ms)"
  from handle_connection_prefix [OF assms(1-5) this, of i c]
  show "\<exists>c' k. handle_connection L C i \<lparr>rd_input = p, rd_end = e\<rparr> c = (Ok (), c') \<and>
      Q c' = Q c @ filter (\<lambda>m. m_to m = i) (take k ms)" by blast
next
  fix m w
  show "write_message L vec_writer m w = (Ok (), w @ frames L [m])"
    using write_message_sink [OF assms(1) sink_vec_writer, of m w] by simp
qed

theorem connection_delivers_witness:
  "\<exists>c'. handle_connection sample_msg_libs sample_chan 2
      \<lparr>rd_input = frames sample_msg_libs [sample_message 2 7, sample_message 3 7, sample_message 2 8],
       rd_end = \<lparr>io_kind = UnexpectedEof, io_message = []\<rparr>\<rparr> [] = (Ok (), c') \<and>
    c' = [sample_message 2 7, sample_message 2 8]"
proof -
  let ?e = "\<lparr>io_kind = UnexpectedEof, io_message = []\<rparr>"
  let ?ms = "[sample_message 2 7, sample_message 3 7, sample_message 2 8]"
  have "\<forall>m \<in> set ?ms. sendable sample_msg_libs m"
    by (simp add: sendable_def length_sample_message sample_message_def max_message_size_def)
  from connection_delivers [OF sample_msg_ok sample_chan_ok sample_chan_open _ this, of ?e 2 "[]"]
  show ?thesis by (simp add: sample_message_def)
qed

text \<open>
  C39. The limit is the reader's alone: a message whose encoding is over ten megabytes (and
  fits the four length bytes) is written without error, and then ends the connection that
  reads it: the messages before it arrive, it and everything sent behind it do not, and
  the sender is not told.
\<close>

theorem oversized_message_ends_connection:
  assumes "msg_ok L" and "chan_ok C Q" and "chan_open C"
    and "\<forall>m \<in> set ms. sendable L m"
    and "max_message_size < length (encoding L big)" and "length (encoding L big) < 2 ^ 32"
  shows "write_message L vec_writer big w = (Ok (), w @ frames L [big]) \<and>
    (\<exists>c' e'. handle_connection L C i
        \<lparr>rd_input = frames L ms @ frames L [big] @ frames L later, rd_end = e\<rparr> c = (Err e', c') \<and>
      io_kind e' = InvalidData \<and> Q c' = Q c @ filter (\<lambda>m. m_to m = i) ms)"
proof -
  have "max_message_size < length (encoding L big) mod 2 ^ 32"
    using assms(5,6) by simp
  from read_message_oversized [OF this, of L "frames L later" e] obtain e' r' where
    r: "read_message L \<lparr>rd_input = frames L [big] @ frames L later, rd_end = e\<rparr> = (Err e', r')"
    "io_kind e' = InvalidData" by auto
  obtain c' where c': "handle_connection L C i
        \<lparr>rd_input = frames L ms @ frames L [big] @ frames L later, rd_end = e\<rparr> c =
      handle_connection L C i \<lparr>rd_input = frames L [big] @ frames L later, rd_end = e\<rparr> c'"
    "Q c' = Q c @ filter (\<lambda>m. m_to m = i) ms"
    using handle_connection_frames [OF assms(1-4)] by blast
  moreover have "handle_connection L C i
      \<lparr>rd_input = frames L [big] @ frames L later, rd_end = e\<rparr> c' = (Err e', c')"
    by (subst handle_connection.simps) (simp only: r prod.case result.case, simp add: r(2))
  moreover have "write_message L vec_writer big w = (Ok (), w @ frames L [big])"
    using write_message_sink [OF assms(1) sink_vec_writer, of big w] by simp
  ultimately show ?thesis using r(2) by auto
qed

theorem oversized_message_ends_connection_witness:
  "\<exists>big c' e'. write_message sample_msg_libs vec_writer big [] =
      (Ok (), frames sample_msg_libs [big]) \<and>
    handle_connection sample_msg_libs sample_chan 2
      \<lparr>rd_input = frames sample_msg_libs [sample_message 2 7] @ frames sample_msg_libs [big] @
         frames sample_msg_libs [sample_message 2 8],
       rd_end = \<lparr>io_kind = UnexpectedEof, io_message = []\<rparr>\<rparr> [] = (Err e', c') \<and>
    c' = [sample_message 2 7]"
proof -
  let ?big = "(sample_message 2 7)\<lparr>m_rest := replicate (max_message_size) 0\<rparr>"
  have "\<forall>m \<in> set [sample_message 2 7]. sendable sample_msg_libs m"
    by (simp add: sendable_def length_sample_message sample_message_def max_message_size_def)
  moreover have "length (encoding sample_msg_libs ?big) = 28 + 10 * 1024 * 1024"
    by (simp add: length_sample_message max_message_size_def)
  ultimately have "write_message sample_msg_libs vec_writer ?big [] =
      (Ok (), [] @ frames sample_msg_libs [?big]) \<and>
    (\<exists>c' e'. handle_connection sample_msg_libs sample_chan 2
      \<lparr>rd_input = frames sample_msg_libs [sample_message 2 7] @ frames sample_msg_libs [?big] @
         frames sample_msg_libs [sample_message 2 8],
       rd_end = \<lparr>io_kind = UnexpectedEof, io_message = []\<rparr>\<rparr> [] = (Err e', c') \<and>
      io_kind e' = InvalidData \<and> c' = [] @ filter (\<lambda>m. m_to m = 2) [sample_message 2 7])"
    by (intro oversized_message_ends_connection [OF sample_msg_ok sample_chan_ok sample_chan_open])
      (simp_all add: max_message_size_def)
  then show ?thesis
    by (intro exI [of _ ?big]) (auto simp: sample_message_def)
qed

text \<open>
  C36. The sender thread against an outage of the peer, counted in refused connections:
  three refusals cost one message, in order, and from the first connection on every
  message is written, once and in order; an outage of two refusals loses nothing. What
  was written is what the peer's connection handler then forwards.
\<close>

theorem sender_thread_outage:
  assumes "msg_ok L" and "net_recovers N S down" and "S n = []"
    and "chan_ok C Q" and "chan_open C" and "io_kind e = UnexpectedEof"
    and "\<forall>m \<in> set rx. sendable L m"
  shows "\<exists>n' c'. peer_sender_thread L N rx n = (Ok (take (down n div 3) rx), n') \<and>
    handle_connection L C i \<lparr>rd_input = S n', rd_end = e\<rparr> c = (Ok (), c') \<and>
    Q c' = Q c @ filter (\<lambda>m. m_to m = i) (drop (down n div 3) rx)"
proof -
  let ?ms = "drop (down n div 3) rx"
  obtain n' where n': "peer_sender_thread L N rx n = (Ok (take (down n div 3) rx), n')"
    "S n' = frames L ?ms"
    using peer_sender_outage [OF assms(1,2), of rx n] assms(3) by (auto simp: peer_sender_thread_def)
  have "\<forall>m \<in> set ?ms. sendable L m" using assms(7) by (meson in_set_dropD)
  from handle_connection_prefix [OF assms(1,4,5,6) this, of "frames L ?ms" i c] n'
  show ?thesis by auto
qed

theorem sender_thread_outage_witness:
  "\<exists>n' c'. peer_sender_thread sample_msg_libs sample_net
        [sample_message 2 7, sample_message 2 8, sample_message 2 9] ([], 4) =
      (Ok [sample_message 2 7], n') \<and>
    handle_connection sample_msg_libs sample_chan 2
      \<lparr>rd_input = fst n', rd_end = \<lparr>io_kind = UnexpectedEof, io_message = []\<rparr>\<rparr> [] = (Ok (), c') \<and>
    c' = [sample_message 2 8, sample_message 2 9]"
proof -
  let ?ms = "[sample_message 2 7, sample_message 2 8, sample_message 2 9]"
  have "\<forall>m \<in> set ?ms. sendable sample_msg_libs m"
    by (simp add: sendable_def length_sample_message sample_message_def max_message_size_def)
  from sender_thread_outage [OF sample_msg_ok sample_net_recovers _ sample_chan_ok sample_chan_open
      _ this, where n = "([], 4)" and i = 2 and c = "[]" and
      e = "\<lparr>io_kind = UnexpectedEof, io_message = []\<rparr>"]
  show ?thesis by (simp add: sample_message_def)
qed

end
