(* ===== verification/Tcp_Listener.thy ===== *)
theory Tcp_Listener
  imports Tcp_Transport
begin

text \<open>
  The accepting side of \<^verbatim>\<open>crates/raft-core/src/tcp_transport.rs\<close>: the listener thread and the
  threads it starts, one for each connection, that all forward to the one channel of the
  ready loop. Their turns interleave as the scheduler has it: the order is the list of
  events the listener is run on.
\<close>

section \<open>One iteration of a connection's loop\<close>

datatype connection = Reading reader | Ended "(unit, io_error) result"

fun connection_turn ::
    "'z msg_libs_scheme \<Rightarrow> ('c, 'y) chan_libs_scheme \<Rightarrow> u64 \<Rightarrow> connection \<Rightarrow> 'c \<Rightarrow> connection \<times> 'c" where
  "connection_turn L C node_id (Ended r) msg_tx = (Ended r, msg_tx)"
| "connection_turn L C node_id (Reading r) msg_tx =
     (case read_message L r of
        (Ok msg, r') \<Rightarrow>
          if m_to msg \<noteq> node_id then (Reading r', msg_tx)
          else
            (case chan_send C msg msg_tx of
               (Ok u, msg_tx') \<Rightarrow> (Reading r', msg_tx')
             | (Err m, msg_tx') \<Rightarrow>
                 (Ended (Err \<lparr>io_kind = OtherKind, io_message = ''msg_tx channel closed''\<rparr>), msg_tx')
             | (Panic, msg_tx') \<Rightarrow> (Ended Panic, msg_tx'))
      | (Err e, r') \<Rightarrow> (Ended (if io_kind e = UnexpectedEof then Ok () else Err e), msg_tx)
      | (Panic, r') \<Rightarrow> (Ended Panic, msg_tx))"

text \<open>The handler is this iteration, repeated until it ends.\<close>

lemma handle_connection_turns:
  "handle_connection L C node_id r msg_tx =
     (case connection_turn L C node_id (Reading r) msg_tx of
        (Reading r', msg_tx') \<Rightarrow> handle_connection L C node_id r' msg_tx'
      | (Ended q, msg_tx') \<Rightarrow> (q, msg_tx'))"
  by (subst handle_connection.simps) (auto split: prod.split result.split)

section \<open>The listener\<close>

record 'c listener =
  ls_connections :: "connection list"
  ls_msg_tx :: 'c

text \<open>What happens: a connection is accepted or fails to be, or the thread of one has a turn.\<close>

datatype listener_event = Incoming "(reader, io_error) result" | ConnectionTurn nat

fun listener_step ::
    "'z msg_libs_scheme \<Rightarrow> ('c, 'y) chan_libs_scheme \<Rightarrow> u64 \<Rightarrow> listener_event \<Rightarrow>
     'c listener \<Rightarrow> 'c listener" where
  "listener_step L C node_id (Incoming (Ok stream)) s =
     s\<lparr>ls_connections := ls_connections s @ [Reading stream]\<rparr>"
| "listener_step L C node_id (Incoming stream) s = s"
| "listener_step L C node_id (ConnectionTurn i) s =
     (if i < length (ls_connections s) then
        (case connection_turn L C node_id (ls_connections s ! i) (ls_msg_tx s) of
           (c, msg_tx) \<Rightarrow> s\<lparr>ls_connections := (ls_connections s)[i := c], ls_msg_tx := msg_tx\<rparr>)
      else s)"

text \<open>
  \<open>listener_thread\<close>, on what binding and \<open>set_nonblocking\<close> gave and on the events up to now:
  it goes on accepting for ever, and returns only when one of the two failed.
\<close>

definition listener_thread ::
    "'z msg_libs_scheme \<Rightarrow> ('c, 'y) chan_libs_scheme \<Rightarrow> u64 \<Rightarrow> (unit, io_error) result \<Rightarrow>
     (unit, io_error) result \<Rightarrow> listener_event list \<Rightarrow> 'c \<Rightarrow> ('c listener, io_error) result" where
  "listener_thread L C node_id bound blocking events msg_tx =
     bindR bound (\<lambda>_.
     bindR blocking (\<lambda>_.
     Ok (fold (listener_step L C node_id) events \<lparr>ls_connections = [], ls_msg_tx = msg_tx\<rparr>)))"

section \<open>What a connection forwards\<close>

text \<open>The messages for this node that can be read from a connection, up to its first error.\<close>

function forwarded :: "'z msg_libs_scheme \<Rightarrow> u64 \<Rightarrow> reader \<Rightarrow> message list" where
  "forwarded L node_id r =
     (case read_message L r of
        (Ok msg, r') \<Rightarrow> (if m_to msg = node_id then [msg] else []) @ forwarded L node_id r'
      | _ \<Rightarrow> [])"
  by pat_completeness auto

termination
  by (relation "measure (\<lambda>(L, node_id, r). length (rd_input r))")
    (auto dest!: read_message_shrinks [OF sym])

declare forwarded.simps [simp del]

fun still_to_forward :: "'z msg_libs_scheme \<Rightarrow> u64 \<Rightarrow> connection \<Rightarrow> message list" where
  "still_to_forward L node_id (Reading r) = forwarded L node_id r"
| "still_to_forward L node_id (Ended q) = []"

fun accepted_streams :: "listener_event list \<Rightarrow> reader list" where
  "accepted_streams [] = []"
| "accepted_streams (Incoming (Ok stream) # es) = stream # accepted_streams es"
| "accepted_streams (_ # es) = accepted_streams es"

lemma accepted_append [simp]:
  "accepted_streams (es @ fs) = accepted_streams es @ accepted_streams fs"
  by (induction es rule: accepted_streams.induct) simp_all

lemma connection_turn_forwards:
  assumes "chan_ok C Q" and "chan_open C" and "connection_turn L C i c tx = (c', tx')"
  obtains ms where "Q tx' = Q tx @ ms" and "ms @ still_to_forward L i c' = still_to_forward L i c"
proof (cases c)
  case (Ended q)
  with assms(3) that [of "[]"] show ?thesis by simp
next
  case (Reading r)
  obtain q r' where q: "read_message L r = (q, r')" by fastforce
  show ?thesis
  proof (cases q)
    case (Ok msg)
    obtain tx1 where tx1: "chan_send C msg tx = (Ok (), tx1)" "Q tx1 = Q tx @ [msg]"
      using chan_open_send [OF assms(1,2)] by blast
    have "forwarded L i r = (if m_to msg = i then [msg] else []) @ forwarded L i r'"
      by (subst forwarded.simps) (simp add: q Ok)
    with that assms(3) tx1 q Ok Reading show ?thesis by (auto split: if_splits)
  next
    case (Err e)
    have "forwarded L i r = []" by (subst forwarded.simps) (simp add: q Err)
    with that [of "[]"] assms(3) q Err Reading show ?thesis by auto
  next
    case Panic
    have "forwarded L i r = []" by (subst forwarded.simps) (simp add: q Panic)
    with that [of "[]"] assms(3) q Panic Reading show ?thesis by auto
  qed
qed

text \<open>Alone, a connection forwards exactly these.\<close>

lemma handle_connection_forwards:
  assumes "chan_ok C Q" and "chan_open C"
  shows "Q (snd (handle_connection L C i r tx)) = Q tx @ forwarded L i r"
proof (induction "length (rd_input r)" arbitrary: r tx rule: less_induct)
  case less
  obtain c tx' where c: "connection_turn L C i (Reading r) tx = (c, tx')" by fastforce
  obtain ms where ms: "Q tx' = Q tx @ ms" "ms @ still_to_forward L i c = forwarded L i r"
    using connection_turn_forwards [OF assms c] by auto
  show ?case
  proof (cases c)
    case (Ended q)
    with c ms show ?thesis by (subst handle_connection_turns) simp
  next
    case (Reading r')
    obtain q r1 where "read_message L r = (q, r1)" by fastforce
    then have "length (rd_input r') < length (rd_input r)"
      using c Reading by (cases q) (auto split: if_splits prod.splits result.splits dest: read_message_shrinks)
    from less [OF this] have "Q (snd (handle_connection L C i r' tx')) = Q tx' @ forwarded L i r'" by simp
    with c ms Reading show ?thesis by (subst handle_connection_turns) simp
  qed
qed

section \<open>Properties\<close>

text \<open>The messages of a tagged list that come from connection \<open>j\<close>.\<close>

definition from_connection :: "nat \<Rightarrow> (nat \<times> message) list \<Rightarrow> message list" where
  "from_connection j ts = map snd (filter (\<lambda>t. fst t = j) ts)"

lemma from_connection_append [simp]:
  "from_connection j (ts @ us) = from_connection j ts @ from_connection j us"
  by (simp add: from_connection_def)

lemma from_connection_tagged [simp]:
  "from_connection j (map (Pair i) ms) = (if i = j then ms else [])"
  by (induction ms) (auto simp: from_connection_def)

definition isolated ::
    "'z msg_libs_scheme \<Rightarrow> u64 \<Rightarrow> reader list \<Rightarrow> (nat \<times> message) list \<Rightarrow> connection list \<Rightarrow> bool" where
  "isolated L node_id streams ts cs \<longleftrightarrow>
     length cs = length streams \<and> (\<forall>t \<in> set ts. fst t < length cs) \<and>
     (\<forall>j < length cs. from_connection j ts @ still_to_forward L node_id (cs ! j) =
        forwarded L node_id (streams ! j))"

lemma listener_step_isolated:
  assumes "chan_ok C Q" and "chan_open C" and s: "isolated L i streams ts (ls_connections s)"
  shows "\<exists>us. Q (ls_msg_tx (listener_step L C i ev s)) = Q (ls_msg_tx s) @ map snd us \<and>
    isolated L i (streams @ accepted_streams [ev]) (ts @ us) (ls_connections (listener_step L C i ev s))"
proof (cases ev)
  case (Incoming x)
  show ?thesis
  proof (cases x)
    case (Ok r)
    have new: "from_connection (length streams) ts = []"
      using s by (auto simp: isolated_def from_connection_def filter_empty_conv)
    show ?thesis
      using s new Ok Incoming
      by (intro exI [of _ "[]"]) (auto simp: isolated_def nth_append less_Suc_eq)
  qed (use s Incoming in \<open>simp_all add: exI [of _ "[]"]\<close>)
next
  case (ConnectionTurn j)
  show ?thesis
  proof (cases "j < length (ls_connections s)")
    case False
    with s ConnectionTurn show ?thesis by (simp add: exI [of _ "[]"])
  next
    case True
    obtain c tx where c: "connection_turn L C i (ls_connections s ! j) (ls_msg_tx s) = (c, tx)" by fastforce
    obtain ms where ms: "Q tx = Q (ls_msg_tx s) @ ms"
      "ms @ still_to_forward L i c = still_to_forward L i (ls_connections s ! j)"
      by (rule connection_turn_forwards [OF assms(1,2) c])
    have "isolated L i streams (ts @ map (Pair j) ms) ((ls_connections s)[j := c])"
      using s True ms(2) [symmetric] by (auto simp: isolated_def nth_list_update)
    then show ?thesis
      using ConnectionTurn True c ms(1)
      by (intro exI [of _ "map (Pair j) ms"]) (simp add: comp_def)
  qed
qed

lemma listener_run_isolated:
  assumes "chan_ok C Q" and "chan_open C"
  shows "isolated L i streams ts (ls_connections s) \<Longrightarrow>
    \<exists>us. Q (ls_msg_tx (fold (listener_step L C i) evs s)) = Q (ls_msg_tx s) @ map snd us \<and>
      isolated L i (streams @ accepted_streams evs) (ts @ us)
        (ls_connections (fold (listener_step L C i) evs s))"
proof (induction evs arbitrary: streams ts s)
  case Nil
  then show ?case by (intro exI [of _ "[]"]) simp
next
  case (Cons ev evs)
  obtain us where us: "Q (ls_msg_tx (listener_step L C i ev s)) = Q (ls_msg_tx s) @ map snd us"
    "isolated L i (streams @ accepted_streams [ev]) (ts @ us) (ls_connections (listener_step L C i ev s))"
    using listener_step_isolated [OF assms Cons.prems] by blast
  from Cons.IH [OF us(2)] obtain vs where
    "Q (ls_msg_tx (fold (listener_step L C i) evs (listener_step L C i ev s))) =
       Q (ls_msg_tx (listener_step L C i ev s)) @ map snd vs"
    "isolated L i ((streams @ accepted_streams [ev]) @ accepted_streams evs) ((ts @ us) @ vs)
       (ls_connections (fold (listener_step L C i) evs (listener_step L C i ev s)))" by blast
  moreover have "accepted_streams [ev] @ accepted_streams evs = accepted_streams (ev # evs)"
    by (simp add: accepted_append [symmetric] del: accepted_append)
  ultimately show ?case
    using us(1) by (intro exI [of _ "us @ vs"]) (simp only: fold_simps append_assoc map_append)
qed

text \<open>
  C16: connections do not disturb each other. However the turns of the connections, new ones
  and failures to accept interleave, what the ready loop is given can be told apart by
  connection such that each has given, in order, a beginning of what it would give alone,
  and everything of it once it has ended, whatever bytes the others bring and however
  they end. A listener that cannot bind gives nothing, and its error is all there is.
\<close>

theorem connections_isolated:
  assumes "chan_ok C Q" and "chan_open C"
  shows "(\<exists>s ts. listener_thread L C node_id (Ok ()) (Ok ()) evs tx = Ok s \<and>
      Q (ls_msg_tx s) = Q tx @ map snd ts \<and>
      length (ls_connections s) = length (accepted_streams evs) \<and>
      (\<forall>t \<in> set ts. fst t < length (ls_connections s)) \<and>
      (\<forall>j < length (ls_connections s). \<forall>tx1.
         Q tx1 @ from_connection j ts @ still_to_forward L node_id (ls_connections s ! j) =
           Q (snd (handle_connection L C node_id (accepted_streams evs ! j) tx1)))) \<and>
    listener_thread L C node_id (Err e) blocking evs tx = Err e"
proof -
  let ?s = "\<lparr>ls_connections = [], ls_msg_tx = tx\<rparr>"
  have "isolated L node_id [] [] (ls_connections ?s)" by (simp add: isolated_def)
  from listener_run_isolated [OF assms this, of evs] obtain ts where
    ts: "Q (ls_msg_tx (fold (listener_step L C node_id) evs ?s)) = Q tx @ map snd ts"
    "isolated L node_id (accepted_streams evs) ts (ls_connections (fold (listener_step L C node_id) evs ?s))"
    by auto
  then show ?thesis
    by (intro conjI exI [of _ "fold (listener_step L C node_id) evs ?s"] exI [of _ ts])
      (auto simp: listener_thread_def isolated_def handle_connection_forwards [OF assms])
qed

theorem connections_isolated_witness:
  "\<exists>s. listener_thread sample_msg_libs sample_chan 2 (Ok ()) (Ok ())
      [Incoming (Ok \<lparr>rd_input = [1, 2], rd_end = \<lparr>io_kind = OtherKind, io_message = ''reset''\<rparr>\<rparr>),
       Incoming (Err \<lparr>io_kind = OtherKind, io_message = ''too many files''\<rparr>),
       Incoming (Ok \<lparr>rd_input = frames sample_msg_libs [sample_message 2 7],
         rd_end = \<lparr>io_kind = UnexpectedEof, io_message = ''''\<rparr>\<rparr>),
       ConnectionTurn 0, ConnectionTurn 1] [] = Ok s \<and>
     length (ls_connections s) = 2 \<and> ls_msg_tx s = [sample_message 2 7]"
proof -
  let ?bad = "\<lparr>rd_input = [1, 2], rd_end = \<lparr>io_kind = OtherKind, io_message = ''reset''\<rparr>\<rparr>"
  let ?eof = "\<lparr>io_kind = UnexpectedEof, io_message = ''''\<rparr>"
  let ?good = "\<lparr>rd_input = frames sample_msg_libs [sample_message 2 7], rd_end = ?eof\<rparr>"
  let ?evs = "[Incoming (Ok ?bad), Incoming (Err \<lparr>io_kind = OtherKind, io_message = ''too many files''\<rparr>),
    Incoming (Ok ?good), ConnectionTurn 0, ConnectionTurn 1]"
  from connections_isolated [OF sample_chan_ok sample_chan_open, of sample_msg_libs 2 ?evs "[]",
      THEN conjunct1]
  obtain s where s: "listener_thread sample_msg_libs sample_chan 2 (Ok ()) (Ok ()) ?evs [] = Ok s"
    "length (ls_connections s) = length (accepted_streams ?evs)"
    by (elim conjE exE) (rule that)
  have bad: "read_message sample_msg_libs ?bad = (Err (rd_end ?bad), ?bad\<lparr>rd_input := []\<rparr>)"
    by (simp add: read_message_def read_exact_def)
  have "sendable sample_msg_libs (sample_message 2 7)"
    by (simp add: sendable_def length_sample_message max_message_size_def sample_message_def)
  from read_message_frame [OF sample_msg_ok this, of "[]" ?eof]
  have good: "read_message sample_msg_libs ?good = (Ok (sample_message 2 7), \<lparr>rd_input = [], rd_end = ?eof\<rparr>)"
    by (simp only: frames_simps append_Nil2)
  have "m_to (sample_message 2 7) = 2" "chan_send sample_chan m c = (Ok (), c @ [m])" for m c
    by (simp_all add: sample_message_def sample_chan_def)
  then have "ls_msg_tx s = [sample_message 2 7]"
    using s(1) by (auto simp: listener_thread_def bad good simp del: frames_simps)
  with s show ?thesis by auto
qed

end
