(* ===== verification/Client_Parser.thy ===== *)
theory Client_Parser
  imports Client Commands
begin

text \<open>
  The typed line has two readers: \<^verbatim>\<open>parse_command\<close> of the node
  (\<^verbatim>\<open>crates/raft-core/src/commands.rs\<close>) and the inline match of the client's
  \<^verbatim>\<open>App::handle_command\<close> (\<^verbatim>\<open>crates/raft-client/src/main.rs\<close>). This theory says where
  they agree: the client is the node's parser followed by the request, but for the surplus
  tokens of a GET.
\<close>

section \<open>The client as a function of the parsed command\<close>

text \<open>What is logged for the outcome of a request, with the time since it started.\<close>

definition log_put ::
    "('h, 'c, 'w, 'z) client_libs_scheme \<Rightarrow> 'w \<Rightarrow> (unit, string) result \<times> 'w client_app \<Rightarrow>
     (unit, string) result \<times> 'w client_app" where
  "log_put L start = (\<lambda>(r, s).
     case r of
       Ok u \<Rightarrow>
         (Ok (), log_message (''PUT Success ('' @ show_elapsed L start (world s) @ '')'') s)
     | Err e \<Rightarrow> (Ok (), log_message (''PUT Error: '' @ e) s)
     | Panic \<Rightarrow> (Panic, s))"

definition log_get ::
    "('h, 'c, 'w, 'z) client_libs_scheme \<Rightarrow> 'w \<Rightarrow> (string, string) result \<times> 'w client_app \<Rightarrow>
     (unit, string) result \<times> 'w client_app" where
  "log_get L start = (\<lambda>(r, s).
     case r of
       Ok v \<Rightarrow>
         (Ok (), log_message
            (''GET: '' @ v @ '' ('' @ show_elapsed L start (world s) @ '')'') s)
     | Err e \<Rightarrow> (Ok (), log_message (''GET Error: '' @ e) s)
     | Panic \<Rightarrow> (Panic, s))"

text \<open>The answer to a line that makes no request; it depends on the first token alone.\<close>

definition no_request :: "string list \<Rightarrow> string option" where
  "no_request tokens =
     (case tokens of
        [] \<Rightarrow> None
      | name # _ \<Rightarrow>
          (let c = to_ascii_lowercase name in
           if c \<in> {''put'', ''p''} then Some ''Usage: put <key> <value>''
           else if c \<in> {''get'', ''g''} then Some ''Usage: get <key>''
           else if c \<in> {''quit'', ''exit'', ''q''} then None
           else Some (''Unknown command: '' @ name)))"

text \<open>The reference: the node's parser decides.\<close>

definition by_node_parser ::
    "('h, 'c, 'w, 'z) client_libs_scheme \<Rightarrow> bool \<Rightarrow> string \<Rightarrow> ('w client_app, unit, string) op" where
  "by_node_parser L checks line s =
     (case parse_command line of
        Some (UserPut k v) \<Rightarrow> log_put L (world s) (client_put L checks k v s)
      | Some (UserGet k) \<Rightarrow>
          if length (split_whitespace line) = 2
          then log_get L (world s) (client_get L k s)
          else (Ok (), log_message ''Usage: get <key>'' s)
      | _ \<Rightarrow>
          (Ok (), case no_request (split_whitespace line) of
                    Some m \<Rightarrow> log_message m s
                  | None \<Rightarrow> s))"

section \<open>Lemmas\<close>

lemma tokens_not_empty: "split_whitespace s = n # ws \<Longrightarrow> \<forall>w \<in> set ws. w \<noteq> []"
  using split_whitespace_words [of _ s] by (auto simp: is_word_def)

text \<open>The node's parser on the tokens of a line.\<close>

lemma parse_put:
  assumes "split_whitespace line = n # args" "to_ascii_lowercase n \<in> {''put'', ''p''}"
  shows "parse_command line =
    (case args of k # v # vs \<Rightarrow> Some (UserPut k (join_str '' '' (v # vs))) | _ \<Rightarrow> None)"
  using assms tokens_not_empty [OF assms(1)]
  by (cases args) (auto simp: parse_command_def Let_def join_str_eq_Nil
      simp del: join_str.simps split: list.split)

lemma parse_get:
  assumes "split_whitespace line = n # args" "to_ascii_lowercase n \<in> {''get'', ''g''}"
  shows "parse_command line = (case args of k # _ \<Rightarrow> Some (UserGet k) | [] \<Rightarrow> None)"
  using assms by (auto simp: parse_command_def)

lemma parse_other:
  assumes "split_whitespace line = n # args"
    "to_ascii_lowercase n \<notin> {''put'', ''p'', ''get'', ''g''}"
  shows "parse_command line \<in> {None, Some UserKeys, Some UserStatus, Some UserCampaign}"
  using assms by (simp add: parse_command_def Let_def)

lemmas client_request_defs =
  handle_command_def by_node_parser_def no_request_def log_put_def log_get_def Let_def

section \<open>Properties\<close>

text \<open>
  C27. On every line the client does what the node's parser says: it puts exactly the key
  and the value \<open>parse_command\<close> reads and gets the key it reads, and logs the outcome; the
  commands the node alone knows (KEYS, STATUS, CAMPAIGN) and the lines the node refuses make
  no request and leave the world as it is. The one difference is a GET with surplus tokens:
  the node answers it, the client shows the usage.
\<close>

theorem client_reads_as_node:
  "handle_command L checks line s = by_node_parser L checks line s"
proof (cases "split_whitespace line")
  case Nil
  then show ?thesis by (simp add: client_request_defs parse_command_def)
next
  case (Cons n args)
  consider (put) "to_ascii_lowercase n \<in> {''put'', ''p''}"
    | (get) "to_ascii_lowercase n \<in> {''get'', ''g''}"
    | (other) "to_ascii_lowercase n \<notin> {''put'', ''p'', ''get'', ''g''}"
    by blast
  then show ?thesis
  proof cases
    case put
    with Cons parse_put [OF Cons put] show ?thesis
      by (auto simp: client_request_defs simp del: join_str.simps
          split: list.split prod.split result.split)
  next
    case get
    with Cons parse_get [OF Cons get] show ?thesis
      by (auto simp: client_request_defs split: list.split prod.split result.split)
  next
    case other
    with Cons parse_other [OF Cons other] show ?thesis
      by (auto simp: client_request_defs)
  qed
qed

end
