(* ===== verification/Tui_Mirror.thy ===== *)
theory Tui_Mirror
  imports Raft_Driver Tui
begin

text \<open>
  The map the interface shows against the map of the node, over every state the ready loop
  reaches: every operation of the loop sends the updates its effect on the map amounts to,
  except restoring a snapshot, which sends none.
\<close>

section \<open>Operations that are mirrored\<close>

definition mirrors :: "(('t, 'm, 'r, 'y) app_state_scheme, 'a, 'e) op \<Rightarrow> bool" where
  "mirrors m \<longleftrightarrow> (\<forall>s r s'. m s = (r, s') \<longrightarrow> mirrored s s')"

named_theorems mirror_intros \<open>operations whose effect on the map is in the updates they send\<close>

lemma mirrorsI: "(\<And>s r s'. m s = (r, s') \<Longrightarrow> mirrored s s') \<Longrightarrow> mirrors m"
  by (simp add: mirrors_def)

lemma mirrorsD: "mirrors m \<Longrightarrow> m s = (r, s') \<Longrightarrow> mirrored s s'"
  by (simp add: mirrors_def)

lemma mirrors_retO [mirror_intros]: "mirrors (retO a)"
  by (simp add: mirrors_def mirrored_same)

lemma mirrors_liftR [mirror_intros]: "mirrors (liftR r)"
  by (simp add: mirrors_def mirrored_same)

lemma mirrors_bindO [mirror_intros]:
  assumes "mirrors m" and "\<And>a. mirrors (f a)"
  shows "mirrors (bindO m f)"
proof (rule mirrorsI)
  fix s r s'
  assume eq: "bindO m f s = (r, s')"
  obtain x t where t: "m s = (x, t)" by fastforce
  have st: "mirrored s t" by (rule mirrorsD [OF assms(1) t])
  show "mirrored s s'"
  proof (cases x)
    case (Ok a)
    with eq t have "f a t = (r, s')" by simp
    then have "mirrored t s'" by (rule mirrorsD [OF assms(2)])
    with st show ?thesis by (rule mirrored_trans)
  qed (use eq t st in auto)
qed

lemma mirrors_if [mirror_intros]: "mirrors f \<Longrightarrow> mirrors g \<Longrightarrow> mirrors (if b then f else g)"
  by simp

lemma mirrors_storage_op [mirror_intros]: "mirrors (storage_op f)"
  by (rule mirrorsI) (rule mirrored_storage_op)

lemma mirrors_on_node [mirror_intros]: "mirrors (on_node f)"
  by (rule mirrorsI) (auto simp: on_node_def intro: mirrored_same split: prod.splits)

lemma mirrors_apply_entries [mirror_intros]: "mirrors (apply_entries L es)"
  by (rule mirrorsI) (rule mirrored_apply_entries)

lemma mirrors_send_batch [mirror_intros]: "mirrors (send_batch tsend ms)"
  by (rule mirrorsI) (auto simp: send_batch_def intro: mirrored_same split: prod.splits)

lemma mirrors_take_ready [mirror_intros]: "mirrors (take_ready L)"
  by (rule mirrorsI) (auto simp: take_ready_def intro: mirrored_same split: prod.splits)

lemma mirrors_advance_ready [mirror_intros]: "mirrors (advance_ready L rd)"
  by (rule mirrorsI) (auto simp: advance_ready_def intro: mirrored_same split: prod.splits)

text \<open>Updates that are no \<open>KvUpdate\<close> have no effect.\<close>

lemma mirrored_other_updates:
  assumes "kv_node s' = kv_node s" and "updates s' = updates s @ us"
    and "\<forall>u \<in> set us. \<forall>m. update_effect u m = m"
  shows "mirrored s s'"
proof -
  have "fold update_effect us m = m" for m
    using assms(3) by (induction us) auto
  with assms(1,2) show ?thesis by (auto simp: mirrored_def)
qed

lemma mirrors_update_tui_state [mirror_intros]: "mirrors (\<lambda>s. (Ok (), update_tui_state L s))"
proof (rule mirrorsI)
  fix s s' and r :: "(unit, 'e) result"
  assume "(Ok (), update_tui_state L s) = (r, s')"
  then have s': "s' = update_tui_state L s" by simp
  have "\<exists>us. updates s' = updates s @ us \<and> (\<forall>u \<in> set us. \<forall>m. update_effect u m = m)"
  proof (cases "updates s' = updates s @ [RaftStateUpdate (get_state L (raft_node_of s))]")
    case True
    then show ?thesis by auto
  next
    case False
    then obtain prev where "updates s' = updates s @
        [SystemMessage (leader_message prev (get_state L (raft_node_of s))),
         RaftStateUpdate (get_state L (raft_node_of s))]"
      by (auto simp: s' update_tui_state_def Let_def send_update_def split: option.splits if_splits)
    then show ?thesis by auto
  qed
  then show "mirrored s s'"
    by (auto intro: mirrored_other_updates simp: s' update_tui_state_frame)
qed

lemma on_node_updates: "on_node f s = (q, t) \<Longrightarrow> updates t = updates s"
  by (auto simp: on_node_def split: prod.splits)

lemma mirrored_handle:
  assumes "handle L c s = (r, s')"
  shows "mirrored s s'"
proof -
  have kv: "kv_node s' = kv_node s"
    using handle_untouched [OF assms] by (simp add: untouched_def)
  have "\<exists>us. updates s' = updates s @ us \<and> (\<forall>u \<in> set us. \<forall>m. update_effect u m = m)"
  proof (cases c)
    case (Rpc q)
    with assms handle_rpc_untouched [of L q s r s'] show ?thesis by auto
  next
    case (User u)
    from User assms show ?thesis
      by (cases u)
        (auto simp: send_update_def Let_def dest!: on_node_updates
          split: prod.splits result.splits raft_error.splits node_output.splits)
  qed
  with kv show ?thesis by (auto intro: mirrored_other_updates)
qed

lemma mirrors_handle [mirror_intros]: "mirrors (handle L c)"
  by (rule mirrorsI) (rule mirrored_handle)

lemma mirrors_raft_message [mirror_intros]: "mirrors (handle_raft_message L msg)"
proof (rule mirrorsI)
  fix s r s'
  assume r: "handle_raft_message L msg s = (r, s')"
  obtain q t where "on_node (on_raw (\<lambda>st. raw_step L st msg)) s = (q, t)" by fastforce
  with r show "mirrored s s'"
    by (cases q) (auto simp: handle_raft_message_def dest: mirrorsD [OF mirrors_on_node])
qed

lemma mirrors_receive_input [mirror_intros]: "mirrors (receive_input L inp)"
  by (cases inp) (auto intro!: mirror_intros)

lemma mirrors_tick [mirror_intros]: "mirrors (tick_if L due)"
  by (rule mirrorsI) (auto simp: tick_if_def intro: mirrored_same)

text \<open>A round, when the crate hands out no snapshot.\<close>

definition no_snapshots :: "('t, 'm, 'r, 'z) raft_libs_scheme \<Rightarrow> bool" where
  "no_snapshots L \<longleftrightarrow> (\<forall>st w. snapshot_is_empty L (ry_snapshot (fst (raw_ready L st w))))"

lemma mirrors_persist:
  "snapshot_is_empty L (ry_snapshot rd) \<Longrightarrow> mirrors (persist_ready L restore rd)"
  by (auto simp: persist_ready_defs intro!: mirror_intros split: option.split)

lemma mirrors_finish [mirror_intros]: "mirrors (finish_ready L tsend (apply_entries L) rd)"
  unfolding finish_ready_def by (intro mirror_intros)

lemma mirrors_process_ready:
  assumes "no_snapshots L"
  shows "mirrors (driver_process_ready L tsend)"
proof (rule mirrorsI)
  fix s r s'
  assume r: "driver_process_ready L tsend s = (r, s')"
  obtain rd w where rd: "raw_ready L (raft_store (raft_node_of s)) (raw (raft_node_of s)) = (rd, w)" by fastforce
  then have empty: "snapshot_is_empty L (ry_snapshot rd)"
    using assms by (metis fst_conv no_snapshots_def)
  obtain t where t: "take_ready L s = (Ok rd, t)" using rd by (simp add: take_ready_def)
  have "bindO (send_batch tsend (ry_messages rd)) (\<lambda>_.
      bindO (persist_ready L (restore_snapshot L) rd) (\<lambda>_. finish_ready L tsend (apply_entries L) rd)) t = (r, s')"
    using r t by (simp add: driver_process_ready_def process_ready_def)
  moreover have "mirrors (bindO (send_batch tsend (ry_messages rd)) (\<lambda>_.
      bindO (persist_ready L (restore_snapshot L) rd) (\<lambda>_. finish_ready L tsend (apply_entries L) rd)))"
    by (intro mirror_intros mirrors_persist empty)
  ultimately have "mirrored t s'" by (auto dest: mirrorsD)
  with mirrorsD [OF mirrors_take_ready t] show "mirrored s s'" by (rule mirrored_trans)
qed

lemma mirrors_loop_turn:
  assumes "no_snapshots L"
  shows "mirrors (loop_turn L tsend i)"
proof -
  obtain inp due where i: "i = (inp, due)" by fastforce
  have round: "mirrors (\<lambda>s. if \<not> raw_has_ready L (raft_store (raft_node_of s)) (raw (raft_node_of s))
      then (Ok Continue, s)
      else bindO (driver_process_ready L tsend) (\<lambda>_. retO Continue) s)"
  proof -
    have "mirrors (bindO (driver_process_ready L tsend) (\<lambda>_. retO Continue))"
      by (intro mirror_intros mirrors_process_ready assms)
    then show ?thesis by (auto simp: mirrors_def mirrored_same)
  qed
  have "mirrors (case control of Stop \<Rightarrow> retO Stop
      | Continue \<Rightarrow> bindO (tick_if L due) (\<lambda>_ s.
          if \<not> raw_has_ready L (raft_store (raft_node_of s)) (raw (raft_node_of s)) then (Ok Continue, s)
          else bindO (driver_process_ready L tsend) (\<lambda>_. retO Continue) s))" for control
    using round by (cases control) (auto intro!: mirror_intros)
  then show ?thesis
    unfolding loop_turn_def i by (simp add: mirrors_bindO mirrors_receive_input)
qed

lemma mirrored_step: "no_snapshots L \<Longrightarrow> driver_step L tsend s s' \<Longrightarrow> mirrored s s'"
  by (erule driver_stepE) (rule mirrorsD [OF mirrors_loop_turn])

lemma mirrored_reachable:
  assumes "no_snapshots L" and "driver_reachable L tsend s0 s"
  shows "mirrored s0 s"
  using assms(2)
proof induction
  case start
  show ?case by (simp add: mirrored_same)
next
  case (step s s')
  from step.IH mirrored_step [OF assms(1) step.hyps(2)] show ?case by (rule mirrored_trans)
qed

text \<open>Restoring a snapshot changes the map and sends no update.\<close>

lemma restore_sends_nothing: "restore_snapshot L b s = (r, s') \<Longrightarrow> updates s' = updates s"
  by (auto simp: restore_snapshot_def split: prod.splits)

section \<open>Properties\<close>

text \<open>
  C32: the map the interface shows is the map of the node. In every state the driver reaches
  from its start, whatever commands and messages come and whatever fails, an interface that
  drained the updates sent so far holds exactly the entries of the node's map, as long as the
  crate hands out no snapshot to restore.
\<close>

theorem tui_mirrors_map:
  assumes "no_snapshots L" and "driver_reachable L tsend (driver_init n k x) s"
    and "bt_get (kv_store a) = kv_abs k"
  shows "bt_get (kv_store (drain_updates (a\<lparr>state_rx := updates s\<rparr>))) = kv_abs (kv_node s)"
proof -
  have "kv_abs (kv_node s) = fold update_effect (updates s) (kv_abs k)"
    using mirrored_reachable [OF assms(1,2)] by (auto simp: mirrored_def driver_init_def)
  then show ?thesis
    using assms(3) by (simp add: drain_updates_def apply_updates_store)
qed

lemma tui_mirrors_map_witness:
  "let L = sample_raft_libs (\<lambda>_. []);
       rd = sample_ready\<lparr>ry_committed_entries := [sample_put 1 ''a'' ''x'' []]\<rparr>;
       s0 = driver_init (sample_node (sample_raw_leader\<lparr>sr_ready := Some rd\<rparr>)) node_new
              \<lparr>lt_node_id = 1, lt_peers = []\<rparr> in
   \<exists>r s. loop_turn L (local_send sample_chan) (InTimeout, True) s0 = (r, s) \<and>
     bt_get (kv_store (drain_updates ((app_new 1)\<lparr>state_rx := updates s\<rparr>))) = kv_abs (kv_node s)"
proof -
  let ?L = "sample_raft_libs (\<lambda>_. [])"
  let ?rd = "sample_ready\<lparr>ry_committed_entries := [sample_put 1 ''a'' ''x'' []]\<rparr>"
  let ?n = "sample_node (sample_raw_leader\<lparr>sr_ready := Some ?rd\<rparr>)"
  let ?s0 = "driver_init ?n node_new \<lparr>lt_node_id = 1, lt_peers = []\<rparr>"
  obtain r s where turn: "loop_turn ?L (local_send sample_chan) (InTimeout, True) ?s0 = (r, s)"
    by fastforce
  then have reach: "driver_reachable ?L (local_send sample_chan) ?s0 s"
    by (blast intro: driver_reachable.intros driver_step.intros)
  have none: "no_snapshots ?L"
    by (simp add: no_snapshots_def sample_raft_defs snapshot_default_def snapshot_metadata_default_def
        get_metadata_def)
  have "bt_get (kv_store (app_new 1)) = kv_abs node_new" by (simp add: app_new_def)
  from tui_mirrors_map [OF none reach this] turn show ?thesis unfolding Let_def by blast
qed

end
