(* ===== verification/Tui_Bounds.thy ===== *)
theory Tui_Bounds
  imports Tui
begin

text \<open>
  Bounds of the interface of \<^verbatim>\<open>crates/raft-server/src/main.rs\<close> over a whole session: the two
  ring buffers, the cursor, and the arithmetic of drawing, which can panic.
\<close>

section \<open>The invariant of a session\<close>

text \<open>\<open>k\<close> bounds the length of the input line, which grows by one character a turn at most.\<close>

definition session_inv :: "nat \<Rightarrow> tui_app \<Rightarrow> bool" where
  "session_inv k a \<longleftrightarrow>
     ascii_text (input a) \<and> cursor_position a \<le> length (input a) \<and> length (input a) \<le> k \<and>
     length (system_messages a) \<le> 100 \<and> length (command_history a) \<le> 50"

lemma session_inv_new: "session_inv 0 (app_new i)"
  by (simp add: session_inv_def app_new_def ascii_text_def)

lemma session_inv_mono: "session_inv k a \<Longrightarrow> k \<le> l \<Longrightarrow> session_inv l a"
  by (auto simp: session_inv_def)

lemma session_inv_message: "session_inv k a \<Longrightarrow> session_inv k (add_system_message m a)"
  by (simp add: session_inv_def add_system_message_def push_ring_length)

lemma session_inv_history: "session_inv k a \<Longrightarrow> session_inv k (add_command_history c a)"
  by (simp add: session_inv_def add_command_history_def push_ring_length)

lemma session_inv_frame [simp]:
  "session_inv k (a\<lparr>tui_raft_state := st\<rparr>) = session_inv k a"
  "session_inv k (a\<lparr>kv_store := m\<rparr>) = session_inv k a"
  "session_inv k (a\<lparr>state_rx := us\<rparr>) = session_inv k a"
  "session_inv k (a\<lparr>cmd_tx := c\<rparr>) = session_inv k a"
  "session_inv k (a\<lparr>shutdown_tx := d\<rparr>) = session_inv k a"
  "session_inv k (a\<lparr>tui_input_mode := md\<rparr>) = session_inv k a"
  by (simp_all add: session_inv_def)

lemma session_inv_update: "session_inv k a \<Longrightarrow> session_inv k (apply_state_update u a)"
  by (cases u) (simp_all add: session_inv_message)

lemma session_inv_drain: "session_inv k a \<Longrightarrow> session_inv k (drain_updates a)"
proof -
  assume "session_inv k a"
  moreover have "session_inv k b \<Longrightarrow> session_inv k (fold apply_state_update us b)" for us b
    by (induction us arbitrary: b) (simp_all add: session_inv_update)
  ultimately show ?thesis by (simp add: drain_updates_def)
qed

section \<open>Keys\<close>

definition ascii_key :: "key_event \<Rightarrow> bool" where
  "ascii_key k \<longleftrightarrow> (case key_code_of k of CharKey c \<Rightarrow> c < 0x80 | _ \<Rightarrow> True)"

lemma submit_session:
  assumes a: "session_inv k a" and r: "submit_command a = (r, a')"
  shows "r \<noteq> Panic \<and> session_inv k a'"
proof -
  let ?b = "a\<lparr>input := [], cursor_position := 0\<rparr>"
  have b: "session_inv k ?b" using a by (simp add: session_inv_def ascii_text_def)
  have tx: "session_inv k (?b\<lparr>cmd_tx := x\<rparr>)" for x
    using b by simp
  show ?thesis
  proof (cases "trim (input a) = [] \<or> trim (input a) = ''quit'' \<or> trim (input a) = ''exit''")
    case True
    with r b show ?thesis by (auto simp: submit_command_def Let_def)
  next
    case False
    then show ?thesis
    proof (cases "parse_command (input a)")
      case None
      with r False have "r = Ok KeyContinue" "a' = add_system_message (''Unknown command: '' @ input a) ?b"
        by (simp_all add: submit_command_def Let_def)
      with b show ?thesis by (simp add: session_inv_message)
    next
      case (Some c)
      obtain q x where q: "channel_send (User c) (cmd_tx a) = (q, x)" by fastforce
      then have "q \<noteq> Panic" by (auto simp: channel_send_def split: if_splits)
      then show ?thesis
        using r False Some q session_inv_message [OF session_inv_history [OF tx [of x]]] tx [of x]
        by (cases q) (auto simp: submit_command_def Let_def)
    qed
  qed
qed

lemma handle_key_session:
  assumes a: "session_inv k a" and key: "ascii_key key" and r: "handle_key_event key a = (r, a')"
  shows "r \<noteq> Panic \<and> session_inv (Suc k) a'"
proof -
  have asc: "ascii_text (input a)" and i: "cursor_position a \<le> length (input a)"
    and len: "length (input a) \<le> k" using a by (simp_all add: session_inv_def)
  have a1: "session_inv (Suc k) a" by (rule session_inv_mono [OF a]) simp
  note parts = ascii_take_drop [OF asc]
  show ?thesis
  proof (cases "tui_input_mode a")
    case NormalMode
    then have "r \<noteq> Panic" and "a' = a \<or> a' = a\<lparr>tui_input_mode := EditingMode\<rparr>"
      using r by (auto simp: handle_key_event_def split: if_splits)
    with a1 show ?thesis by auto
  next
    case EditingMode
    show ?thesis
    proof (cases "key_code_of key")
      case (CharKey c)
      then have c: "c < 0x80" using key by (simp add: ascii_key_def)
      show ?thesis
        using r EditingMode CharKey a1 c parts asc i len
        by (auto simp: handle_key_event_def ascii_insert [OF asc i c] session_inv_def split: if_splits)
    next
      case BackspaceKey
      have "string_remove (cursor_position a - 1) (input a) =
          (Ok (take (cursor_position a - 1) (input a) @ drop (Suc (cursor_position a - 1)) (input a))
           :: (string, string) result)"
        if "0 < cursor_position a"
        using that i by (intro ascii_remove [OF asc]) simp
      with r EditingMode BackspaceKey a1 parts i len ascii_take_drop [OF asc, of "cursor_position a - 1"]
      show ?thesis
        by (auto simp: handle_key_event_def session_inv_def split: if_splits)
    next
      case EnterKey
      with r EditingMode submit_session [OF a] session_inv_mono [of k a' "Suc k"] show ?thesis
        by (auto simp: handle_key_event_def)
    qed (use r EditingMode a1 in \<open>auto simp: handle_key_event_def session_inv_def\<close>)
  qed
qed

section \<open>Drawing\<close>

text \<open>The areas leave room for a border, and for an input line of \<open>k\<close> characters.\<close>

definition roomy :: "nat \<Rightarrow> layout \<Rightarrow> bool" where
  "roomy k lay \<longleftrightarrow>
     2 \<le> logs_height lay \<and> 2 \<le> history_height lay \<and>
     unat (input_x lay) + k + 1 < 2 ^ 16 \<and> unat (input_y lay) + 1 < 2 ^ 16"

lemma add_u16_fits: "unat x + unat y < 2 ^ 16 \<Longrightarrow> add_u16 checks x y = Ok (x + y)"
  by (simp add: add_u16_def)

lemma input_cursor_fits:
  assumes "roomy k lay" and "cursor_position a \<le> k"
  shows "input_cursor checks (input_x lay) (input_y lay) a =
    (Ok (if tui_input_mode a = EditingMode
         then Some (input_x lay + of_nat (cursor_position a) + 1, input_y lay + 1) else None)
     :: ((u16 \<times> u16) option, 'e) result)"
proof -
  let ?c = "of_nat (cursor_position a) :: u16"
  have small: "unat (input_x lay) + cursor_position a + 1 < 2 ^ 16" "unat (input_y lay) + 1 < 2 ^ 16"
    using assms by (simp_all add: roomy_def)
  then have c: "unat ?c = cursor_position a"
    by (simp add: unat_of_nat)
  then have "add_u16 checks (input_x lay) ?c = (Ok (input_x lay + ?c) :: (u16, 'e) result)"
    using small by (intro add_u16_fits) simp
  moreover have "unat (input_x lay + ?c) = unat (input_x lay) + cursor_position a"
    using small c by (subst unat_add_lem [THEN iffD1]) simp_all
  then have "add_u16 checks (input_x lay + ?c) 1 = (Ok (input_x lay + ?c + 1) :: (u16, 'e) result)"
    using small by (intro add_u16_fits) simp
  moreover have "add_u16 checks (input_y lay) 1 = (Ok (input_y lay + 1) :: (u16, 'e) result)"
    using small by (intro add_u16_fits) simp
  ultimately show ?thesis by (simp add: input_cursor_def)
qed

lemma ui_draws:
  assumes "session_inv k a" and "roomy k lay"
  obtains v where "ui checks lay a = (Ok v :: (tui_view, 'e) result)"
proof -
  have "cursor_position a \<le> k" using assms(1) by (simp add: session_inv_def)
  then obtain c where "input_cursor checks (input_x lay) (input_y lay) a = (Ok c :: (_, 'e) result)"
    using input_cursor_fits [OF assms(2)] by blast
  with assms(2) that show ?thesis
    by (simp add: ui_def newest_def command_history_items_def roomy_def)
qed

section \<open>A turn and a session\<close>

definition terminal_ok :: "nat \<Rightarrow> tui_turn_input \<Rightarrow> bool" where
  "terminal_ok k i \<longleftrightarrow>
     roomy k (ti_layout i) \<and> ti_draw i \<noteq> Panic \<and> ti_poll i \<noteq> Panic \<and>
     (\<forall>key. ti_poll i = Ok (Some key) \<longrightarrow> ascii_key key)"

lemma tui_turn_session:
  assumes a: "session_inv k a" and i: "terminal_ok k i" and r: "tui_turn checks i a = (r, a')"
  shows "r \<noteq> Panic \<and> session_inv (Suc k) a'"
proof -
  let ?a = "drain_updates (a\<lparr>state_rx := state_rx a @ ti_arrived i\<rparr>)"
  have drained: "session_inv k ?a"
    by (rule session_inv_drain) (use a in simp)
  then have d1: "session_inv (Suc k) ?a" by (rule session_inv_mono) simp
  obtain v where v: "ui checks (ti_layout i) ?a = (Ok v :: (tui_view, string) result)"
    using i by (auto simp: terminal_ok_def intro: ui_draws [OF drained])
  show ?thesis
  proof (cases "ti_draw i = Ok () \<and> (\<exists>key. ti_poll i = Ok (Some key))")
    case False
    with r v i d1 show ?thesis
      by (cases "ti_draw i"; cases "ti_poll i")
        (auto simp: tui_turn_def Let_def terminal_ok_def split: option.splits)
  next
    case True
    then obtain key where key: "ti_draw i = Ok ()" "ti_poll i = Ok (Some key)" by blast
    obtain q b where b: "handle_key_event key ?a = (q, b)" by fastforce
    have qb: "q \<noteq> Panic" "session_inv (Suc k) b"
      using handle_key_session [OF drained _ b] i key(2) by (auto simp: terminal_ok_def)
    then have tx: "session_inv (Suc k) (b\<lparr>shutdown_tx := x\<rparr>)" for x
      by simp
    show ?thesis
      using r qb tx
      by (cases q)
        (auto simp: tui_turn_def Let_def v key b channel_send_def split: key_action.splits if_splits)
  qed
qed

lemma tui_loop_session:
  "session_inv k a \<Longrightarrow> \<forall>i \<in> set is. terminal_ok (k + length is) i \<Longrightarrow>
   tui_loop checks is a = (r, a') \<Longrightarrow> r \<noteq> Panic \<and> session_inv (k + length is) a'"
proof (induction "is" arbitrary: k a)
  case Nil
  then show ?case by auto
next
  case (Cons i "is")
  let ?n = "k + length (i # is)"
  obtain q b where b: "tui_turn checks i a = (q, b)" by fastforce
  have "terminal_ok k i" using Cons.prems(2) by (auto simp: terminal_ok_def roomy_def)
  from tui_turn_session [OF Cons.prems(1) this b] have q: "q \<noteq> Panic" "session_inv (Suc k) b" by auto
  then have n: "session_inv ?n b" by (auto elim: session_inv_mono)
  show ?case
  proof (cases "q = Ok False")
    case True
    with Cons.prems(3) b have "tui_loop checks is b = (r, a')" by (simp add: bindO_def)
    from Cons.IH [OF q(2) _ this] Cons.prems(2) show ?thesis by simp
  next
    case False
    with Cons.prems(3) b q n show ?thesis by (cases q) (auto simp: bindO_def)
  qed
qed

section \<open>Properties\<close>

text \<open>
  C22: a session stays within its bounds. Over any number of turns with ASCII keys on a
  terminal that leaves room for the borders and the line typed, the interface does not panic,
  with overflow checks or without; it keeps at most 100 messages and 50 commands, and the
  cursor inside a line no longer than the keys pressed.
\<close>

theorem tui_session_bounds:
  assumes "tui_loop checks is (app_new n) = (r, a)"
    and "\<forall>i \<in> set is. terminal_ok (length is) i"
  shows "r \<noteq> Panic \<and> length (system_messages a) \<le> 100 \<and> length (command_history a) \<le> 50 \<and>
    cursor_position a \<le> length (input a) \<and> length (input a) \<le> length is"
  using tui_loop_session [OF session_inv_new, of "is" checks n r a] assms
  by (simp add: session_inv_def)

theorem tui_session_bounds_witness:
  "let i = \<lparr>ti_arrived = replicate 200 (SystemMessage ''m''),
            ti_layout = \<lparr>logs_height = 10, history_height = 10, input_x = 0, input_y = 20\<rparr>,
            ti_draw = Ok (), ti_poll = Ok (Some \<lparr>key_code_of = CharKey 97, key_control = False\<rparr>)\<rparr> in
   \<exists>r a. tui_loop True [i, i] (app_new 1) = (r, a) \<and> r \<noteq> Panic \<and> length (system_messages a) \<le> 100"
proof -
  let ?i = "\<lparr>ti_arrived = replicate 200 (SystemMessage ''m''),
    ti_layout = \<lparr>logs_height = 10, history_height = 10, input_x = 0, input_y = 20\<rparr>,
    ti_draw = Ok (), ti_poll = Ok (Some \<lparr>key_code_of = CharKey 97, key_control = False\<rparr>)\<rparr>"
  obtain r a where ra: "tui_loop True [?i, ?i] (app_new 1) = (r, a)" by fastforce
  have "terminal_ok (length [?i, ?i]) ?i" by (simp add: terminal_ok_def roomy_def ascii_key_def)
  with tui_session_bounds [OF ra] ra show ?thesis
    unfolding Let_def by (intro exI [of _ r] exI [of _ a]) (simp del: tui_loop.simps replicate.simps)
qed

end
