(* ===== verification/Terminal_Restored.thy ===== *)
theory Terminal_Restored
  imports Tui Client_Cluster
begin

text \<open>
  In which state the two programs leave the terminal, \<open>run_tui\<close> of the server and \<open>main\<close> of
  the client, for every way their loops can end.
\<close>

section \<open>The loops\<close>

text \<open>
  A loop that returned took the terminal and, if the program cleans up after that result,
  gave it back.
\<close>

definition terminal_after ::
    "((bool, string) result \<Rightarrow> bool) \<Rightarrow> (bool, string) result \<Rightarrow> terminal \<Rightarrow> terminal" where
  "terminal_after cleans r t = (if cleans r then given_back t else taken t)"

fun server_cleans :: "(bool, string) result \<Rightarrow> bool" where
  "server_cleans (Ok quit) = quit"
| "server_cleans (Err e) = True"
| "server_cleans Panic = False"

fun client_cleans :: "(bool, string) result \<Rightarrow> bool" where
  "client_cleans (Ok quit) = quit"
| "client_cleans (Err e) = False"
| "client_cleans Panic = False"

lemma run_tui_terminal:
  assumes "terminal_works C"
  shows "run_tui C checks is (t, a) =
    (case tui_loop checks is a of (r, a') \<Rightarrow> (r, (terminal_after server_cleans r t, a')))"
  using assms
  by (auto simp: run_tui_def bindO_def setup_works restore_works terminal_after_def
      split: prod.split result.split bool.split)

lemma client_main_terminal:
  assumes "terminal_works C"
  shows "client_main L C checks arg is w t =
    (case client_loop L checks is (client_new (map trim (split_on (CHR '','') arg)) w) of
       (r, s) \<Rightarrow> (r, (terminal_after client_cleans r t, s)))"
  using assms
  by (auto simp: client_main_def Let_def bindO_def setup_works restore_works terminal_after_def
      split: prod.split result.split bool.split)

section \<open>Properties\<close>

text \<open>
  C37. With working calls of the terminal, the server gives it back whenever its loop returns,
  by quitting or by an error of drawing, polling, reading or a channel; the client gives it
  back only when it is quit. On an error of the client's loop, and on a panic of either, the
  terminal stays in raw mode on the alternate screen.
\<close>

theorem terminal_left_behind:
  assumes "terminal_works C"
    and "run_tui C checks is (t, a) = (r, (t', a'))"
    and "client_main L C checks arg js w t = (r2, (t2, s))"
  shows "(r = Ok True \<or> (\<exists>e. r = Err e) \<longrightarrow> t' = given_back t) \<and>
    (r = Panic \<longrightarrow> raw_mode t' \<and> alternate_screen t') \<and>
    (r2 = Ok True \<longrightarrow> t2 = given_back t) \<and>
    ((\<exists>e. r2 = Err e) \<or> r2 = Panic \<longrightarrow> raw_mode t2 \<and> alternate_screen t2)"
  using assms(2,3)
  unfolding run_tui_terminal [OF assms(1)] client_main_terminal [OF assms(1)]
  by (auto simp: terminal_after_def taken_def split: prod.splits)

text \<open>The same failure of drawing in both programs.\<close>

definition plain_terminal :: terminal where
  "plain_terminal = \<lparr> raw_mode = False, alternate_screen = False \<rparr>"

definition failing_turn :: tui_turn_input where
  "failing_turn =
     \<lparr> ti_arrived = [],
       ti_layout = \<lparr> logs_height = 10, history_height = 10, input_x = 0, input_y = 20 \<rparr>,
       ti_draw = Err ''broken pipe'', ti_poll = Ok None \<rparr>"

definition failing_client_turn :: client_turn_input where
  "failing_client_turn = \<lparr> ct_x = 0, ct_y = 0, ct_draw = Err ''broken pipe'', ct_poll = Ok None \<rparr>"

theorem terminal_left_behind_witness:
  "snd (run_tui sample_calls True [failing_turn] (plain_terminal, app_new 1)) =
     (plain_terminal, app_new 1) \<and>
   raw_mode (fst (snd (client_main (cluster_libs sample_grpc_libs (\<lambda>ps x. (Some (hd ps), x))) sample_calls
     True ''127.0.0.1:7001'' [failing_client_turn] (sample_cluster [] []) plain_terminal)))"
proof -
  define L w where "L = cluster_libs sample_grpc_libs (\<lambda>ps x :: unit. (Some (hd ps), x))"
    and "w = sample_cluster [] []"
  define arg where "arg = ''127.0.0.1:7001''"
  let ?s = "client_new (map trim (split_on (CHR '','') arg)) w"
  have server: "tui_loop True [failing_turn] (app_new 1) = (Err ''broken pipe'', app_new 1)"
    by (simp add: tui_turn_def Let_def drain_updates_def failing_turn_def app_new_def ui_def newest_def
        command_history_items_def input_cursor_def bindO_def add_u16_def)
  then have r: "run_tui sample_calls True [failing_turn] (plain_terminal, app_new 1) =
      (Err ''broken pipe'', (given_back plain_terminal, app_new 1))"
    by (simp add: run_tui_terminal terminal_after_def)
  have "client_loop L True [failing_client_turn] ?s = (Err ''broken pipe'', ?s)"
    by (simp add: client_turn_def client_ui_def client_new_def add_u16_def failing_client_turn_def)
  then have c: "client_main L sample_calls True arg [failing_client_turn] w plain_terminal =
      (Err ''broken pipe'', (taken plain_terminal, ?s))"
    by (simp add: client_main_terminal terminal_after_def)
  from terminal_left_behind [OF sample_calls_work r c] r c show ?thesis
    unfolding arg_def L_def w_def by (simp add: given_back_def plain_terminal_def)
qed

end
