(* ===== verification/Test_Support.thy ===== *)
theory Test_Support
  imports Raft_Driver
begin

text \<open>
  The stand-ins of \<^verbatim>\<open>crates/raft-core/src/test_support.rs\<close>: a transport that always fails, an
  applicator that records, and the harness that builds a driver around a transport. Each
  stand-in is an instance of the interface it stands for, so what is proved of any transport
  or applicator holds with it.
\<close>

section \<open>FailingTransport\<close>

datatype failing_transport = FailingTransport

definition failing_send :: "u64 \<Rightarrow> message \<Rightarrow> (failing_transport, unit, transport_error) op" where
  "failing_send to msg t = (Err (ChannelFull to), t)"

interpretation failing:
  transport True "\<lambda>t. i" "\<lambda>t p. True" "\<lambda>t p. []" failing_send for i
  by unfold_locales (auto simp: failing_send_def)

section \<open>MockEntryApplicator\<close>

record mock_entry_applicator =
  applied_entries :: "entry list"
  fail_on_apply :: bool
  fail_on_snapshot :: bool

definition mock_new :: mock_entry_applicator where
  "mock_new = \<lparr> applied_entries = [], fail_on_apply = False, fail_on_snapshot = False \<rparr>"

definition mock_failing :: mock_entry_applicator where
  "mock_failing = \<lparr> applied_entries = [], fail_on_apply = True, fail_on_snapshot = False \<rparr>"

definition num_applied :: "mock_entry_applicator \<Rightarrow> nat" where
  "num_applied m = length (applied_entries m)"

definition has_entry_at_index :: "u64 \<Rightarrow> mock_entry_applicator \<Rightarrow> bool" where
  "has_entry_at_index index m \<longleftrightarrow> (\<exists>e \<in> set (applied_entries m). e_index e = index)"

definition mock_clear :: "mock_entry_applicator \<Rightarrow> mock_entry_applicator" where
  "mock_clear m = m\<lparr>applied_entries := []\<rparr>"

definition mock_apply_entries :: "entry list \<Rightarrow> (mock_entry_applicator, unit, raft_loop_error) op" where
  "mock_apply_entries es m =
     (if fail_on_apply m then (Err (OtherError ''Mock failure''), m)
      else (Ok (), m\<lparr>applied_entries := applied_entries m @ es\<rparr>))"

definition mock_restore_snapshot :: "bytes \<Rightarrow> (mock_entry_applicator, unit, raft_loop_error) op" where
  "mock_restore_snapshot b m =
     (if fail_on_snapshot m then (Err (OtherError ''Mock snapshot failure''), m) else (Ok (), m))"

lemma fold_snoc: "fold (\<lambda>e v. v @ [e]) es v = v @ es"
  by (induction es arbitrary: v) simp_all

interpretation mock:
  entry_applicator True "\<lambda>m. \<not> fail_on_apply m" "\<lambda>m. ()" "\<lambda>m. ()" applied_entries
    "\<lambda>e v. v @ [e]" mock_apply_entries mock_restore_snapshot
  by unfold_locales
    (auto simp: mock_apply_entries_def mock_restore_snapshot_def fold_snoc split: if_splits)

section \<open>The harness\<close>

text \<open>
  The driver and the ends of its channels the test keeps: the commands sent and whether the
  shutdown was sent. The receivers live in the driver, so the sends succeed.
\<close>

record ('t, 'm, 'r, 'x) harness =
  hs_driver :: "('t, 'm, 'r, 'x) loop_state"
  hs_commands :: "server_command list"
  hs_shutdown :: bool

definition with_transport ::
    "('t, 'm, 'r, 'z) raft_libs_scheme \<Rightarrow> u64 \<Rightarrow> 'x \<Rightarrow>
     (('t, 'm, 'r, 'x) harness, raft_error) result" where
  "with_transport L node_id net =
     bindR (expect (raft_node_new L node_id [node_id] (storage_new L))) (\<lambda>raft_node.
     bindR (expect (build
       (set_shutdown_rx () (set_transport net (set_state_tx () (set_msg_rx () (set_cmd_rx ()
         (set_kv_node node_new (set_raft_node raft_node builder_new))))))))) (\<lambda>parts.
     Ok \<lparr> hs_driver = driver_init (d_raft_node parts) (d_kv_node parts) (d_transport parts),
          hs_commands = [], hs_shutdown = False \<rparr>))"

definition single_node ::
    "('t, 'm, 'r, 'z) raft_libs_scheme \<Rightarrow> u64 \<Rightarrow>
     (('t, 'm, 'r, 'c local_transport) harness, raft_error) result" where
  "single_node L node_id = with_transport L node_id (local_new node_id [])"

definition send_command ::
    "server_command \<Rightarrow> ('t, 'm, 'r, 'x) harness \<Rightarrow> (unit, string) result \<times> ('t, 'm, 'r, 'x) harness" where
  "send_command c h = (Ok (), h\<lparr>hs_commands := hs_commands h @ [c]\<rparr>)"

definition harness_shutdown :: "('t, 'm, 'r, 'x) harness \<Rightarrow> ('t, 'm, 'r, 'x) harness" where
  "harness_shutdown h = h\<lparr>hs_shutdown := True\<rparr>"

text \<open>A harness starts as a server does: an empty map, nobody waiting, its own transport.\<close>

lemma with_transport_driver:
  assumes "with_transport L node_id net = Ok h"
  shows "\<exists>n. raft_node_new L node_id [node_id] (storage_new L) = Ok n \<and>
    hs_driver h = driver_init n node_new net"
proof -
  have "\<exists>n. raft_node_new L node_id [node_id] (storage_new L) = Ok n"
    using assms by (cases "raft_node_new L node_id [node_id] (storage_new L)") (auto simp: with_transport_def)
  then obtain n where n: "raft_node_new L node_id [node_id] (storage_new L) = Ok n" by blast
  with assms show ?thesis
    by (auto simp: with_transport_def build_def set_raft_node_def set_kv_node_def set_cmd_rx_def
        set_msg_rx_def set_state_tx_def set_transport_def set_shutdown_rx_def builder_new_def)
qed

end
