(* ===== verification/Unit_Tests.thy ===== *)
theory Unit_Tests
  imports Test_Support Server_Cli Tcp_Transport
begin

text \<open>
  The unit tests that stand beside the code, as programs of the model: a test is a result, a
  failed assertion a panic, and the lemmas say that it passes. They run on any libraries with
  the documented behaviour named in each lemma.

  The tests of \<^verbatim>\<open>builder.rs\<close>, \<^verbatim>\<open>snapshot.rs\<close>, \<^verbatim>\<open>disk_storage.rs\<close>, \<^verbatim>\<open>tcp_transport.rs\<close> and
  \<^verbatim>\<open>test_support.rs\<close> of \<^verbatim>\<open>crates/raft-core/src\<close> and of \<^verbatim>\<open>crates/raft-server/src/cli.rs\<close>.
\<close>

section \<open>Assertions\<close>

type_synonym unit_test = "(unit, string) result"

definition assert_that :: "bool \<Rightarrow> unit_test" where
  "assert_that b = (if b then Ok () else Panic)"

fun unwrap_err :: "('a, 'e) result \<Rightarrow> ('e, string) result" where
  "unwrap_err (Err e) = Ok e"
| "unwrap_err _ = Panic"

fun str_contains :: "string \<Rightarrow> string \<Rightarrow> bool" where
  "str_contains [] t \<longleftrightarrow> t = []"
| "str_contains (c # s) t \<longleftrightarrow> starts_with (c # s) t \<or> str_contains s t"

lemma assert_that_True [simp]: "assert_that b = Ok () \<longleftrightarrow> b"
  by (simp add: assert_that_def)

lemma str_contains_append: "str_contains (s @ t @ u) t"
proof (induction s)
  case Nil
  show ?case by (cases "t @ u") (use starts_with_append [of t u] in \<open>auto simp del: starts_with_append\<close>)
qed simp

section \<open>builder.rs\<close>

definition create_test_raft_node ::
    "('t, 'm, 'r, 'z) raft_libs_scheme \<Rightarrow> u64 \<Rightarrow> (('t, 'm, 'r) raft_node, string) result" where
  "create_test_raft_node L i = expect (raft_node_new L i [i] (storage_new L))"

abbreviation no_parts ::
    "('n, unit, unit, unit, unit local_transport, unit) driver_builder" where
  "no_parts \<equiv> builder_new"

definition test_builder_missing_raft_node :: unit_test where
  "test_builder_missing_raft_node =
     (let builder = (builder_new :: (unit, unit, unit, unit, unit local_transport, unit) driver_builder);
          result = build builder
      in assert_that (result = Err MissingRaftNode))"

definition test_builder_missing_kv_node :: "('t, 'm, 'r, 'z) raft_libs_scheme \<Rightarrow> unit_test" where
  "test_builder_missing_kv_node L =
     bindR (create_test_raft_node L 1) (\<lambda>n.
     let builder = set_raft_node n no_parts; result = build builder
     in assert_that (result = Err MissingKvNode))"

definition test_builder_missing_cmd_rx :: "('t, 'm, 'r, 'z) raft_libs_scheme \<Rightarrow> unit_test" where
  "test_builder_missing_cmd_rx L =
     bindR (create_test_raft_node L 1) (\<lambda>n.
     let builder = set_kv_node node_new (set_raft_node n no_parts); result = build builder
     in assert_that (result = Err MissingCmdRx))"

definition test_builder_missing_msg_rx :: "('t, 'm, 'r, 'z) raft_libs_scheme \<Rightarrow> unit_test" where
  "test_builder_missing_msg_rx L =
     bindR (create_test_raft_node L 1) (\<lambda>n.
     let builder = set_cmd_rx () (set_kv_node node_new (set_raft_node n no_parts)); result = build builder
     in assert_that (result = Err MissingMsgRx))"

definition test_builder_missing_state_tx :: "('t, 'm, 'r, 'z) raft_libs_scheme \<Rightarrow> unit_test" where
  "test_builder_missing_state_tx L =
     bindR (create_test_raft_node L 1) (\<lambda>n.
     let builder = set_msg_rx () (set_cmd_rx () (set_kv_node node_new (set_raft_node n no_parts)));
         result = build builder
     in assert_that (result = Err MissingStateTx))"

definition test_builder_missing_transport :: "('t, 'm, 'r, 'z) raft_libs_scheme \<Rightarrow> unit_test" where
  "test_builder_missing_transport L =
     bindR (create_test_raft_node L 1) (\<lambda>n.
     let builder = set_state_tx () (set_msg_rx () (set_cmd_rx () (set_kv_node node_new
           (set_raft_node n no_parts))));
         result = build builder
     in assert_that (result = Err MissingTransport))"

definition test_builder_missing_shutdown_rx :: "('t, 'm, 'r, 'z) raft_libs_scheme \<Rightarrow> unit_test" where
  "test_builder_missing_shutdown_rx L =
     (let transport = local_new 1 [] in
      bindR (create_test_raft_node L 1) (\<lambda>n.
      let builder = set_transport transport (set_state_tx () (set_msg_rx () (set_cmd_rx ()
            (set_kv_node node_new (set_raft_node n no_parts)))));
          result = build builder
      in assert_that (result = Err MissingShutdownRx)))"

definition test_builder_success :: "('t, 'm, 'r, 'z) raft_libs_scheme \<Rightarrow> unit_test" where
  "test_builder_success L =
     (let transport = local_new 1 [] in
      bindR (create_test_raft_node L 1) (\<lambda>n.
      let builder = set_shutdown_rx () (set_transport transport (set_state_tx () (set_msg_rx ()
            (set_cmd_rx () (set_kv_node node_new (set_raft_node n no_parts))))));
          result = build builder
      in assert_that (is_ok result)))"

definition test_builder_fluent_api :: "('t, 'm, 'r, 'z) raft_libs_scheme \<Rightarrow> unit_test" where
  "test_builder_fluent_api L =
     (let transport = local_new 1 [] in
      bindR (create_test_raft_node L 1) (\<lambda>n.
      bindR (expect (build (set_shutdown_rx () (set_transport transport (set_state_tx () (set_msg_rx ()
        (set_cmd_rx () (set_kv_node node_new (set_raft_node n no_parts))))))))) (\<lambda>driver. Ok ())))"

definition test_builder_error_display :: unit_test where
  "test_builder_error_display =
     bindR (assert_that (show_builder_error MissingRaftNode = ''RaftNode is required'')) (\<lambda>_.
     bindR (assert_that (show_builder_error MissingKvNode = ''KvNode is required'')) (\<lambda>_.
     bindR (assert_that (show_builder_error MissingCmdRx = ''Command receiver is required'')) (\<lambda>_.
     bindR (assert_that (show_builder_error MissingMsgRx = ''Message receiver is required'')) (\<lambda>_.
     bindR (assert_that (show_builder_error MissingStateTx = ''State sender is required'')) (\<lambda>_.
     bindR (assert_that (show_builder_error MissingTransport = ''Transport is required'')) (\<lambda>_.
     assert_that (show_builder_error MissingShutdownRx = ''Shutdown receiver is required'')))))))"

definition test_builder_default :: unit_test where
  "test_builder_default =
     (let builder = (builder_new :: (unit, unit, unit, unit, unit local_transport, unit) driver_builder);
          result = build builder
      in assert_that (\<not> is_ok result))"

lemma builder_tests:
  "test_builder_missing_raft_node = Ok ()" "test_builder_error_display = Ok ()" "test_builder_default = Ok ()"
  by (simp_all add: test_builder_missing_raft_node_def test_builder_error_display_def test_builder_default_def
      build_def builder_new_def)

lemma builder_tests_with_node:
  assumes "raft_node_new L 1 [1] (storage_new L) = Ok n"
  shows "test_builder_missing_kv_node L = Ok ()" "test_builder_missing_cmd_rx L = Ok ()"
    "test_builder_missing_msg_rx L = Ok ()" "test_builder_missing_state_tx L = Ok ()"
    "test_builder_missing_transport L = Ok ()" "test_builder_missing_shutdown_rx L = Ok ()"
    "test_builder_success L = Ok ()" "test_builder_fluent_api L = Ok ()"
  by (simp_all add: test_builder_missing_kv_node_def test_builder_missing_cmd_rx_def
      test_builder_missing_msg_rx_def test_builder_missing_state_tx_def test_builder_missing_transport_def
      test_builder_missing_shutdown_rx_def test_builder_success_def test_builder_fluent_api_def
      create_test_raft_node_def assms Let_def build_def builder_new_def set_raft_node_def set_kv_node_def
      set_cmd_rx_def set_msg_rx_def set_state_tx_def set_transport_def set_shutdown_rx_def)

section \<open>snapshot.rs\<close>

definition sample_data :: kv_map where
  "sample_data =
     bt_insert ''special'' (''with spaces and '' @
         map (\<lambda>n. char_of (n :: nat)) [0xE6, 0x97, 0xA5, 0xE6, 0x9C, 0xAC, 0xE8, 0xAA, 0x9E])
       (bt_insert ''key2'' ''value2'' (bt_insert ''key1'' ''value1'' []))"

definition test_bincode_roundtrip :: "'z kv_libs_scheme \<Rightarrow> unit_test" where
  "test_bincode_roundtrip L =
     (let original = sample_data in
      bindR (expect (bincode_codec_encode L original)) (\<lambda>encoded.
      bindR (expect (bincode_codec_decode L encoded)) (\<lambda>decoded.
      assert_that (original = decoded))))"

definition test_bincode_empty :: "'z kv_libs_scheme \<Rightarrow> unit_test" where
  "test_bincode_empty L =
     bindR (expect (bincode_codec_encode L [])) (\<lambda>encoded.
     bindR (expect (bincode_codec_decode L encoded)) (\<lambda>decoded.
     assert_that ([] = decoded)))"

definition test_bincode_empty_bytes :: "'z kv_libs_scheme \<Rightarrow> unit_test" where
  "test_bincode_empty_bytes L =
     bindR (expect (bincode_codec_decode L [])) (\<lambda>decoded. assert_that (decoded = []))"

definition test_json_roundtrip :: "'z kv_libs_scheme \<Rightarrow> unit_test" where
  "test_json_roundtrip L =
     (let original = sample_data in
      bindR (expect (json_codec_encode L original)) (\<lambda>encoded.
      bindR (expect (json_codec_decode L encoded)) (\<lambda>decoded.
      assert_that (original = decoded))))"

definition test_json_empty :: "'z kv_libs_scheme \<Rightarrow> unit_test" where
  "test_json_empty L =
     bindR (expect (json_codec_encode L [])) (\<lambda>encoded.
     bindR (expect (json_codec_decode L encoded)) (\<lambda>decoded.
     assert_that ([] = decoded)))"

definition test_json_empty_bytes :: "'z kv_libs_scheme \<Rightarrow> unit_test" where
  "test_json_empty_bytes L =
     bindR (expect (json_codec_decode L [])) (\<lambda>decoded. assert_that (decoded = []))"

fun is_decode_error :: "('a, snapshot_error) result \<Rightarrow> bool" where
  "is_decode_error (Err (DecodeError e)) \<longleftrightarrow> True"
| "is_decode_error _ \<longleftrightarrow> False"

fun is_err :: "('a, 'e) result \<Rightarrow> bool" where
  "is_err (Err e) \<longleftrightarrow> True"
| "is_err _ \<longleftrightarrow> False"

definition test_bincode_decode_error :: "'z kv_libs_scheme \<Rightarrow> unit_test" where
  "test_bincode_decode_error L =
     (let result = bincode_codec_decode L (str_bytes ''not valid bincode data!!!'') in
      bindR (assert_that (is_err result)) (\<lambda>_. assert_that (is_decode_error result)))"

definition test_json_decode_error :: "'z kv_libs_scheme \<Rightarrow> unit_test" where
  "test_json_decode_error L =
     (let result = json_codec_decode L (str_bytes ''not valid json {{{'') in
      bindR (assert_that (is_err result)) (\<lambda>_. assert_that (is_decode_error result)))"

definition test_snapshot_error_display :: unit_test where
  "test_snapshot_error_display =
     bindR (assert_that (show_snapshot_error (EncodeError ''test error'') =
       ''Failed to encode snapshot: test error'')) (\<lambda>_.
     assert_that (show_snapshot_error (DecodeError ''test error'') = ''Failed to decode snapshot: test error''))"

text \<open>\<open>String::from_utf8\<close>: the length of the character at the front, 0 for none, and the check.\<close>

definition continues :: "u8 \<Rightarrow> bool" where
  "continues b \<longleftrightarrow> 0x80 \<le> b \<and> b < 0xC0"

definition utf8_front :: "bytes \<Rightarrow> nat" where
  "utf8_front bs =
     (case bs of
        [] \<Rightarrow> 0
      | a # r \<Rightarrow>
          if a < 0x80 then 1
          else if 0xC2 \<le> a \<and> a \<le> 0xDF \<and> 1 \<le> length r \<and> continues (r ! 0) then 2
          else if 0xE0 \<le> a \<and> a \<le> 0xEF \<and> 2 \<le> length r \<and> list_all continues (take 2 r) \<and>
            (a = 0xE0 \<longrightarrow> 0xA0 \<le> r ! 0) \<and> (a = 0xED \<longrightarrow> r ! 0 < 0xA0) then 3
          else if 0xF0 \<le> a \<and> a \<le> 0xF4 \<and> 3 \<le> length r \<and> list_all continues (take 3 r) \<and>
            (a = 0xF0 \<longrightarrow> 0x90 \<le> r ! 0) \<and> (a = 0xF4 \<longrightarrow> r ! 0 < 0x90) then 4
          else 0)"

function utf8_valid :: "bytes \<Rightarrow> bool" where
  "utf8_valid bs =
     (if bs = [] then True
      else if utf8_front bs = 0 then False
      else utf8_valid (drop (utf8_front bs) bs))"
  by pat_completeness auto
termination by (relation "measure length") auto

declare utf8_valid.simps [simp del]

definition from_utf8 :: "bytes \<Rightarrow> (string, string) result" where
  "from_utf8 bs =
     (if utf8_valid bs then Ok (map (\<lambda>b. char_of (unat b)) bs) else Err ''invalid utf-8 sequence'')"

lemma utf8_ascii: "list_all (\<lambda>b. b < 0x80) bs \<Longrightarrow> utf8_valid bs"
proof (induction bs)
  case Nil
  show ?case by (simp add: utf8_valid.simps)
next
  case (Cons a bs)
  then have "utf8_front (a # bs) = 1" by (simp add: utf8_front_def)
  with Cons show ?case by (simp add: utf8_valid.simps [of "a # bs"])
qed

definition test_json_human_readable :: "'z kv_libs_scheme \<Rightarrow> unit_test" where
  "test_json_human_readable L =
     (let data = bt_insert ''hello'' ''world'' [] in
      bindR (expect (json_codec_encode L data)) (\<lambda>encoded.
      bindR (expect (from_utf8 encoded)) (\<lambda>json_str.
      bindR (assert_that (str_contains json_str ''hello'')) (\<lambda>_.
      assert_that (str_contains json_str ''world'')))))"

text \<open>The JSON of a map with one entry is the object with that member.\<close>

definition hello_world :: string where
  "hello_world = [CHR ''{'', CHR 0x22] @ ''hello'' @ [CHR 0x22, CHR '':'', CHR 0x22] @ ''world'' @
     [CHR 0x22, CHR ''}'']"

lemma json_readable_test:
  assumes "json_encode_map L [(''hello'', ''world'')] = Ok (str_bytes hello_world)"
  shows "test_json_human_readable L = Ok ()"
proof -
  have "list_all (\<lambda>b. b < 0x80) (str_bytes hello_world)"
    by (simp add: hello_world_def str_bytes_def u8_of_def byte_def)
  then have "from_utf8 (str_bytes hello_world) = Ok hello_world"
    by (simp add: from_utf8_def utf8_ascii str_bytes_def char_of_u8_of comp_def)
  moreover have "str_contains hello_world ''hello''" "str_contains hello_world ''world''"
    by (simp_all add: hello_world_def starts_with_def)
  ultimately show ?thesis
    by (simp add: test_json_human_readable_def json_codec_encode_def assms)
qed

lemma sample_data_wf: "bt_wf sample_data"
  unfolding sample_data_def by (intro bt_wf_insert bt_wf_Nil)

lemma bincode_tests:
  assumes "bincode_ok L"
  shows "test_bincode_roundtrip L = Ok ()" "test_bincode_empty L = Ok ()" "test_bincode_empty_bytes L = Ok ()"
  using bincode_codec.dec_enc [OF assms sample_data_wf] bincode_codec.dec_enc [OF assms, of "[]"]
    bincode_codec.dec_empty [of L]
  by (auto simp: test_bincode_roundtrip_def test_bincode_empty_def test_bincode_empty_bytes_def)

lemma json_tests:
  assumes "json_ok L"
  shows "test_json_roundtrip L = Ok ()" "test_json_empty L = Ok ()" "test_json_empty_bytes L = Ok ()"
  using json_codec.dec_enc [OF assms sample_data_wf] json_codec.dec_enc [OF assms, of "[]"]
    json_codec.dec_empty [of L]
  by (auto simp: test_json_roundtrip_def test_json_empty_def test_json_empty_bytes_def)

lemma decode_error_tests:
  "bincode_decode_map L (str_bytes ''not valid bincode data!!!'') = Err e \<Longrightarrow> test_bincode_decode_error L = Ok ()"
  "json_decode_map L (str_bytes ''not valid json {{{'') = Err e \<Longrightarrow> test_json_decode_error L = Ok ()"
  "test_snapshot_error_display = Ok ()"
  by (simp_all add: test_bincode_decode_error_def test_json_decode_error_def test_snapshot_error_display_def
      bincode_codec_decode_def json_codec_decode_def str_bytes_def)

section \<open>disk\_storage.rs\<close>

definition test_index_key_conversion :: unit_test where
  "test_index_key_conversion =
     bindR (assert_that (key_to_index (index_to_key 0) = Some 0)) (\<lambda>_.
     bindR (assert_that (key_to_index (index_to_key 1) = Some 1)) (\<lambda>_.
     bindR (assert_that (key_to_index (index_to_key 100) = Some 100)) (\<lambda>_.
     assert_that (key_to_index (index_to_key (- 1)) = Some (- 1)))))"

definition test_key_ordering :: unit_test where
  "test_key_ordering =
     (let key1 = index_to_key 1; key10 = index_to_key 10; key100 = index_to_key 100 in
      bindR (assert_that (key1 < key10)) (\<lambda>_. assert_that (key10 < key100)))"

lemma disk_key_tests: "test_index_key_conversion = Ok ()" "test_key_ordering = Ok ()"
  by (simp_all add: test_index_key_conversion_def test_key_ordering_def index_to_key_less)

section \<open>test\_support.rs\<close>

definition test_failing_transport_always_fails :: unit_test where
  "test_failing_transport_always_fails =
     (let transport = FailingTransport;
          msg = \<lparr>m_type = 0, m_to = 0, m_from = 0, m_term = 0, m_rest = []\<rparr>;
          result = fst (failing_send 1 msg transport)
      in bindR (assert_that (is_err result)) (\<lambda>_. assert_that (result = Err (ChannelFull 1))))"

definition entry_at :: "u64 \<Rightarrow> entry" where
  "entry_at i = \<lparr>e_type = EntryNormal, e_term = 1, e_index = i, e_data = [], e_context = []\<rparr>"

definition test_mock_applicator_records_entries :: "('t, 'm, 'r, 'z) raft_libs_scheme \<Rightarrow> unit_test" where
  "test_mock_applicator_records_entries L =
     (let applicator = mock_new in
      bindR (expect (raft_node_new L 1 [1] (storage_new L))) (\<lambda>raft_node.
      case mock_apply_entries [entry_at 1, entry_at 2] applicator of
        (r, applicator) \<Rightarrow>
          bindR (expect r) (\<lambda>_.
          bindR (assert_that (num_applied applicator = 2)) (\<lambda>_.
          bindR (assert_that (has_entry_at_index 1 applicator)) (\<lambda>_.
          bindR (assert_that (has_entry_at_index 2 applicator)) (\<lambda>_.
          assert_that (\<not> has_entry_at_index 3 applicator)))))))"

definition test_mock_applicator_can_fail :: "('t, 'm, 'r, 'z) raft_libs_scheme \<Rightarrow> unit_test" where
  "test_mock_applicator_can_fail L =
     (let applicator = mock_failing in
      bindR (expect (raft_node_new L 1 [1] (storage_new L))) (\<lambda>raft_node.
      let result = fst (mock_apply_entries [] applicator)
      in assert_that (is_err result)))"

definition test_mock_applicator_clear :: "('t, 'm, 'r, 'z) raft_libs_scheme \<Rightarrow> unit_test" where
  "test_mock_applicator_clear L =
     (let applicator = mock_new in
      bindR (expect (raft_node_new L 1 [1] (storage_new L))) (\<lambda>raft_node.
      case mock_apply_entries [entry_at 1] applicator of
        (r, applicator) \<Rightarrow>
          bindR (expect r) (\<lambda>_.
          bindR (assert_that (num_applied applicator = 1)) (\<lambda>_.
          let applicator = mock_clear applicator
          in assert_that (num_applied applicator = 0)))))"

lemma failing_transport_test: "test_failing_transport_always_fails = Ok ()"
  by (simp add: test_failing_transport_always_fails_def failing_send_def)

lemma mock_tests:
  assumes "raft_node_new L 1 [1] (storage_new L) = Ok n"
  shows "test_mock_applicator_records_entries L = Ok ()" "test_mock_applicator_can_fail L = Ok ()"
    "test_mock_applicator_clear L = Ok ()"
  by (simp_all add: test_mock_applicator_records_entries_def test_mock_applicator_can_fail_def
      test_mock_applicator_clear_def assms mock_new_def mock_failing_def mock_apply_entries_def mock_clear_def
      num_applied_def has_entry_at_index_def entry_at_def)

section \<open>tcp\_transport.rs\<close>

text \<open>A heartbeat has the number 8 among the types of messages.\<close>

definition heartbeat :: message where
  "heartbeat = \<lparr>m_type = 8, m_to = 2, m_from = 1, m_term = 5, m_rest = []\<rparr>"

text \<open>A cursor over a buffer ends with \<open>UnexpectedEof\<close>.\<close>

definition cursor :: "bytes \<Rightarrow> reader" where
  "cursor buf = \<lparr>rd_input = buf,
     rd_end = \<lparr>io_kind = UnexpectedEof, io_message = ''failed to fill whole buffer''\<rparr>\<rparr>"

definition test_message_serialization_roundtrip :: "'z msg_libs_scheme \<Rightarrow> unit_test" where
  "test_message_serialization_roundtrip L =
     (let msg = heartbeat in
      case write_message L vec_writer msg [] of
        (r, buf) \<Rightarrow>
          bindR (expect r) (\<lambda>_.
          bindR (expect (fst (read_message L (cursor buf)))) (\<lambda>decoded.
          bindR (assert_that (m_type msg = m_type decoded)) (\<lambda>_.
          bindR (assert_that (m_to msg = m_to decoded)) (\<lambda>_.
          bindR (assert_that (m_from msg = m_from decoded)) (\<lambda>_.
          assert_that (m_term msg = m_term decoded)))))))"

definition test_message_length_prefix :: "'z msg_libs_scheme \<Rightarrow> unit_test" where
  "test_message_length_prefix L =
     (let msg = heartbeat in
      case write_message L vec_writer msg [] of
        (r, buf) \<Rightarrow>
          bindR (expect r) (\<lambda>_.
          let len = from_be (take 4 buf) in assert_that (len = length buf - 4)))"

lemma message_tests:
  assumes "encode_message L heartbeat = Ok b" and "decode_message L b = Ok heartbeat"
    and "length b \<le> max_message_size"
  shows "test_message_serialization_roundtrip L = Ok ()" "test_message_length_prefix L = Ok ()"
proof -
  have len: "unat (of_nat (length b) :: u32) = length b"
    using assms(3) by (simp add: max_message_size_def unat_of_nat)
  have buf: "write_message L vec_writer heartbeat [] = (Ok (), to_be 4 (length b) @ b)"
    using assms(1) by (simp add: write_message_def bindO_def vec_writer_def Let_def len)
  have pre: "from_be (to_be 4 (length b)) = length b"
    using assms(3) by (intro from_be_to_be) (simp add: max_message_size_def)
  have "fst (read_message L (cursor (to_be 4 (length b) @ b))) = Ok heartbeat"
    using assms(2,3) by (simp add: read_message_def read_exact_def cursor_def pre Let_def)
  then show "test_message_serialization_roundtrip L = Ok ()" "test_message_length_prefix L = Ok ()"
    using pre
    by (simp_all add: test_message_serialization_roundtrip_def test_message_length_prefix_def buf)
qed

section \<open>cli.rs\<close>

definition test_parse_peers_valid_single :: "('h, 'z) addr_libs_scheme \<Rightarrow> unit_test" where
  "test_parse_peers_valid_single L =
     bindR (expect (parse_peers L ''1=127.0.0.1:6001'')) (\<lambda>peers.
     bindR (assert_that (length peers = 1)) (\<lambda>_.
     assert_that (map_option (show_addr L) (bt_get peers 1) = Some ''127.0.0.1:6001'')))"

definition test_parse_peers_valid_multiple :: "('h, 'z) addr_libs_scheme \<Rightarrow> unit_test" where
  "test_parse_peers_valid_multiple L =
     bindR (expect (parse_peers L ''1=127.0.0.1:6001,2=127.0.0.1:6002,3=127.0.0.1:6003'')) (\<lambda>peers.
     bindR (assert_that (length peers = 3)) (\<lambda>_.
     bindR (assert_that (map_option (show_addr L) (bt_get peers 1) = Some ''127.0.0.1:6001'')) (\<lambda>_.
     bindR (assert_that (map_option (show_addr L) (bt_get peers 2) = Some ''127.0.0.1:6002'')) (\<lambda>_.
     assert_that (map_option (show_addr L) (bt_get peers 3) = Some ''127.0.0.1:6003'')))))"

definition test_parse_peers_with_whitespace :: "('h, 'z) addr_libs_scheme \<Rightarrow> unit_test" where
  "test_parse_peers_with_whitespace L =
     bindR (expect (parse_peers L '' 1=127.0.0.1:6001 , 2=127.0.0.1:6002 '')) (\<lambda>peers.
     assert_that (length peers = 2))"

text \<open>\<open>result.is_err()\<close>, then that the error contains a text.\<close>

definition fails_with :: "('a, string) result \<Rightarrow> string \<Rightarrow> unit_test" where
  "fails_with result part =
     bindR (assert_that (is_err result)) (\<lambda>_.
     bindR (unwrap_err result) (\<lambda>e. assert_that (str_contains e part)))"

definition test_parse_peers_invalid_format_missing_equals :: "('h, 'z) addr_libs_scheme \<Rightarrow> unit_test" where
  "test_parse_peers_invalid_format_missing_equals L =
     fails_with (parse_peers L ''1-127.0.0.1:6001'') ''expected ID=HOST:PORT''"

definition test_parse_peers_invalid_id :: "('h, 'z) addr_libs_scheme \<Rightarrow> unit_test" where
  "test_parse_peers_invalid_id L = fails_with (parse_peers L ''abc=127.0.0.1:6001'') ''Invalid node ID''"

definition test_parse_peers_invalid_address :: "('h, 'z) addr_libs_scheme \<Rightarrow> unit_test" where
  "test_parse_peers_invalid_address L = fails_with (parse_peers L ''1=invalid:6001'') ''Invalid address''"

definition test_parse_peers_duplicate_id :: "('h, 'z) addr_libs_scheme \<Rightarrow> unit_test" where
  "test_parse_peers_duplicate_id L =
     fails_with (parse_peers L ''1=127.0.0.1:6001,1=127.0.0.1:6002'') ''Duplicate node ID''"

definition test_parse_peers_empty :: "('h, 'z) addr_libs_scheme \<Rightarrow> unit_test" where
  "test_parse_peers_empty L = fails_with (parse_peers L []) ''empty''"

definition test_parse_peers_localhost_variants :: "('h, 'z) addr_libs_scheme \<Rightarrow> unit_test" where
  "test_parse_peers_localhost_variants L =
     bindR (expect (parse_peers L ''1=localhost:6001'')) (\<lambda>peers.
     bindR (assert_that (length peers = 1)) (\<lambda>_.
     assert_that (bt_get peers 1 \<noteq> None)))"

text \<open>What the parser makes of the texts, but for the resolution of the addresses.\<close>

lemma digits_shown: "show_u64 1 = ''1''" "show_u64 2 = ''2''" "show_u64 3 = ''3''"
proof -
  have "digit 1 = CHR ''1''" "digit 2 = CHR ''2''" "digit 3 = CHR ''3''"
    unfolding byte_eq_iff [symmetric] by (simp_all add: byte_digit) (simp_all add: byte_def)
  then show "show_u64 1 = ''1''" "show_u64 2 = ''2''" "show_u64 3 = ''3''"
    by (simp_all add: show_u64_def show_nat.simps)
qed

lemma digits_parsed: "parse_u64 ''1'' = Ok 1" "parse_u64 ''2'' = Ok 2" "parse_u64 ''3'' = Ok 3"
  using parse_u64_show_u64 [of 1] parse_u64_show_u64 [of 2] parse_u64_show_u64 [of 3]
  unfolding digits_shown by simp_all

lemma abc_not_parsed: "parse_u64 ''abc'' = Err InvalidDigit"
  by (simp add: parse_u64_def is_digit_def byte_def)

lemma entries_trimmed:
  "trim ''1=127.0.0.1:6001'' = ''1=127.0.0.1:6001''" "trim ''2=127.0.0.1:6002'' = ''2=127.0.0.1:6002''"
  "trim ''3=127.0.0.1:6003'' = ''3=127.0.0.1:6003''" "trim ''1=127.0.0.1:6002'' = ''1=127.0.0.1:6002''"
  "trim ''1-127.0.0.1:6001'' = ''1-127.0.0.1:6001''" "trim ''abc=127.0.0.1:6001'' = ''abc=127.0.0.1:6001''"
  "trim ''1=invalid:6001'' = ''1=invalid:6001''" "trim ''1=localhost:6001'' = ''1=localhost:6001''"
  "trim [] = []"
  by (rule trim_no_ws, simp add: byte_def)+

lemma entries_trimmed_ws:
  "trim '' 1=127.0.0.1:6001 '' = ''1=127.0.0.1:6001''" "trim '' 2=127.0.0.1:6002 '' = ''2=127.0.0.1:6002''"
  by (simp_all add: trim_def skip_ws.simps trim_end.simps ws_suffix_len_def ascii_ws_def ws2_def ws3_def byte_def)

definition resolves_test_addrs :: "('h, 'z) addr_libs_scheme \<Rightarrow> bool" where
  "resolves_test_addrs L \<longleftrightarrow>
     (\<forall>s \<in> {''127.0.0.1:6001'', ''127.0.0.1:6002'', ''127.0.0.1:6003''}.
        \<exists>a. to_socket_addrs L s = Ok [a] \<and> show_addr L a = s) \<and>
     (\<exists>e. to_socket_addrs L ''invalid:6001'' = Err e) \<and>
     (\<exists>a as. to_socket_addrs L ''localhost:6001'' = Ok (a # as))"

lemmas cli_tests = test_parse_peers_valid_single_def test_parse_peers_valid_multiple_def
  test_parse_peers_with_whitespace_def test_parse_peers_invalid_format_missing_equals_def
  test_parse_peers_invalid_id_def test_parse_peers_invalid_address_def test_parse_peers_duplicate_id_def
  test_parse_peers_empty_def test_parse_peers_localhost_variants_def fails_with_def

lemmas cli_eval = parse_peers_def parse_peer_entry_def entries_trimmed entries_trimmed_ws digits_parsed
  abc_not_parsed bt_get_def Let_def in_quotes_def starts_with_def

lemma parse_peers_tests:
  assumes "resolves_test_addrs L"
  shows "test_parse_peers_valid_single L = Ok ()" "test_parse_peers_valid_multiple L = Ok ()"
    "test_parse_peers_with_whitespace L = Ok ()" "test_parse_peers_invalid_format_missing_equals L = Ok ()"
    "test_parse_peers_invalid_id L = Ok ()" "test_parse_peers_invalid_address L = Ok ()"
    "test_parse_peers_duplicate_id L = Ok ()" "test_parse_peers_empty L = Ok ()"
    "test_parse_peers_localhost_variants L = Ok ()"
proof -
  obtain a1 a2 a3 e a as where "to_socket_addrs L ''127.0.0.1:6001'' = Ok [a1]" "show_addr L a1 = ''127.0.0.1:6001''"
    "to_socket_addrs L ''127.0.0.1:6002'' = Ok [a2]" "show_addr L a2 = ''127.0.0.1:6002''"
    "to_socket_addrs L ''127.0.0.1:6003'' = Ok [a3]" "show_addr L a3 = ''127.0.0.1:6003''"
    "to_socket_addrs L ''invalid:6001'' = Err e" "to_socket_addrs L ''localhost:6001'' = Ok (a # as)"
    using assms unfolding resolves_test_addrs_def by auto
  note addrs = this
  show "test_parse_peers_valid_single L = Ok ()" by (simp add: cli_tests cli_eval addrs)
  show "test_parse_peers_valid_multiple L = Ok ()" by (simp add: cli_tests cli_eval addrs)
  show "test_parse_peers_with_whitespace L = Ok ()" by (simp add: cli_tests cli_eval addrs)
  show "test_parse_peers_invalid_format_missing_equals L = Ok ()" by (simp add: cli_tests cli_eval addrs)
  show "test_parse_peers_invalid_id L = Ok ()" by (simp add: cli_tests cli_eval addrs)
  show "test_parse_peers_invalid_address L = Ok ()" by (simp add: cli_tests cli_eval addrs)
  show "test_parse_peers_duplicate_id L = Ok ()" by (simp add: cli_tests cli_eval addrs)
  show "test_parse_peers_empty L = Ok ()" by (simp add: cli_tests cli_eval addrs)
  show "test_parse_peers_localhost_variants L = Ok ()" by (simp add: cli_tests cli_eval addrs)
qed

end
