(* ===== verification/Spec2Isabelle.thy ===== *)
theory Spec2Isabelle
  imports Cluster_Safety Client_Server Tcp_Listener Client_Parser Tui_Mirror Tui_Bounds
    Terminal_Restored Unit_Tests
begin

text \<open>
  raft-a-tui: a replicated key-value store on the raft crate, with a terminal interface, a gRPC
  service and a terminal client. This library models its Rust code, with the theorems that
  make it correct. Paths are below \<^verbatim>\<open>src/crates/\<close>; \<^verbatim>\<open>core\<close> is \<^verbatim>\<open>raft-core/src\<close>.

  The program and how its parts interact. A server parses its peer list, opens a storage,
  makes a raft node on it, a TCP transport and a gRPC service, and runs two loops: the ready
  loop of the driver and the loop of the terminal interface. The ready loop takes commands
  (from the interface and from gRPC) and messages (from the transport), gives them to the raft
  crate, and for each \<open>Ready\<close> of the crate sends messages, persists snapshot, entries and hard
  state, sends the messages that depend on it, applies committed entries to the key-value node,
  answers the gRPC callers that wait for them and tells the interface. The client reaches the
  gRPC services over the network and follows their redirects.

  Theories and what they model.

  \<^item> \<^theory_text>\<open>Prelude\<close>: machine integers, \<open>Result\<close> with a panic as a third value, the state-passing
    operations \<open>op\<close> with \<open>bindO\<close> for the question mark, facts on them. \<^theory_text>\<open>Rust_Std\<close> and
    \<^theory_text>\<open>Rust_Text\<close>: what the code uses of Rust's standard library, executable: integers as
    bytes and as text, white space, splitting, \<open>BTreeMap\<close>, editing of UTF-8 strings.
  \<^item> \<^theory_text>\<open>Commands\<close> (\<^verbatim>\<open>core/commands.rs\<close>), \<^theory_text>\<open>Kv_Node\<close> (\<^verbatim>\<open>core/node.rs\<close>, \<^verbatim>\<open>codec.rs\<close>,
    \<^verbatim>\<open>snapshot.rs\<close>): the commands and their parser, the replicated map and its snapshots.
  \<^item> \<^theory_text>\<open>Raft_Types\<close>, \<^theory_text>\<open>Disk_Storage\<close> (\<^verbatim>\<open>core/disk_storage.rs\<close>): the data exchanged with the raft
    crate and the persistent store, its three trees and its cached applied index.
    \<^theory_text>\<open>Disk_Refinement\<close> holds the abstract store and one refinement lemma for each write,
    \<^theory_text>\<open>Disk_Reading\<close> one for each read, \<^theory_text>\<open>Disk_Properties\<close> the theorems over histories and crashes.
    \<^theory_text>\<open>Raft_Storage\<close> (\<^verbatim>\<open>core/storage.rs\<close>): memory or disk, behind one interface.
  \<^item> \<^theory_text>\<open>Network\<close> and \<^theory_text>\<open>Tcp_Transport\<close> (\<^verbatim>\<open>core/network.rs\<close>, \<^verbatim>\<open>tcp_transport.rs\<close>): the two
    transports, the frames, the connection handler, the sender thread with its retries.
    \<^theory_text>\<open>Tcp_Listener\<close>: the listener and its connections under any interleaving.
  \<^item> \<^theory_text>\<open>Raft_Node\<close> (\<^verbatim>\<open>core/raft_node.rs\<close>): proposals, their callbacks and the reported state.
  \<^item> \<^theory_text>\<open>Loop_Types\<close>, \<^theory_text>\<open>Entry_Applicator\<close>, \<^theory_text>\<open>Ready_Processor\<close>, \<^theory_text>\<open>Command_Handler\<close>,
    \<^theory_text>\<open>Raft_Driver\<close> (\<^verbatim>\<open>core/entry_applicator.rs\<close>, \<^verbatim>\<open>ready_processor.rs\<close>,
    \<^verbatim>\<open>command_handler.rs\<close>, \<^verbatim>\<open>raft_loop.rs\<close>, \<^verbatim>\<open>builder.rs\<close>): the ready loop, step by step,
    also as a transition system. \<^theory_text>\<open>Loop_Invariant\<close>: the locales that carry an invariant
    through a turn; \<^theory_text>\<open>Driver_Safety\<close>: what holds over whole runs; \<^theory_text>\<open>Cluster_Safety\<close>:
    several drivers on a network, with crashes and restarts.
  \<^item> \<^theory_text>\<open>Tui\<close> and \<^theory_text>\<open>Server_Main\<close> (\<^verbatim>\<open>raft-server/src/main.rs\<close>), \<^theory_text>\<open>Server_Cli\<close>
    (\<^verbatim>\<open>cli.rs\<close>), \<^theory_text>\<open>Grpc_Service\<close> (\<^verbatim>\<open>server.rs\<close>): the interface, the start of a server,
    the peer list, the gRPC handlers. \<^theory_text>\<open>Terminal\<close>: taking the terminal and giving it back,
    in both binaries. \<^theory_text>\<open>Server_Process\<close>: the three threads of a server on their channels
    (\<open>process_step\<close>) and the end of \<open>main\<close>. \<^theory_text>\<open>Tui_Mirror\<close>: the interface against the
    driver; \<^theory_text>\<open>Tui_Bounds\<close>: whole sessions of it.
  \<^item> \<^theory_text>\<open>Client\<close> (\<^verbatim>\<open>raft-client/src/main.rs\<close>): the client; \<^theory_text>\<open>Client_Cluster\<close>: the client
    against a cluster of gRPC services; \<^theory_text>\<open>Client_Parser\<close>: its commands against the parser of
    the node; \<^theory_text>\<open>Terminal_Restored\<close>: both programs against the terminal.
  \<^item> \<^theory_text>\<open>Store_History\<close>: what callers are promised, the legal histories of an atomic store;
    \<^theory_text>\<open>Linearizability\<close>: the running server against them; \<^theory_text>\<open>Client_Server\<close>: the client
    against running servers, whose threads go on while a call waits.
  \<^item> \<^theory_text>\<open>Test_Support\<close> (\<^verbatim>\<open>core/test_support.rs\<close>): the stand-ins used in tests.
    \<^theory_text>\<open>Unit_Tests\<close>: the unit tests that stand beside the code (\<^verbatim>\<open>builder.rs\<close>,
    \<^verbatim>\<open>snapshot.rs\<close>, \<^verbatim>\<open>tcp_transport.rs\<close>, \<^verbatim>\<open>disk_storage.rs\<close>, \<^verbatim>\<open>test_support.rs\<close>,
    \<^verbatim>\<open>cli.rs\<close>), as programs of the model that pass.
  \<^item> \<^theory_text>\<open>Sample_Codec\<close>, \<^theory_text>\<open>Sample_Disk\<close>, \<^theory_text>\<open>Sample_Session\<close> and the sections called instances: concrete libraries on
    which the theorems with hypotheses are applied.

  Correspondence. A struct is a record with its fields, an enum a datatype, a \<open>u64\<close> a 64-bit
  word (a \<open>usize\<close> that only counts is a natural number), a \<open>String\<close> the list of its bytes. A
  method on \<open>&mut self\<close> is a function from its state to a result and the state it leaves,
  also when it fails. Third-party code (sled, the raft crate, prost, bincode, serde\_json,
  crossbeam, tonic, the network, the terminal) is a field of a record of libraries that the
  definitions take as an argument; what the theorems assume of it stands in named predicates
  (\<open>disk_ok\<close>, \<open>storage_ok\<close>, \<open>prost_ok\<close>, \<open>crate_ok\<close>, \<open>apply_ok\<close>, \<open>chan_ok\<close>, \<open>grpc_ok\<close> and
  others), each shown to hold of a concrete library. That the crate never panics and never hands
  out a snapshot that cannot be decoded (\<open>crate_ok\<close>) is assumed only where a property follows one
  call or one process further (C4, C21): how a turn, a run and a cluster go on is stated for any
  crate, with \<open>crate_panics\<close>, \<open>unreadable_snapshot\<close> and \<open>turn_failure\<close> for what it may do wrong.
  A panic inside \<open>ready\<close>, \<open>advance\<close> or \<open>tick\<close> is outside the model, and \<open>apply_ok\<close> says that
  decoding a configuration change and applying it return.

  Interfaces. The traits of the code and the contracts between components are locales, each
  interpreted on the code's own operations: \<open>round_invariant\<close> (what a round keeps that knows
  the items the crate handed out; the histories of a server), \<open>loop_invariant\<close>, which gives it
  for what holds whatever is handed out (the callers and their answers), \<open>snapshot_codec\<close>
  (bincode and JSON), \<open>applied_store\<close> (the storage), \<open>transport\<close> (channels, TCP, the failing stand-in), \<open>entry_applicator\<close> and
  \<open>loop_applicator\<close> (the key-value applicator, the mock), \<open>put_network\<close> (the gRPC services), \<open>store_network\<close>
  (running servers).

  What the theorems show. C1, C9: clusters, that maps agree and that nodes stay well-formed.
  C2, C8: the server is a linearizable store of what raft committed. C3, C7: so the PUTs the
  client reports are written, the command that was answered once and none twice, and it reads
  its own. C4: a PUT from end to end. C5, C15, C21, C33: the running server, its calls, how it ends and how it fails to. C6, C10, C23 to C25,
  C34: the persistent store refines an abstract log store over any history, survives crashes,
  reads back what it holds, and where it is not the log the raft crate expects. C11, C12: the
  order of sending and persisting in a round, when it fails at any step and when it succeeds.
  C13, C20: applying entries as a state machine, and the answers. C14: what ends the loop. C17: snapshots. C16, C18, C19, C36, C39: delivery
  and its limits. C26, C27: the parsers of commands. C28: the outcomes of a PUT at the command
  handler. C29, C35: gRPC and the start. C30, C31: the client, its redirects and retries. C22,
  C32, C37, C38, C40: the interface and the terminal. The theories hold more theorems of the
  same kind that are not numbered: who is answered over a whole run, the operations of the
  key-value node, the peer list, proposals and restarts, the outcomes of the gRPC handlers,
  the order of log keys, compaction.

  Bounds. The client's loop has the code's five attempts as a number that counts down; the sender
  thread the code's three. The driver and the interface loop for ever in the code: their models
  take the finite list of what they receive and say whether they still run at its end, so every
  finite part of a run is covered and no fuel is guessed. Everything else terminates on its data.

  The cluster. \<open>hands_out\<close> says what the raft crate documents of committed entries, with the list
  of those handed out so far as a ghost of its state; that two nodes are handed the same
  entries is consensus itself, third-party code, so C1 takes it as a hypothesis on the two
  lists and shows what this program makes of it. A snapshot stands for entries handed out, if it
  can be decoded; a node handed one that cannot ends its loop, and is down. Messages between
  nodes may be lost, repeated and reordered, nodes crash at any moment and restart on what their disk holds.

  Histories. \<open>carries\<close> says of the raft crate that what it commits under a context of this node
  is what was proposed with it; \<open>watch\<close> names two ghosts of its state, the proposals and what it
  has handed out. A history holds the calls, the writes, the snapshots taken over, the
  refusals and the reads; its writes must be what the crate handed out, so C2 leaves the server
  no write of its own. While a call of the client waits, C3 and C7 let every server do whatever
  its threads can: \<open>sv_runs\<close> is any list of such runs; \<open>sv_calls\<close> records the
  commands the client's calls have sent, so that the oneshot of a call can be named. A call
  nobody answers during its wait ends in the model like one whose oneshot was dropped.

  Not modelled: the raft algorithm (third-party), time-outs and sockets, the layout, colours and
  widgets of the interface, logging and the log file, the text \<open>clap\<close> parses, the generated
  protobuf code, and the integration tests.
\<close>

end
